(* ===== verification/Prelude.thy ===== *)
theory Prelude
  imports Main "HOL-Library.Word" "HOL-Library.Multiset" "HOL-Library.Sublist"
begin

text \<open>
  Shared vocabulary of the development: the Go types and the pieces of the Go runtime that
  every component uses (machine integers, slices with their nil value, error values, instants
  and durations), computations that thread a state and may fail, and the list functions behind
  the SQL clauses (\<open>ORDER BY\<close>, \<open>LIMIT\<close>, \<open>row_number() ... = 1\<close>) with their laws.
\<close>

named_theorems inv_intros "introduction rules for the preservation of invariants"

section \<open>Go values\<close>

type_synonym i64 = "64 word"
type_synonym u64 = "64 word"
type_synonym i32 = "32 word"
type_synonym u32 = "32 word"

text \<open>
  A Go slice is nil or a list; the two behave alike under \<open>len\<close> and \<open>range\<close> but are
  encoded differently by encoding/json and by the database driver.
\<close>

type_synonym 'a slice = "'a list option"

definition elems :: "'a slice \<Rightarrow> 'a list" where
  "elems s = (case s of None \<Rightarrow> [] | Some xs \<Rightarrow> xs)"

lemma elems_simps [simp]: "elems None = []" "elems (Some xs) = xs"
  by (simp_all add: elems_def)

abbreviation go_len :: "'a slice \<Rightarrow> nat" where
  "go_len s \<equiv> length (elems s)"

definition max_int64 :: int where
  "max_int64 = 9223372036854775807"

definition min_int64 :: int where
  "min_int64 = -9223372036854775808"

section \<open>Errors\<close>

text \<open>
  Error values. \<open>Wrap p e\<close> is \<open>fmt.Errorf("p: %w", e)\<close>, \<open>Join es\<close> is
  \<open>errors.Join\<close>, \<open>Pg c\<close> is an error reported by PostgreSQL with SQLSTATE \<open>c\<close>;
  \<open>Canceled\<close> and \<open>DeadlineExceeded\<close> are the two errors of package context.
\<close>

datatype go_error =
    Canceled
  | DeadlineExceeded
  | Err string
  | Pg string
  | Wrap string go_error
  | Join "go_error list"

fun join_strings :: "string \<Rightarrow> string list \<Rightarrow> string" where
  "join_strings sep [] = []"
| "join_strings sep [x] = x"
| "join_strings sep (x # y # xs) = x @ sep @ join_strings sep (y # xs)"

fun error_text :: "go_error \<Rightarrow> string" where
  "error_text Canceled = ''context canceled''"
| "error_text DeadlineExceeded = ''context deadline exceeded''"
| "error_text (Err m) = m"
| "error_text (Pg c) = ''SQLSTATE '' @ c"
| "error_text (Wrap p e) = p @ '': '' @ error_text e"
| "error_text (Join es) = join_strings [CHR 0x0A] (map error_text es)"

text \<open>\<open>errors.Is\<close> for a sentinel: the error itself or anything it wraps or joins.\<close>

fun errors_is :: "go_error \<Rightarrow> go_error \<Rightarrow> bool" where
  "errors_is (Wrap p e) t = (Wrap p e = t \<or> errors_is e t)"
| "errors_is (Join es) t = (Join es = t \<or> (\<exists>e \<in> set es. errors_is e t))"
| "errors_is e t = (e = t)"

text \<open>\<open>errors.Join(errs...)\<close> over non-nil errors: nil when there is none.\<close>

definition errors_join :: "go_error list \<Rightarrow> go_error option" where
  "errors_join es = (if es = [] then None else Some (Join es))"

lemma errors_join_None [simp]: "errors_join es = None \<longleftrightarrow> es = []"
  by (simp add: errors_join_def)

type_synonym 'a result = "go_error + 'a"

section \<open>Instants and durations\<close>

text \<open>
  \<open>time.Time\<close>: nanoseconds since Go's zero instant, and the monotonic reading that
  \<open>time.Now\<close> adds and \<open>UTC\<close> strips. \<open>time.Duration\<close> is a signed 64-bit count of
  nanoseconds; \<open>Sub\<close> saturates and prefers the monotonic readings when both have one.
\<close>

record gotime =
  wall :: int
  mono :: "int option"

definition sat64 :: "int \<Rightarrow> i64" where
  "sat64 d = word_of_int (max min_int64 (min max_int64 d))"

definition time_sub :: "gotime \<Rightarrow> gotime \<Rightarrow> i64" where
  "time_sub t u = (case (mono t, mono u) of
       (Some a, Some b) \<Rightarrow> sat64 (a - b)
     | _ \<Rightarrow> sat64 (wall t - wall u))"

definition time_add :: "gotime \<Rightarrow> i64 \<Rightarrow> gotime" where
  "time_add t d = t\<lparr>wall := wall t + sint d, mono := map_option (\<lambda>m. m + sint d) (mono t)\<rparr>"

definition time_utc :: "gotime \<Rightarrow> gotime" where
  "time_utc t = t\<lparr>mono := None\<rparr>"

definition time_is_zero :: "gotime \<Rightarrow> bool" where
  "time_is_zero t \<longleftrightarrow> wall t = 0"

definition zero_time :: gotime where
  "zero_time = \<lparr>wall = 0, mono = None\<rparr>"

lemma sint_sat64: "sint (sat64 d) = max min_int64 (min max_int64 d)"
proof -
  let ?c = "max min_int64 (min max_int64 d)"
  have "- (2 ^ 63) \<le> ?c" and "?c < 2 ^ 63"
    by (auto simp: min_int64_def max_int64_def)
  then show ?thesis
    unfolding sat64_def int_word_sint by (simp add: mod_pos_pos_trivial)
qed

lemma wall_time_add [simp]: "wall (time_add t d) = wall t + sint d"
  by (simp add: time_add_def)

lemma wall_time_utc [simp]: "wall (time_utc t) = wall t"
  by (simp add: time_utc_def)

section \<open>Computations with a state and an error\<close>

text \<open>
  A call that may fail and may change the state. \<open>bindE\<close> is a call followed by
  \<open>if err != nil { return err }\<close>, \<open>wrapE\<close> adds the context of \<open>fmt.Errorf\<close>,
  \<open>foreach\<close> is a loop that returns at the first error.
\<close>

type_synonym ('s, 'a) act = "'s \<Rightarrow> 'a result \<times> 's"

definition ret :: "'a \<Rightarrow> ('s, 'a) act" where
  "ret x s = (Inr x, s)"

definition bindE :: "('s, 'a) act \<Rightarrow> ('a \<Rightarrow> ('s, 'b) act) \<Rightarrow> ('s, 'b) act" where
  "bindE m f s = (case m s of (Inl e, s') \<Rightarrow> (Inl e, s') | (Inr x, s') \<Rightarrow> f x s')"

definition wrapE :: "string \<Rightarrow> ('s, 'a) act \<Rightarrow> ('s, 'a) act" where
  "wrapE p m s = (case m s of (Inl e, s') \<Rightarrow> (Inl (Wrap p e), s') | (Inr x, s') \<Rightarrow> (Inr x, s'))"

fun foreach :: "('a \<Rightarrow> ('s, unit) act) \<Rightarrow> 'a list \<Rightarrow> ('s, unit) act" where
  "foreach f [] = ret ()"
| "foreach f (x # xs) = bindE (f x) (\<lambda>_. foreach f xs)"

lemma ret_eq [simp]: "ret x s = (Inr x, s)"
  by (simp add: ret_def)

lemma bindE_Inr: "bindE m f s = (Inr y, t) \<longleftrightarrow> (\<exists>x u. m s = (Inr x, u) \<and> f x u = (Inr y, t))"
  by (auto simp: bindE_def split: prod.splits sum.splits)

lemma wrapE_Inr [simp]: "wrapE p m s = (Inr y, t) \<longleftrightarrow> m s = (Inr y, t)"
  by (auto simp: wrapE_def split: prod.splits sum.splits)

lemma snd_wrapE [simp]: "snd (wrapE p m s) = snd (m s)"
  by (auto simp: wrapE_def split: prod.splits sum.splits)

text \<open>A successful loop has run every iteration, each in the state the one before left.\<close>

lemma foreach_ok_fold:
  assumes "\<And>x s t. x \<in> set xs \<Longrightarrow> f x s = (Inr (), t) \<Longrightarrow> view t = g x (view s)"
  shows "foreach f xs s = (Inr (), t) \<Longrightarrow> view t = fold g xs (view s)"
  using assms
proof (induction xs arbitrary: s)
  case Nil
  then show ?case by simp
next
  case (Cons x xs)
  from Cons.prems(1) obtain u where "f x s = (Inr (), u)" and u: "foreach f xs u = (Inr (), t)"
    by (auto simp: bindE_Inr)
  then have "view u = g x (view s)" using Cons.prems(2) by simp
  moreover have "view t = fold g xs (view u)"
    by (rule Cons.IH [OF u]) (simp add: Cons.prems(2))
  ultimately show ?case by simp
qed

text \<open>
  Success: from every state of \<open>P\<close> the computation returns a value, in a state of \<open>P\<close>.
  A composed computation succeeds when each of its calls does.
\<close>

definition succeeds :: "('s \<Rightarrow> bool) \<Rightarrow> ('s, 'a) act \<Rightarrow> bool" where
  "succeeds P m \<longleftrightarrow> (\<forall>s. P s \<longrightarrow> (\<exists>x t. m s = (Inr x, t) \<and> P t))"

lemma succeeds_ret: "succeeds P (ret x)"
  by (simp add: succeeds_def)

lemma succeeds_bindE: "succeeds P m \<Longrightarrow> (\<And>x. succeeds P (f x)) \<Longrightarrow> succeeds P (bindE m f)"
  unfolding succeeds_def bindE_def by fastforce

lemma succeeds_wrapE: "succeeds P m \<Longrightarrow> succeeds P (wrapE p m)"
  unfolding succeeds_def wrapE_def by fastforce

lemma succeeds_foreach: "(\<And>x. x \<in> set xs \<Longrightarrow> succeeds P (f x)) \<Longrightarrow> succeeds P (foreach f xs)"
  by (induction xs) (auto intro: succeeds_ret succeeds_bindE)

lemma succeeds_if: "(b \<Longrightarrow> succeeds P m) \<Longrightarrow> (\<not> b \<Longrightarrow> succeeds P n) \<Longrightarrow> succeeds P (if b then m else n)"
  by simp

lemmas succeeds_intros = succeeds_ret succeeds_bindE succeeds_wrapE succeeds_foreach succeeds_if

text \<open>
  Frame reasoning: a reflexive and transitive relation between the states before and after is
  kept by a composed computation, error exits included, when each of its calls keeps it.
\<close>

definition keeps :: "('s \<Rightarrow> 's \<Rightarrow> bool) \<Rightarrow> ('s, 'a) act \<Rightarrow> bool" where
  "keeps R m \<longleftrightarrow> (\<forall>s. R s (snd (m s)))"

locale state_frame =
  fixes R :: "'s \<Rightarrow> 's \<Rightarrow> bool"
  assumes R_refl: "R s s"
    and R_trans: "R s t \<Longrightarrow> R t u \<Longrightarrow> R s u"
begin

lemma keeps_ret: "keeps R (ret x)"
  by (simp add: keeps_def R_refl)

lemma keeps_bindE: "keeps R m \<Longrightarrow> (\<And>x. keeps R (f x)) \<Longrightarrow> keeps R (bindE m f)"
  unfolding keeps_def bindE_def
  by (auto split: prod.splits sum.splits intro: R_refl)
     (metis R_trans snd_conv)+

lemma keeps_wrapE: "keeps R m \<Longrightarrow> keeps R (wrapE p m)"
  by (simp add: keeps_def)

lemma keeps_foreach: "(\<And>x. x \<in> set xs \<Longrightarrow> keeps R (f x)) \<Longrightarrow> keeps R (foreach f xs)"
  by (induction xs) (auto intro: keeps_ret keeps_bindE)

lemma keeps_if: "keeps R m \<Longrightarrow> keeps R n \<Longrightarrow> keeps R (if b then m else n)"
  by simp

lemmas keeps_intros = keeps_ret keeps_bindE keeps_wrapE keeps_foreach keeps_if

end

text \<open>
  The same with a relation of its own for each exit: \<open>R\<close> when the computation returns a value,
  \<open>E\<close> when it fails. What fails late has first succeeded in part.
\<close>

definition exits :: "('s \<Rightarrow> 's \<Rightarrow> bool) \<Rightarrow> ('s \<Rightarrow> 's \<Rightarrow> bool) \<Rightarrow> ('s, 'a) act \<Rightarrow> bool" where
  "exits R E m \<longleftrightarrow> (\<forall>s. (case fst (m s) of Inl _ \<Rightarrow> E | Inr _ \<Rightarrow> R) s (snd (m s)))"

locale exit_frame = state_frame R
  for R :: "'s \<Rightarrow> 's \<Rightarrow> bool" +
  fixes E :: "'s \<Rightarrow> 's \<Rightarrow> bool"
  assumes R_E: "R s t \<Longrightarrow> E t u \<Longrightarrow> E s u"
begin

lemma exits_ret: "exits R E (ret x)"
  by (simp add: exits_def R_refl)

lemma exits_wrapE: "exits Q E m \<Longrightarrow> exits Q E (wrapE p m)"
proof -
  have "(case fst (wrapE p m s) of Inl _ \<Rightarrow> E | Inr _ \<Rightarrow> Q) = (case fst (m s) of Inl _ \<Rightarrow> E | Inr _ \<Rightarrow> Q)" for s
    by (simp add: wrapE_def split: prod.split sum.split)
  then show "exits Q E m \<Longrightarrow> exits Q E (wrapE p m)" by (simp add: exits_def)
qed

text \<open>The rest may end in another relation that \<open>R\<close> can be put before.\<close>

lemma exits_then:
  assumes "exits R E m" and "\<And>x. exits Q E (f x)" and "\<And>s t u. R s t \<Longrightarrow> Q t u \<Longrightarrow> Q s u"
  shows "exits Q E (bindE m f)"
  unfolding exits_def
proof
  fix s
  obtain r t where m: "m s = (r, t)" by fastforce
  show "(case fst (bindE m f s) of Inl _ \<Rightarrow> E | Inr _ \<Rightarrow> Q) s (snd (bindE m f s))"
  proof (cases r)
    case (Inl e)
    with assms(1) m show ?thesis by (auto simp: exits_def bindE_def dest: spec [of _ s])
  next
    case (Inr x)
    have "R s t" using assms(1) m Inr by (auto simp: exits_def dest: spec [of _ s])
    moreover have "(case fst (f x t) of Inl _ \<Rightarrow> E | Inr _ \<Rightarrow> Q) t (snd (f x t))" using assms(2) by (simp add: exits_def)
    ultimately show ?thesis using m Inr assms(3) R_E by (auto simp: bindE_def split: sum.splits)
  qed
qed

lemma exits_bindE: "exits R E m \<Longrightarrow> (\<And>x. exits R E (f x)) \<Longrightarrow> exits R E (bindE m f)"
  using exits_then R_trans by blast

lemma exits_foreach: "(\<And>x. x \<in> set xs \<Longrightarrow> exits R E (f x)) \<Longrightarrow> exits R E (foreach f xs)"
  by (induction xs) (auto intro: exits_ret exits_bindE)

end

section \<open>Lists\<close>

lemma takeWhile_first [simp]: "c \<notin> set xs \<Longrightarrow> takeWhile (\<lambda>x. x \<noteq> c) (xs @ c # ys) = xs"
  by (induction xs) auto

lemma dropWhile_first [simp]: "c \<notin> set xs \<Longrightarrow> dropWhile (\<lambda>x. x \<noteq> c) (xs @ c # ys) = c # ys"
  by (induction xs) auto

section \<open>Ordering, limits and ranking\<close>

text \<open>
  \<open>ORDER BY\<close> as a stable insertion sort over a comparison \<open>le\<close>, and
  \<open>row_number() OVER (PARTITION BY key ORDER BY le) = 1\<close> (also
  \<open>SELECT DISTINCT ON (key)\<close>) as the first row of each key in that order.
\<close>

fun insert_by :: "('a \<Rightarrow> 'a \<Rightarrow> bool) \<Rightarrow> 'a \<Rightarrow> 'a list \<Rightarrow> 'a list" where
  "insert_by le x [] = [x]"
| "insert_by le x (y # ys) = (if le x y then x # y # ys else y # insert_by le x ys)"

definition order_by :: "('a \<Rightarrow> 'a \<Rightarrow> bool) \<Rightarrow> 'a list \<Rightarrow> 'a list" where
  "order_by le xs = foldr (insert_by le) xs []"

fun first_per_key :: "('a \<Rightarrow> 'k) \<Rightarrow> 'a list \<Rightarrow> 'a list" where
  "first_per_key key [] = []"
| "first_per_key key (x # xs) = x # first_per_key key (filter (\<lambda>y. key y \<noteq> key x) xs)"

definition rank1 :: "('a \<Rightarrow> 'k) \<Rightarrow> ('a \<Rightarrow> 'a \<Rightarrow> bool) \<Rightarrow> 'a list \<Rightarrow> 'a list" where
  "rank1 key le xs = first_per_key key (order_by le xs)"

lemma mset_insert_by [simp]: "mset (insert_by le x xs) = add_mset x (mset xs)"
  by (induction xs) auto

lemma mset_order_by [simp]: "mset (order_by le xs) = mset xs"
  by (induction xs) (auto simp: order_by_def)

lemma set_order_by [simp]: "set (order_by le xs) = set xs"
  by (metis mset_order_by set_mset_mset)

lemma length_order_by [simp]: "length (order_by le xs) = length xs"
  by (metis mset_order_by size_mset)

lemma set_insert_by [simp]: "set (insert_by le x xs) = insert x (set xs)"
  by (induction xs) auto

text \<open>The laws a comparison of rows must meet: a total preorder.\<close>

locale row_order =
  fixes le :: "'a \<Rightarrow> 'a \<Rightarrow> bool"
  assumes le_total: "le x y \<or> le y x"
    and le_trans: "le x y \<Longrightarrow> le y z \<Longrightarrow> le x z"
begin

lemma le_refl: "le x x"
  using le_total by blast

lemma sorted_insert_by: "sorted_wrt le xs \<Longrightarrow> sorted_wrt le (insert_by le x xs)"
proof (induction xs)
  case Nil
  then show ?case by simp
next
  case (Cons y ys)
  then show ?case by (auto intro: le_trans dest: le_total [of x y, THEN disjE])
       (metis le_total)
qed

lemma sorted_order_by: "sorted_wrt le (order_by le xs)"
  by (induction xs) (auto simp: order_by_def sorted_insert_by)

lemma first_per_key_least:
  "sorted_wrt le xs \<Longrightarrow> x \<in> set (first_per_key key xs) \<Longrightarrow> y \<in> set xs \<Longrightarrow> key y = key x \<Longrightarrow> le x y"
proof (induction key xs rule: first_per_key.induct)
  case (1 key)
  then show ?case by simp
next
  case (2 key z zs)
  show ?case
  proof (cases "x = z")
    case True
    with 2 show ?thesis by (auto simp: le_refl)
  next
    case False
    with "2.prems" have x: "x \<in> set (first_per_key key (filter (\<lambda>y. key y \<noteq> key z) zs))"
      by simp
    have "set (first_per_key k ws) \<subseteq> set ws" for k and ws :: "'a list"
      by (induction k ws rule: first_per_key.induct) auto
    with x have "key x \<noteq> key z" by fastforce
    with "2.prems" have "y \<in> set (filter (\<lambda>y. key y \<noteq> key z) zs)" by auto
    with 2 x show ?thesis by (simp add: sorted_wrt_filter)
  qed
qed

lemma rank1_least:
  "x \<in> set (rank1 key le xs) \<Longrightarrow> y \<in> set xs \<Longrightarrow> key y = key x \<Longrightarrow> le x y"
  unfolding rank1_def by (rule first_per_key_least [OF sorted_order_by, where key = key]) simp_all

lemma rank1_unique_least:
  assumes "x \<in> set xs" and "\<And>y. y \<in> set xs \<Longrightarrow> key y = key x \<Longrightarrow> y \<noteq> x \<Longrightarrow> \<not> le y x"
    and "z \<in> set (rank1 key le xs)" and "key z = key x" and "z \<in> set xs"
  shows "z = x"
  using assms rank1_least [of z key xs x] by metis

end

lemma first_per_key_subset: "set (first_per_key key xs) \<subseteq> set xs"
  by (induction key xs rule: first_per_key.induct) auto

lemma first_per_key_keys: "key ` set (first_per_key key xs) = key ` set xs"
proof (induction key xs rule: first_per_key.induct)
  case (1 key)
  then show ?case by simp
next
  case (2 key x xs)
  have "key ` set (first_per_key key (x # xs)) =
      insert (key x) (key ` {y \<in> set xs. key y \<noteq> key x})"
    using 2 by simp
  also have "\<dots> = key ` set (x # xs)" by auto
  finally show ?case .
qed

lemma distinct_first_per_key: "distinct (map key (first_per_key key xs))"
proof (induction key xs rule: first_per_key.induct)
  case (1 key)
  then show ?case by simp
next
  case (2 key x xs)
  have "key x \<notin> key ` set (first_per_key key (filter (\<lambda>y. key y \<noteq> key x) xs))"
    using first_per_key_subset [of key "filter (\<lambda>y. key y \<noteq> key x) xs"] by auto
  with 2 show ?case by simp
qed

lemma rank1_subset: "set (rank1 key le xs) \<subseteq> set xs"
  using first_per_key_subset [of key "order_by le xs"] by (simp add: rank1_def)

lemma rank1_keys: "key ` set (rank1 key le xs) = key ` set xs"
  by (simp add: rank1_def first_per_key_keys)

lemma distinct_rank1: "distinct (map key (rank1 key le xs))"
  by (simp add: rank1_def distinct_first_per_key)

lemma rank1_exists: "x \<in> set xs \<Longrightarrow> \<exists>y \<in> set (rank1 key le xs). key y = key x"
  by (metis imageE imageI rank1_keys)

text \<open>\<open>LIMIT n\<close> of an ordered selection leaves nothing behind when fewer than \<open>n\<close> matched.\<close>

lemma set_take_order_by: "set (take n (order_by le xs)) \<subseteq> set xs"
  by (metis set_order_by set_take_subset)

lemma take_order_by_all: "length xs \<le> n \<Longrightarrow> set (take n (order_by le xs)) = set xs"
  by simp

lemma distinct_order_by: "distinct (order_by le xs) = distinct xs"
  by (metis mset_eq_imp_distinct_iff mset_order_by)

lemma length_filter_remove:
  assumes "distinct ids" and "set ids \<subseteq> key ` set xs" and "distinct (map key xs)"
  shows "length (filter (\<lambda>x. key x \<in> set ids) xs) = length ids"
proof -
  let ?ys = "filter (\<lambda>x. key x \<in> set ids) xs"
  have "distinct (map key ?ys)" using assms(3) by (simp add: distinct_map_filter)
  moreover have "set (map key ?ys) = set ids" using assms(2) by auto
  ultimately have "length (map key ?ys) = length ids"
    using assms(1) by (metis distinct_card)
  then show ?thesis by simp
qed

end
