(* ===== verification/Go_Strings.thy ===== *)
theory Go_Strings
  imports Prelude
begin

text \<open>
  The functions of Go's packages strings, strconv and net that the program calls, on byte
  strings: \<open>strings.TrimSpace\<close>, \<open>Trim\<close>, \<open>Cut\<close>, \<open>HasPrefix\<close>, \<open>ReplaceAll\<close>,
  \<open>strconv.Itoa\<close>, \<open>strconv.Quote\<close>, \<open>net.SplitHostPort\<close> and \<open>net.JoinHostPort\<close>.
  The last two are proved inverse to each other on exactly the hosts and ports that
  \<open>SplitHostPort\<close> can return.
\<close>

section \<open>Package strings\<close>

text \<open>
  The encodings of the code points of \<open>unicode.IsSpace\<close>: six ASCII bytes, then U+0085,
  U+00A0, U+1680, U+2000 to U+200A, U+2028, U+2029, U+202F, U+205F and U+3000 in UTF-8.
\<close>

definition space_encodings :: "string list" where
  "space_encodings =
     map (\<lambda>c. [c]) [CHR 0x09, CHR 0x0A, CHR 0x0B, CHR 0x0C, CHR 0x0D, CHR 0x20] @
     [[CHR 0xC2, CHR 0x85], [CHR 0xC2, CHR 0xA0], [CHR 0xE1, CHR 0x9A, CHR 0x80]] @
     map (\<lambda>c. [CHR 0xE2, CHR 0x80, c])
       [CHR 0x80, CHR 0x81, CHR 0x82, CHR 0x83, CHR 0x84, CHR 0x85, CHR 0x86, CHR 0x87,
        CHR 0x88, CHR 0x89, CHR 0x8A, CHR 0xA8, CHR 0xA9, CHR 0xAF] @
     [[CHR 0xE2, CHR 0x81, CHR 0x9F], [CHR 0xE3, CHR 0x80, CHR 0x80]]"

fun strip_one :: "string list \<Rightarrow> string \<Rightarrow> string option" where
  "strip_one [] s = None"
| "strip_one (p # ps) s =
     (if p \<noteq> [] \<and> take (length p) s = p then Some (drop (length p) s) else strip_one ps s)"

lemma strip_one_shorter: "strip_one ps s = Some r \<Longrightarrow> length r < length s"
  by (induction ps) (auto split: if_splits, metis append_take_drop_id length_drop
      length_greater_0_conv less_diff_conv2 list.size(3) nat_add_left_cancel_less
      add.right_neutral diff_less length_0_conv linorder_not_less take_eq_Nil2 take_all_iff)

function strip_all :: "string list \<Rightarrow> string \<Rightarrow> string" where
  "strip_all ps s = (case strip_one ps s of None \<Rightarrow> s | Some r \<Rightarrow> strip_all ps r)"
  by pat_completeness auto
termination
  by (relation "measure (\<lambda>(ps, s). length s)") (auto dest: strip_one_shorter)

declare strip_all.simps [simp del]

definition TrimSpace :: "string \<Rightarrow> string" where
  "TrimSpace s = rev (strip_all (map rev space_encodings) (rev (strip_all space_encodings s)))"

definition trim_set :: "char set \<Rightarrow> string \<Rightarrow> string" where
  "trim_set cs s = rev (dropWhile (\<lambda>c. c \<in> cs) (rev (dropWhile (\<lambda>c. c \<in> cs) s)))"

definition str_cut :: "char \<Rightarrow> string \<Rightarrow> string \<times> string \<times> bool" where
  "str_cut c s =
     (if c \<in> set s
      then (takeWhile (\<lambda>x. x \<noteq> c) s, tl (dropWhile (\<lambda>x. x \<noteq> c) s), True)
      else (s, [], False))"

definition has_prefix :: "string \<Rightarrow> string \<Rightarrow> bool" where
  "has_prefix s p \<longleftrightarrow> take (length p) s = p"

fun str_contains :: "string \<Rightarrow> string \<Rightarrow> bool" where
  "str_contains [] p = (p = [])"
| "str_contains (c # s) p = (has_prefix (c # s) p \<or> str_contains s p)"

text \<open>\<open>strings.ReplaceAll\<close> of a two-byte pattern by one byte, left to right.\<close>

fun replace_pair :: "char \<Rightarrow> char \<Rightarrow> char \<Rightarrow> string \<Rightarrow> string" where
  "replace_pair a b c (x # y # s) =
     (if x = a \<and> y = b then c # replace_pair a b c s else x # replace_pair a b c (y # s))"
| "replace_pair a b c s = s"

lemma strip_one_idem: "strip_one ps (strip_all ps s) = None"
proof (induction ps s rule: strip_all.induct)
  case (1 ps s)
  then show ?case
    by (cases "strip_one ps s") (simp_all add: strip_all.simps [of ps s])
qed

lemma strip_all_suffix: "\<exists>p. s = p @ strip_all ps s"
proof (induction ps s rule: strip_all.induct)
  case (1 ps s)
  have drops: "\<exists>p. s = p @ r" if "strip_one ps s = Some r" for r
    using that by (induction ps) (auto split: if_splits, metis append_take_drop_id)
  show ?case
  proof (cases "strip_one ps s")
    case None
    then show ?thesis by (simp add: strip_all.simps [of ps s])
  next
    case (Some r)
    with "1" obtain q where "r = q @ strip_all ps r" by blast
    moreover obtain p where "s = p @ r" using drops [OF Some] by blast
    ultimately show ?thesis
      using Some by (metis append.assoc option.simps(5) strip_all.simps)
  qed
qed

lemma str_cut_eq:
  "c \<notin> set xs \<Longrightarrow> str_cut c (xs @ c # ys) = (xs, ys, True)"
  by (simp add: str_cut_def)

lemma str_cut_True: "str_cut c s = (b, a, True) \<Longrightarrow> s = b @ c # a \<and> c \<notin> set b"
proof -
  assume eq: "str_cut c s = (b, a, True)"
  then have "c \<in> set s" by (auto simp: str_cut_def split: if_splits)
  then obtain xs ys where "s = xs @ c # ys" and "c \<notin> set xs" by (meson split_list_first)
  with eq str_cut_eq [of c xs ys] show ?thesis by simp
qed

lemma str_cut_False: "str_cut c s = (b, a, False) \<longleftrightarrow> c \<notin> set s \<and> b = s \<and> a = []"
  by (auto simp: str_cut_def)

text \<open>Text that starts and ends with a visible ASCII character has nothing to trim.\<close>

definition visible :: "char \<Rightarrow> bool" where
  "visible c \<longleftrightarrow> 0x21 \<le> (of_char c :: nat) \<and> (of_char c :: nat) \<le> 0x7E"

definition tidy :: "string \<Rightarrow> bool" where
  "tidy s \<longleftrightarrow> s \<noteq> [] \<and> visible (hd s) \<and> visible (last s)"

lemma strip_one_visible:
  assumes "\<forall>p \<in> set ps. p \<noteq> [] \<and> \<not> visible (hd p)" and "s \<noteq> []" and "visible (hd s)"
  shows "strip_one ps s = None"
  using assms(1)
proof (induction ps)
  case (Cons p ps)
  obtain c s' where s: "s = c # s'" using assms(2) by (cases s) auto
  have "take (length p) s \<noteq> p"
  proof
    assume "take (length p) s = p"
    then have "hd p = c" using Cons.prems s by (cases p) auto
    then show False using Cons.prems assms(3) s by simp
  qed
  with Cons show ?case by simp
qed simp

lemma spaces_invisible: "\<forall>p \<in> set space_encodings. p \<noteq> [] \<and> \<not> visible (hd p) \<and> \<not> visible (last p)"
  by (simp add: space_encodings_def visible_def)

lemma TrimSpace_tidy:
  assumes "tidy s"
  shows "TrimSpace s = s"
proof -
  have s: "s \<noteq> []" "visible (hd s)" "visible (last s)" using assms by (simp_all add: tidy_def)
  have 1: "strip_one space_encodings s = None"
    by (rule strip_one_visible) (use s spaces_invisible in auto)
  have 2: "strip_one (map rev space_encodings) (rev s) = None"
    by (rule strip_one_visible) (use s spaces_invisible in \<open>auto simp: hd_rev\<close>)
  from 1 2 show ?thesis by (simp add: TrimSpace_def strip_all.simps)
qed

lemma set_TrimSpace: "set (TrimSpace s) \<subseteq> set s"
proof -
  have sub: "set (strip_all ps t) \<subseteq> set t" for ps t
    using strip_all_suffix [of t ps] by (metis Un_iff set_append subsetI)
  have "set (strip_all ps (rev (strip_all qs s))) \<subseteq> set s" for ps qs
    using sub [of ps "rev (strip_all qs s)"] sub [of qs s] by auto
  then show ?thesis by (simp add: TrimSpace_def)
qed

section \<open>Package strconv\<close>

definition dec_digits :: string where
  "dec_digits = ''0123456789''"

definition digit :: "nat \<Rightarrow> char" where
  "digit n = dec_digits ! n"

fun nat_digits :: "nat \<Rightarrow> string" where
  "nat_digits n = (if n < 10 then [digit n] else nat_digits (n div 10) @ [digit (n mod 10)])"

declare nat_digits.simps [simp del]

definition Itoa :: "int \<Rightarrow> string" where
  "Itoa i = (if i < 0 then CHR ''-'' # nat_digits (nat (- i)) else nat_digits (nat i))"

definition FormatBool :: "bool \<Rightarrow> string" where
  "FormatBool b = (if b then ''true'' else ''false'')"

lemma digit_in: "n < 10 \<Longrightarrow> digit n \<in> set dec_digits"
  unfolding digit_def by (rule nth_mem) (simp add: dec_digits_def)

lemma nat_digits_set: "set (nat_digits n) \<subseteq> set dec_digits"
proof (induction n rule: nat_digits.induct)
  case (1 n)
  have "digit (n mod 10) \<in> set dec_digits" by (rule digit_in) simp
  with 1 digit_in [of n] show ?case
    by (subst nat_digits.simps) simp
qed

lemma nat_digits_nonempty: "nat_digits n \<noteq> []"
  by (subst nat_digits.simps) simp

lemma Itoa_set: "set (Itoa i) \<subseteq> insert (CHR ''-'') (set dec_digits)"
  using nat_digits_set by (auto simp: Itoa_def)

lemma Itoa_plain:
  "CHR '':'' \<notin> set (Itoa i)" "CHR ''['' \<notin> set (Itoa i)" "CHR '']'' \<notin> set (Itoa i)"
  using Itoa_set [of i] by (auto simp: dec_digits_def)

text \<open>
  \<open>%q\<close> on ASCII text: quotes and backslashes escaped, control bytes by their short or
  hexadecimal escapes.
\<close>

definition hex_digit :: "nat \<Rightarrow> char" where
  "hex_digit n = (''0123456789abcdef'' ! (n mod 16))"

definition quote_char :: "char \<Rightarrow> string" where
  "quote_char c =
     (if c = CHR 0x22 then [CHR 0x5C, CHR 0x22]
      else if c = CHR 0x5C then [CHR 0x5C, CHR 0x5C]
      else if c = CHR 0x07 then [CHR 0x5C, CHR ''a'']
      else if c = CHR 0x08 then [CHR 0x5C, CHR ''b'']
      else if c = CHR 0x0C then [CHR 0x5C, CHR ''f'']
      else if c = CHR 0x0A then [CHR 0x5C, CHR ''n'']
      else if c = CHR 0x0D then [CHR 0x5C, CHR ''r'']
      else if c = CHR 0x09 then [CHR 0x5C, CHR ''t'']
      else if c = CHR 0x0B then [CHR 0x5C, CHR ''v'']
      else let n = (of_char c :: nat) in
        if n < 32 \<or> n \<ge> 127
        then [CHR 0x5C, CHR ''x'', hex_digit (n div 16), hex_digit n]
        else [c])"

definition Quote :: "string \<Rightarrow> string" where
  "Quote s = CHR 0x22 # concat (map quote_char s) @ [CHR 0x22]"

section \<open>Package net: host and port\<close>

definition index_byte :: "char \<Rightarrow> string \<Rightarrow> nat option" where
  "index_byte c s = (if c \<in> set s then Some (length (takeWhile (\<lambda>x. x \<noteq> c) s)) else None)"

definition last_index_byte :: "char \<Rightarrow> string \<Rightarrow> nat option" where
  "last_index_byte c s =
     (if c \<in> set s then Some (length s - 1 - length (takeWhile (\<lambda>x. x \<noteq> c) (rev s))) else None)"

text \<open>\<open>net.AddrError\<close> with its message.\<close>

definition addr_error :: "string \<Rightarrow> string \<Rightarrow> go_error" where
  "addr_error addr why = Err (if addr = [] then why else ''address '' @ addr @ '': '' @ why)"

definition split_checked :: "string \<Rightarrow> string \<Rightarrow> nat \<Rightarrow> nat \<Rightarrow> nat \<Rightarrow> (string \<times> string) result" where
  "split_checked s host j k i =
     (if CHR ''['' \<in> set (drop j s) then Inl (addr_error s ''unexpected '[' in address'')
      else if CHR '']'' \<in> set (drop k s) then Inl (addr_error s ''unexpected ']' in address'')
      else Inr (host, drop (i + 1) s))"

definition SplitHostPort :: "string \<Rightarrow> (string \<times> string) result" where
  "SplitHostPort s = (case last_index_byte (CHR '':'') s of
     None \<Rightarrow> Inl (addr_error s ''missing port in address'')
   | Some i \<Rightarrow>
      (if s ! 0 = CHR ''['' then
         (case index_byte (CHR '']'') s of
            None \<Rightarrow> Inl (addr_error s ''missing ']' in address'')
          | Some e \<Rightarrow>
             (if e + 1 = length s then Inl (addr_error s ''missing port in address'')
              else if e + 1 = i then split_checked s (take (e - 1) (drop 1 s)) 1 (e + 1) i
              else if s ! (e + 1) = CHR '':'' then Inl (addr_error s ''too many colons in address'')
              else Inl (addr_error s ''missing port in address'')))
       else
         (let host = take i s in
          if CHR '':'' \<in> set host then Inl (addr_error s ''too many colons in address'')
          else split_checked s host 0 0 i)))"

definition JoinHostPort :: "string \<Rightarrow> string \<Rightarrow> string" where
  "JoinHostPort host port =
     (if CHR '':'' \<in> set host then ''['' @ host @ '']:'' @ port else host @ '':'' @ port)"

lemma index_byte_first: "c \<notin> set xs \<Longrightarrow> index_byte c (xs @ c # ys) = Some (length xs)"
  by (simp add: index_byte_def)

lemma last_index_byte_last:
  "c \<notin> set ys \<Longrightarrow> last_index_byte c (xs @ c # ys) = Some (length xs)"
  by (simp add: last_index_byte_def)

text \<open>The strings a host and a port can be, once \<open>SplitHostPort\<close> has accepted them.\<close>

definition plain_host :: "string \<Rightarrow> bool" where
  "plain_host h \<longleftrightarrow> CHR ''['' \<notin> set h \<and> CHR '']'' \<notin> set h"

definition plain_port :: "string \<Rightarrow> bool" where
  "plain_port p \<longleftrightarrow> CHR '':'' \<notin> set p \<and> CHR ''['' \<notin> set p \<and> CHR '']'' \<notin> set p"

lemma plain_port_Itoa: "plain_port (Itoa i)"
  using Itoa_plain by (simp add: plain_port_def)

lemma Split_Join:
  assumes h: "plain_host h" and p: "plain_port p"
  shows "SplitHostPort (JoinHostPort h p) = Inr (h, p)"
proof (cases "CHR '':'' \<in> set h")
  case True
  let ?s = "''['' @ h @ '']:'' @ p"
  have i: "last_index_byte (CHR '':'') ?s = Some (length h + 2)"
    using p last_index_byte_last [of "CHR '':''" p "''['' @ h @ '']''"]
    by (simp add: plain_port_def)
  have e: "index_byte (CHR '']'') ?s = Some (length h + 1)"
    using h index_byte_first [of "CHR '']''" "''['' @ h" "'':'' @ p"]
    by (simp add: plain_host_def)
  have "split_checked ?s h 1 (length h + 2) (length h + 2) = Inr (h, p)"
    using h p by (simp add: split_checked_def plain_host_def plain_port_def)
  then show ?thesis
    using True i e by (simp add: JoinHostPort_def SplitHostPort_def)
next
  case False
  let ?s = "h @ '':'' @ p"
  have i: "last_index_byte (CHR '':'') ?s = Some (length h)"
    using p last_index_byte_last [of "CHR '':''" p h] by (simp add: plain_port_def)
  have "?s ! 0 \<noteq> CHR ''[''"
    using h by (cases h) (auto simp: plain_host_def)
  moreover have "split_checked ?s h 0 0 (length h) = Inr (h, p)"
    using h p by (auto simp: split_checked_def plain_host_def plain_port_def)
  ultimately show ?thesis
    using False i by (simp add: JoinHostPort_def SplitHostPort_def Let_def)
qed

lemma last_index_byte_Some:
  assumes "last_index_byte c s = Some i"
  obtains xs ys where "s = xs @ c # ys" and "c \<notin> set ys" and "i = length xs"
proof -
  from assms have "c \<in> set s" by (auto simp: last_index_byte_def split: if_splits)
  then obtain xs ys where "s = xs @ c # ys" and "c \<notin> set ys" by (meson split_list_last)
  with assms last_index_byte_last [of c ys xs] that show thesis by simp
qed

lemma index_byte_Some:
  assumes "index_byte c s = Some i"
  obtains xs ys where "s = xs @ c # ys" and "c \<notin> set xs" and "i = length xs"
proof -
  from assms have "c \<in> set s" by (auto simp: index_byte_def split: if_splits)
  then obtain xs ys where "s = xs @ c # ys" and "c \<notin> set xs" by (meson split_list_first)
  with assms index_byte_first [of c xs ys] that show thesis by simp
qed

text \<open>Accepted addresses are those that \<open>JoinHostPort\<close> writes, or \<open>[host]:port\<close>.\<close>

lemma Split_sound:
  assumes "SplitHostPort s = Inr (h, p)"
  shows "plain_host h \<and> plain_port p \<and> (s = h @ '':'' @ p \<or> s = ''['' @ h @ '']:'' @ p)"
proof -
  obtain i where i: "last_index_byte (CHR '':'') s = Some i"
    using assms by (auto simp: SplitHostPort_def split: option.splits)
  then obtain xs ys where s: "s = xs @ CHR '':'' # ys" and ys: "CHR '':'' \<notin> set ys"
    and ixs: "i = length xs" by (rule last_index_byte_Some)
  show ?thesis
  proof (cases "s ! 0 = CHR ''[''")
    case True
    from assms i True obtain e where e: "index_byte (CHR '']'') s = Some e" and ei: "e + 1 = i"
      and chk: "split_checked s (take (e - 1) (drop 1 s)) 1 (e + 1) i = Inr (h, p)"
      by (auto simp: SplitHostPort_def split: option.splits if_splits)
    from e obtain us vs where us: "s = us @ CHR '']'' # vs" "CHR '']'' \<notin> set us" "e = length us"
      by (rule index_byte_Some)
    from us(1,3) s ixs ei have xs: "xs = us @ '']''"
      by (metis (no_types, lifting) Suc_eq_plus1 append_Cons append_Nil append_eq_append_conv
          append_eq_conv_conj length_append_singleton append.assoc)
    have "us \<noteq> []" using True us(1) by (cases us) auto
    then obtain h' where h': "us = CHR ''['' # h'" using True us(1) by (cases us) auto
    have s': "s = ''['' @ h' @ '']:'' @ ys" using s xs h' by simp
    have hp: "h = h'" "p = ys"
      using chk us(3) h' ixs xs by (auto simp: split_checked_def s' split: if_splits)
    moreover have "plain_host h'" "plain_port ys"
      using chk us(2,3) h' ys by (auto simp: split_checked_def s' plain_host_def plain_port_def split: if_splits)
    ultimately show ?thesis using s' by simp
  next
    case False
    with assms i have chk: "split_checked s (take i s) 0 0 i = Inr (h, p)"
      by (auto simp: SplitHostPort_def Let_def split: option.splits if_splits)
    then have "h = xs" "p = ys" and "plain_host xs" "plain_port ys"
      using ys by (auto simp: split_checked_def s ixs plain_host_def plain_port_def split: if_splits)
    then show ?thesis using s by simp
  qed
qed

lemma trim_set_id: "set s \<inter> cs = {} \<Longrightarrow> trim_set cs s = s"
proof -
  assume a: "set s \<inter> cs = {}"
  have "dropWhile (\<lambda>c. c \<in> cs) t = t" if "set t \<inter> cs = {}" for t
    using that by (cases t) auto
  with a show ?thesis by (simp add: trim_set_def)
qed

lemma trim_brackets_id: "plain_host h \<Longrightarrow> trim_set {CHR ''['', CHR '']''} h = h"
  by (rule trim_set_id) (auto simp: plain_host_def)

text \<open>Distinct plain hosts give distinct targets under one port.\<close>

lemma Join_inj:
  "plain_host h \<Longrightarrow> plain_host h' \<Longrightarrow> plain_port p \<Longrightarrow> plain_port p' \<Longrightarrow>
   JoinHostPort h p = JoinHostPort h' p' \<Longrightarrow> h = h' \<and> p = p'"
  by (metis Split_Join Inr_inject Pair_inject)

end
