(* ===== verification/Data_Model.thy ===== *)
theory Data_Model
  imports Go_Strings
begin

text \<open>
  The data of package \<open>internal/model\<close>, one record per struct with the struct's fields in
  order, and its methods. A \<open>*Certificate\<close> is an option; a \<open>[]string\<close> or \<open>[]byte\<close>
  field keeps the difference between nil and empty (type \<open>slice\<close>); a Go map is an
  association list with distinct keys, in the order one \<open>range\<close> over it visits them.
\<close>

record Lighthouse =
  lh_name :: string
  lh_user :: string
  lh_address :: string

definition lh_target :: "Lighthouse \<Rightarrow> string" where
  "lh_target l = lh_user l @ ''@'' @ lh_address l"

record PresentPeer =
  pp_lighthouse :: string
  pp_key :: string
  pp_primary :: string
  pp_vpn_addrs :: "string slice"
  pp_cert_name :: string
  pp_fingerprint :: string
  pp_groups :: "string slice"
  pp_version :: string

record CommandResult =
  cr_command :: string
  cr_started :: gotime
  cr_finished :: gotime
  cr_output :: string
  cr_err :: "go_error option"

definition cr_duration :: "CommandResult \<Rightarrow> i64" where
  "cr_duration r = time_sub (cr_finished r) (cr_started r)"

definition cr_success :: "CommandResult \<Rightarrow> bool" where
  "cr_success r \<longleftrightarrow> cr_err r = None"

record DeviceInfo =
  di_name :: string
  di_cidr :: "string slice"

record CertificateDetails =
  cd_groups :: "string slice"
  cd_is_ca :: bool
  cd_issuer :: string
  cd_name :: string
  cd_networks :: "string slice"
  cd_not_after :: gotime
  cd_not_before :: gotime
  cd_unsafe_networks :: "string slice"

record Certificate =
  ce_curve :: string
  ce_details :: CertificateDetails
  ce_fingerprint :: string
  ce_public_key :: string
  ce_signature :: string
  ce_version :: i32

record HostmapEntry =
  he_vpn_addrs :: "string slice"
  he_local_index :: u32
  he_remote_index :: u32
  he_remote_addrs :: "string slice"
  he_cert :: "Certificate option"
  he_message_counter :: u64
  he_current_remote :: string
  he_relays_to_me :: "string slice"
  he_relays_through_me :: "string slice"
  he_raw :: "char slice"

definition PrimaryVPNAddr :: "HostmapEntry \<Rightarrow> string" where
  "PrimaryVPNAddr e = (if go_len (he_vpn_addrs e) = 0 then [] else elems (he_vpn_addrs e) ! 0)"

record LighthouseAddrEntry =
  ae_learned :: "string slice"
  ae_reported :: "string slice"
  ae_relay :: "string slice"

record LighthouseAddrmapEntry =
  am_vpn_addr :: string
  am_addrs :: "(string \<times> LighthouseAddrEntry) list"
  am_raw :: "char slice"

record PollResult =
  pr_lighthouse :: Lighthouse
  pr_started :: gotime
  pr_finished :: gotime
  pr_commands :: "CommandResult list"
  pr_nebula_version :: string
  pr_device :: DeviceInfo
  pr_hostmap :: "HostmapEntry slice"
  pr_pending :: "HostmapEntry slice"
  pr_addrmap :: "LighthouseAddrmapEntry slice"
  pr_relays :: "char slice"
  pr_err :: "go_error option"

definition pr_duration :: "PollResult \<Rightarrow> i64" where
  "pr_duration r = time_sub (pr_finished r) (pr_started r)"

definition pr_success :: "PollResult \<Rightarrow> bool" where
  "pr_success r \<longleftrightarrow> pr_err r = None"

section \<open>Zero values\<close>

definition zero_device :: DeviceInfo where
  "zero_device = \<lparr>di_name = [], di_cidr = None\<rparr>"

definition zero_details :: CertificateDetails where
  "zero_details = \<lparr>cd_groups = None, cd_is_ca = False, cd_issuer = [], cd_name = [],
     cd_networks = None, cd_not_after = zero_time, cd_not_before = zero_time,
     cd_unsafe_networks = None\<rparr>"

definition zero_certificate :: Certificate where
  "zero_certificate = \<lparr>ce_curve = [], ce_details = zero_details, ce_fingerprint = [],
     ce_public_key = [], ce_signature = [], ce_version = 0\<rparr>"

definition zero_hostmap_entry :: HostmapEntry where
  "zero_hostmap_entry = \<lparr>he_vpn_addrs = None, he_local_index = 0, he_remote_index = 0,
     he_remote_addrs = None, he_cert = None, he_message_counter = 0, he_current_remote = [],
     he_relays_to_me = None, he_relays_through_me = None, he_raw = None\<rparr>"

definition zero_addr_entry :: LighthouseAddrEntry where
  "zero_addr_entry = \<lparr>ae_learned = None, ae_reported = None, ae_relay = None\<rparr>"

definition zero_addrmap_entry :: LighthouseAddrmapEntry where
  "zero_addrmap_entry = \<lparr>am_vpn_addr = [], am_addrs = [], am_raw = None\<rparr>"

definition zero_poll_result :: PollResult where
  "zero_poll_result = \<lparr>pr_lighthouse = \<lparr>lh_name = [], lh_user = [], lh_address = []\<rparr>,
     pr_started = zero_time, pr_finished = zero_time, pr_commands = [], pr_nebula_version = [],
     pr_device = zero_device, pr_hostmap = None, pr_pending = None, pr_addrmap = None,
     pr_relays = None, pr_err = None\<rparr>"

lemmas zero_defs = zero_device_def zero_details_def zero_certificate_def
  zero_hostmap_entry_def zero_addr_entry_def zero_addrmap_entry_def zero_poll_result_def

end
