(* ===== verification/Config.thy ===== *)
theory Config
  imports Data_Model Complex_Main
begin

text \<open>
  Package \<open>internal/config\<close>: the command line record, the validations of \<open>Parse\<close> in
  the order of the code, and the reading of lighthouse targets. The option parser itself
  (kong) is third-party code and a parameter of \<open>Parse\<close>: its result, the filled CLI record
  or an error. A \<open>float64\<close> is a rational or one of the three special values.
\<close>

datatype gofloat = Fin rat | NaN | PosInf | NegInf

text \<open>\<open>x < c\<close> and \<open>x > c\<close> for a finite constant; every comparison with NaN is false.\<close>

fun float_lt_c :: "gofloat \<Rightarrow> rat \<Rightarrow> bool" where
  "float_lt_c (Fin x) c = (x < c)"
| "float_lt_c NegInf c = True"
| "float_lt_c _ c = False"

fun float_gt_c :: "gofloat \<Rightarrow> rat \<Rightarrow> bool" where
  "float_gt_c (Fin x) c = (c < x)"
| "float_gt_c PosInf c = True"
| "float_gt_c _ c = False"

record SSHConfig =
  ssh_key_file :: string
  ssh_private_key :: string
  ssh_key_passphrase :: string
  ssh_known_hosts_path :: string
  ssh_host_key_mode :: string
  ssh_timeout :: i64

record HTTPConfig =
  http_enabled :: bool
  http_address :: string

record PrometheusSDConfig =
  sd_port :: int
  sd_metrics_path :: string

record RetentionConfig =
  rt_period :: i64
  rt_raw_period :: i64
  rt_interval :: i64

record OTELConfig =
  otel_enabled :: bool
  otel_service_name :: string
  otel_endpoint :: string
  otel_sample_ratio :: gofloat

record CLI =
  cli_database_url :: string
  cli_enable_timescale :: bool
  cli_migrate :: bool
  cli_refresh_views :: bool
  cli_data_dir :: string
  cli_lighthouses :: "string list"
  cli_poll_interval :: i64
  cli_poll_timeout :: i64
  cli_poll_jitter :: i64
  cli_once :: bool
  cli_debug :: bool
  cli_log_level :: string
  cli_ssh :: SSHConfig
  cli_http :: HTTPConfig
  cli_otel :: OTELConfig
  cli_prometheus_sd :: PrometheusSDConfig
  cli_retention :: RetentionConfig

record Config =
  cfg_cli :: CLI
  cfg_targets :: "Lighthouse list"

section \<open>Lighthouse targets\<close>

definition splitHostPortDefault :: "string \<Rightarrow> string \<Rightarrow> (string \<times> string) result" where
  "splitHostPortDefault value defaultPort =
     (case SplitHostPort value of
        Inr (host, port) \<Rightarrow> Inr (trim_set {CHR ''['', CHR '']''} host, port)
      | Inl _ \<Rightarrow>
          (if CHR '':'' \<in> set value \<and> count_list value (CHR '':'') > 1
           then Inl (Err ''IPv6 targets must use [host]:port syntax'')
           else Inr (value, defaultPort)))"

text \<open>One iteration of the loop of \<open>parseLighthouses\<close>, up to the duplicate check.\<close>

definition parse_target :: "string \<Rightarrow> Lighthouse result" where
  "parse_target value =
     (let (name, target) =
        (case str_cut (CHR ''='') value of
           (before, after, True) \<Rightarrow> (TrimSpace before, TrimSpace after)
         | (_, _, False) \<Rightarrow> ([], value))
      in case str_cut (CHR ''@'') target of (user, addr, ok) \<Rightarrow>
        if \<not> ok \<or> user = [] \<or> addr = [] then
          Inl (Err (''invalid lighthouse '' @ Quote value @
                    '': expected name=user@host:port or user@host:port''))
        else
          (case splitHostPortDefault addr ''4222'' of
             Inl err \<Rightarrow> Inl (Wrap (''invalid lighthouse '' @ Quote value) err)
           | Inr (host, port) \<Rightarrow>
               Inr \<lparr>lh_name = (if name = [] then host else name),
                    lh_user = user,
                    lh_address = JoinHostPort host port\<rparr>))"

fun parse_loop :: "string list \<Rightarrow> string set \<Rightarrow> Lighthouse list \<Rightarrow> Lighthouse list result" where
  "parse_loop [] seen targets = Inr targets"
| "parse_loop (v # vs) seen targets =
     (let value = TrimSpace v in
      if value = [] then parse_loop vs seen targets
      else case parse_target value of
        Inl err \<Rightarrow> Inl err
      | Inr l \<Rightarrow>
          if lh_name l \<in> seen then Inl (Err (''duplicate lighthouse name '' @ Quote (lh_name l)))
          else parse_loop vs (insert (lh_name l) seen) (targets @ [l]))"

definition parseLighthouses :: "string list \<Rightarrow> Lighthouse list result" where
  "parseLighthouses values =
     (case parse_loop values {} [] of
        Inl err \<Rightarrow> Inl err
      | Inr targets \<Rightarrow>
          if targets = [] then Inl (Err ''at least one lighthouse must be configured'')
          else Inr targets)"

section \<open>Validation\<close>

definition validatePrometheusSD :: "PrometheusSDConfig \<Rightarrow> go_error option" where
  "validatePrometheusSD cfg =
     (if sd_port cfg \<le> 0 \<or> sd_port cfg > 65535 then
        Some (Err ''--prometheus-sd-port must be between 1 and 65535'')
      else if \<not> has_prefix (sd_metrics_path cfg) ''/'' then
        Some (Err ''--prometheus-sd-metrics-path must start with /'')
      else None)"

definition validateRetention :: "RetentionConfig \<Rightarrow> go_error option" where
  "validateRetention cfg =
     (if sint (rt_period cfg) < 0 then
        Some (Err ''--retention-period must not be negative'')
      else if sint (rt_raw_period cfg) < 0 then
        Some (Err ''--retention-raw-period must not be negative'')
      else if (sint (rt_period cfg) > 0 \<or> sint (rt_raw_period cfg) > 0) \<and> sint (rt_interval cfg) \<le> 0 then
        Some (Err ''--retention-interval must be positive when retention is enabled'')
      else None)"

text \<open>
  \<open>Parse\<close>: \<open>kong_new\<close> is the error of \<open>kong.New\<close> if any, \<open>kong_parse\<close> what
  \<open>parser.Parse(args)\<close> makes of the arguments and the environment.
\<close>

definition Parse :: "go_error option \<Rightarrow> CLI result \<Rightarrow> Config result" where
  "Parse kong_new kong_parse =
     (case kong_new of Some err \<Rightarrow> Inl err | None \<Rightarrow>
      case kong_parse of Inl err \<Rightarrow> Inl err | Inr cli0 \<Rightarrow>
      (let cli = (if cli_debug cli0 then cli0\<lparr>cli_log_level := ''debug''\<rparr> else cli0) in
       case parseLighthouses (cli_lighthouses cli) of Inl err \<Rightarrow> Inl err | Inr lighthouses \<Rightarrow>
       if ssh_key_file (cli_ssh cli) = [] \<and> ssh_private_key (cli_ssh cli) = [] then
         Inl (Err ''either --ssh-key-file or MNEMO_SSH_PRIVATE_KEY must be provided'')
       else if float_lt_c (otel_sample_ratio (cli_otel cli)) 0 \<or>
               float_gt_c (otel_sample_ratio (cli_otel cli)) 1 then
         Inl (Err ''--otel-sample-ratio must be between 0.0 and 1.0'')
       else case validatePrometheusSD (cli_prometheus_sd cli) of Some err \<Rightarrow> Inl err | None \<Rightarrow>
       case validateRetention (cli_retention cli) of Some err \<Rightarrow> Inl err | None \<Rightarrow>
       Inr \<lparr>cfg_cli = cli, cfg_targets = lighthouses\<rparr>))"

section \<open>What reading the targets gives\<close>

definition blank :: "string \<Rightarrow> bool" where
  "blank v \<longleftrightarrow> TrimSpace v = []"

text \<open>The entries that are read, trimmed, in order.\<close>

definition entries :: "string list \<Rightarrow> string list" where
  "entries vs = map TrimSpace (filter (\<lambda>v. \<not> blank v) vs)"

lemma entries_simps [simp]:
  "entries [] = []"
  "entries (v # vs) = (if blank v then entries vs else TrimSpace v # entries vs)"
  by (simp_all add: entries_def)

lemma parse_loop_spec:
  "parse_loop vs seen acc = Inr ts \<longleftrightarrow>
     (\<exists>ls. ts = acc @ ls \<and> map parse_target (entries vs) = map Inr ls \<and>
           distinct (map lh_name ls) \<and> lh_name ` set ls \<inter> seen = {})"
proof (induction vs seen acc arbitrary: ts rule: parse_loop.induct)
  case (1 seen acc)
  then show ?case by auto
next
  case (2 v vs seen acc)
  show ?case
  proof (cases "blank v \<or> (\<exists>e. parse_target (TrimSpace v) = Inl e)")
    case True
    with 2(1) show ?thesis
      by (cases "blank v") (auto simp: blank_def Cons_eq_map_conv)
  next
    case False
    then obtain l where nb: "TrimSpace v \<noteq> []" and l: "parse_target (TrimSpace v) = Inr l"
      by (cases "parse_target (TrimSpace v)") (auto simp: blank_def)
    show ?thesis
    proof (cases "lh_name l \<in> seen")
      case True
      with nb l show ?thesis by (auto simp: blank_def Cons_eq_map_conv)
    next
      case new: False
      have "parse_loop (v # vs) seen acc = Inr ts \<longleftrightarrow>
          parse_loop vs (insert (lh_name l) seen) (acc @ [l]) = Inr ts"
        using nb l new by simp
      also have "\<dots> \<longleftrightarrow> (\<exists>ls. ts = (acc @ [l]) @ ls \<and> map parse_target (entries vs) = map Inr ls \<and>
           distinct (map lh_name ls) \<and> lh_name ` set ls \<inter> insert (lh_name l) seen = {})"
        using 2(2) nb l new by simp
      also have "\<dots> \<longleftrightarrow> (\<exists>ls. ts = acc @ ls \<and> map parse_target (entries (v # vs)) = map Inr ls \<and>
           distinct (map lh_name ls) \<and> lh_name ` set ls \<inter> seen = {})"
        using nb l new by (auto simp: blank_def Cons_eq_map_conv)
      finally show ?thesis .
    qed
  qed
qed

lemma parseLighthouses_iff:
  "parseLighthouses vs = Inr ts \<longleftrightarrow>
     ts \<noteq> [] \<and> map parse_target (entries vs) = map Inr ts \<and> distinct (map lh_name ts)"
proof -
  have "parseLighthouses vs = Inr ts \<longleftrightarrow> ts \<noteq> [] \<and> parse_loop vs {} [] = Inr ts"
    by (auto simp: parseLighthouses_def split: sum.splits)
  then show ?thesis by (simp add: parse_loop_spec)
qed

lemma parse_target_user: "parse_target v = Inr l \<Longrightarrow> lh_user l \<noteq> [] \<and> CHR ''@'' \<notin> set (lh_user l)"
  by (auto simp: parse_target_def Let_def str_cut_def split: prod.splits sum.splits if_splits
      dest: set_takeWhileD)

text \<open>
  A lighthouse whose address net.SplitHostPort reads back, so that its host can be reused
  with another port.
\<close>

definition wf_address :: "Lighthouse \<Rightarrow> bool" where
  "wf_address l \<longleftrightarrow> (\<exists>h p. plain_host h \<and> plain_port p \<and> lh_address l = JoinHostPort h p)"

lemma wf_address_split: "wf_address l \<longleftrightarrow> (\<exists>h p. SplitHostPort (lh_address l) = Inr (h, p) \<and>
    lh_address l = JoinHostPort h p)"
  unfolding wf_address_def using Split_Join Split_sound by metis

text \<open>Text without brackets and with at most one colon is host, or host and port.\<close>

lemma Split_no_brackets:
  assumes "plain_host v" and "count_list v (CHR '':'') \<le> 1" and "SplitHostPort v = Inl e"
  shows "CHR '':'' \<notin> set v"
proof
  assume "CHR '':'' \<in> set v"
  then obtain h p where v: "v = h @ CHR '':'' # p" and p: "CHR '':'' \<notin> set p"
    by (meson split_list_last)
  with assms(2) have "CHR '':'' \<notin> set h" by (simp add: count_list_0_iff)
  then have "JoinHostPort h p = v" by (simp add: v JoinHostPort_def)
  moreover have "plain_host h" "plain_port p"
    using assms(1) p by (auto simp: v plain_host_def plain_port_def)
  ultimately show False using Split_Join [of h p] assms(3) by simp
qed

lemma splitHostPortDefault_Split:
  "SplitHostPort v = Inr (h, p) \<Longrightarrow> splitHostPortDefault v d = Inr (h, p)"
  using Split_sound [of v h p] by (simp add: splitHostPortDefault_def trim_brackets_id)

lemma splitHostPortDefault_cases:
  assumes "splitHostPortDefault v d = Inr (h, p)"
  shows "SplitHostPort v = Inr (h, p) \<or>
    ((\<exists>e. SplitHostPort v = Inl e) \<and> h = v \<and> p = d \<and> count_list v (CHR '':'') \<le> 1)"
proof (cases "SplitHostPort v")
  case (Inl e)
  then have "\<not> (CHR '':'' \<in> set v \<and> count_list v (CHR '':'') > 1)" and "h = v" "p = d"
    using assms by (auto simp: splitHostPortDefault_def split: if_splits)
  moreover have "count_list v (CHR '':'') = 0" if "CHR '':'' \<notin> set v"
    using that by (simp add: count_list_0_iff)
  ultimately show ?thesis using Inl by fastforce
next
  case (Inr hp)
  obtain h' p' where hp: "hp = (h', p')" by (cases hp)
  with Inr assms splitHostPortDefault_Split [of v h' p' d] show ?thesis by simp
qed

lemma splitHostPortDefault_plain:
  assumes "splitHostPortDefault v d = Inr (h, p)" and "plain_port d"
    and "(\<exists>e. SplitHostPort v = Inl e) \<Longrightarrow> plain_host v"
  shows "plain_host h \<and> plain_port p"
  using splitHostPortDefault_cases [OF assms(1)]
proof
  assume "SplitHostPort v = Inr (h, p)"
  then show ?thesis using Split_sound by blast
next
  assume "(\<exists>e. SplitHostPort v = Inl e) \<and> h = v \<and> p = d \<and> count_list v (CHR '':'') \<le> 1"
  with assms(2,3) show ?thesis by simp
qed

lemma parse_target_wf:
  assumes "parse_target v = Inr l" and "plain_host v"
  shows "wf_address l"
proof -
  have sub: "set (TrimSpace s) \<subseteq> set s" for s by (rule set_TrimSpace)
  obtain n t where nt: "(case str_cut (CHR ''='') v of (b, a, True) \<Rightarrow> (TrimSpace b, TrimSpace a)
      | (_, _, False) \<Rightarrow> ([], v)) = (n, t)" by fastforce
  have "set t \<subseteq> set v"
  proof (cases "CHR ''='' \<in> set v")
    case True
    then have "t = TrimSpace (tl (dropWhile (\<lambda>x. x \<noteq> CHR ''='') v))" using nt by (simp add: str_cut_def)
    then have "set t \<subseteq> set (tl (dropWhile (\<lambda>x. x \<noteq> CHR ''='') v))" using sub by simp
    also have "\<dots> \<subseteq> set v"
    proof
      fix x assume "x \<in> set (tl (dropWhile (\<lambda>x. x \<noteq> CHR ''='') v))"
      then have "x \<in> set (dropWhile (\<lambda>x. x \<noteq> CHR ''='') v)"
        by (cases "dropWhile (\<lambda>x. x \<noteq> CHR ''='') v") simp_all
      then show "x \<in> set v" by (rule set_dropWhileD)
    qed
    finally show ?thesis .
  qed (use nt in \<open>simp add: str_cut_def\<close>)
  moreover obtain u a ok where cut: "str_cut (CHR ''@'') t = (u, a, ok)" by (cases "str_cut (CHR ''@'') t")
  moreover from cut have "set a \<subseteq> set t"
    by (cases ok) (auto dest: str_cut_True simp: str_cut_False)
  ultimately have a: "plain_host a" using assms(2) by (auto simp: plain_host_def)
  from assms(1) nt cut obtain h p where hp: "splitHostPortDefault a ''4222'' = Inr (h, p)"
    and l: "lh_address l = JoinHostPort h p"
    by (auto simp: parse_target_def Let_def split: if_splits sum.splits)
  have "plain_host h \<and> plain_port p"
    by (rule splitHostPortDefault_plain [OF hp _ a]) (simp add: plain_port_def)
  with l show ?thesis by (auto simp: wf_address_def)
qed

text \<open>The text of a target, and the target it denotes.\<close>

definition render_target :: "Lighthouse \<Rightarrow> string" where
  "render_target l = lh_name l @ ''='' @ lh_target l"

lemma parse_render:
  assumes "tidy (lh_name l)" and "CHR ''='' \<notin> set (lh_name l)"
    and "tidy (lh_target l)" and "lh_user l \<noteq> []" and "CHR ''@'' \<notin> set (lh_user l)"
    and "plain_host h" and "plain_port p" and "lh_address l = JoinHostPort h p"
  shows "parse_target (render_target l) = Inr l"
proof -
  have 1: "str_cut (CHR ''='') (render_target l) = (lh_name l, lh_target l, True)"
    using str_cut_eq [OF assms(2), of "lh_target l"] by (simp add: render_target_def)
  have 2: "str_cut (CHR ''@'') (lh_target l) = (lh_user l, lh_address l, True)"
    using str_cut_eq [OF assms(5), of "lh_address l"] by (simp add: lh_target_def)
  have "lh_address l \<noteq> []" by (simp add: assms(8) JoinHostPort_def)
  moreover have "splitHostPortDefault (lh_address l) d = Inr (h, p)" for d
    using splitHostPortDefault_Split Split_Join [OF assms(6,7)] by (simp add: assms(8))
  ultimately show ?thesis
    using 1 2 assms(1,3,4,8) by (simp add: parse_target_def TrimSpace_tidy tidy_def)
qed

text \<open>The chain of checks of \<open>Parse\<close>, for any outcomes of the checks.\<close>

lemma checks_passed:
  "(case targets of Inl err \<Rightarrow> Inl err | Inr ls \<Rightarrow>
      if no_key then Inl e1 else if bad_ratio then Inl e2
      else case sd of Some err \<Rightarrow> Inl err | None \<Rightarrow>
        case rt of Some err \<Rightarrow> Inl err | None \<Rightarrow> Inr \<lparr>cfg_cli = c, cfg_targets = ls\<rparr>) = Inr (cfg :: Config) \<longleftrightarrow>
   cfg_cli cfg = c \<and> targets = Inr (cfg_targets cfg) \<and> \<not> no_key \<and> \<not> bad_ratio \<and> sd = None \<and> rt = None"
  by (cases cfg) (auto split: sum.splits option.splits)

lemma Parse_passed:
  assumes "Parse kong_new kong_parse = Inr cfg"
  shows "parseLighthouses (cli_lighthouses (cfg_cli cfg)) = Inr (cfg_targets cfg)"
    and "validatePrometheusSD (cli_prometheus_sd (cfg_cli cfg)) = None"
    and "validateRetention (cli_retention (cfg_cli cfg)) = None"
proof -
  from assms obtain cli where k: "kong_new = None" "kong_parse = Inr cli"
    by (cases kong_new; cases kong_parse) (simp_all add: Parse_def)
  define c where "c = (if cli_debug cli then cli\<lparr>cli_log_level := ''debug''\<rparr> else cli)"
  from assms have "cfg_cli cfg = c \<and> parseLighthouses (cli_lighthouses c) = Inr (cfg_targets cfg) \<and>
      validatePrometheusSD (cli_prometheus_sd c) = None \<and> validateRetention (cli_retention c) = None"
    unfolding Parse_def k Let_def option.case sum.case c_def [symmetric] checks_passed by simp
  then show "parseLighthouses (cli_lighthouses (cfg_cli cfg)) = Inr (cfg_targets cfg)"
    "validatePrometheusSD (cli_prometheus_sd (cfg_cli cfg)) = None"
    "validateRetention (cli_retention (cfg_cli cfg)) = None" by simp_all
qed

section \<open>Properties\<close>

text \<open>C26 parseLighthouses accepts a list exactly when some entry is not blank, every such entry
  is a well-formed target and no two targets share a name; the result is then the list of
  these targets in the order given.\<close>

theorem lighthouses_accepted:
  "parseLighthouses vs = Inr ts \<longleftrightarrow>
     ts \<noteq> [] \<and> map parse_target (entries vs) = map Inr ts \<and> distinct (map lh_name ts)"
  by (rule parseLighthouses_iff)

text \<open>C27 A configured lighthouse written back as name=user@host:port, with the host in brackets
  when it is an IPv6 address, is read as the same lighthouse: every name, user, host and port
  survives the round trip.\<close>

theorem lighthouse_roundtrip:
  assumes "tidy (lh_name l)" and "CHR ''='' \<notin> set (lh_name l)"
    and "tidy (lh_target l)" and "lh_user l \<noteq> []" and "CHR ''@'' \<notin> set (lh_user l)"
    and "plain_host h" and "plain_port p" and "lh_address l = JoinHostPort h p"
  shows "parseLighthouses [render_target l] = Inr [l]"
proof -
  have "tidy (render_target l)"
    using assms(1,3) by (simp add: render_target_def tidy_def)
  then have "entries [render_target l] = [render_target l]"
    by (simp add: blank_def TrimSpace_tidy tidy_def)
  with parse_render [OF assms] show ?thesis by (simp add: parseLighthouses_iff)
qed

lemma lighthouse_roundtrip_witness:
  "parseLighthouses [''eu1=nebula@[fd00::1]:4222''] =
     Inr [\<lparr>lh_name = ''eu1'', lh_user = ''nebula'', lh_address = ''[fd00::1]:4222''\<rparr>]"
  using lighthouse_roundtrip [of "\<lparr>lh_name = ''eu1'', lh_user = ''nebula'', lh_address = ''[fd00::1]:4222''\<rparr>"
      "''fd00::1''" "''4222''"]
  by (simp add: tidy_def visible_def lh_target_def render_target_def plain_host_def plain_port_def
      JoinHostPort_def)



text \<open>C29 Parse accepts exactly the command lines that kong accepts and that pass every check: the
  lighthouses parse, an SSH key is given, the sample ratio is not below 0 or above 1 (a NaN
  passes), the discovery port is a TCP port, the metrics path is absolute, and the retention
  periods are non-negative with a positive interval when one of them is set. The configuration
  is the command line with the log level raised by --debug.\<close>

theorem Parse_accepts:
  "Parse kong_new kong_parse = Inr cfg \<longleftrightarrow>
     (\<exists>cli. kong_new = None \<and> kong_parse = Inr cli \<and>
        cfg_cli cfg = (if cli_debug cli then cli\<lparr>cli_log_level := ''debug''\<rparr> else cli) \<and>
        parseLighthouses (cli_lighthouses cli) = Inr (cfg_targets cfg) \<and>
        (ssh_key_file (cli_ssh cli), ssh_private_key (cli_ssh cli)) \<noteq> ([], []) \<and>
        otel_sample_ratio (cli_otel cli) \<in> insert NaN (Fin ` {0..1}) \<and>
        sd_port (cli_prometheus_sd cli) \<in> {1..65535} \<and>
        has_prefix (sd_metrics_path (cli_prometheus_sd cli)) ''/'' \<and>
        0 \<le> sint (rt_period (cli_retention cli)) \<and> 0 \<le> sint (rt_raw_period (cli_retention cli)) \<and>
        \<not> (0 < max (sint (rt_period (cli_retention cli))) (sint (rt_raw_period (cli_retention cli))) \<and>
           sint (rt_interval (cli_retention cli)) \<le> 0))"
proof (cases "kong_new = None \<and> (\<exists>cli. kong_parse = Inr cli)")
  case False
  then show ?thesis by (cases kong_new; cases kong_parse) (simp_all add: Parse_def)
next
  case True
  then obtain cli where k: "kong_new = None" "kong_parse = Inr cli" by blast
  define c where "c = (if cli_debug cli then cli\<lparr>cli_log_level := ''debug''\<rparr> else cli)"
  have ratio: "r \<in> insert NaN (Fin ` {0..1}) \<longleftrightarrow> \<not> (float_lt_c r 0 \<or> float_gt_c r 1)" for r
    by (cases r) auto
  have ret: "validateRetention rc = None \<longleftrightarrow> 0 \<le> sint (rt_period rc) \<and> 0 \<le> sint (rt_raw_period rc) \<and>
      \<not> (0 < max (sint (rt_period rc)) (sint (rt_raw_period rc)) \<and> sint (rt_interval rc) \<le> 0)" for rc
    unfolding validateRetention_def less_max_iff_disj by (simp only: not_less [symmetric] split: if_splits) blast
  have sd: "validatePrometheusSD sc = None \<longleftrightarrow> sd_port sc \<in> {1..65535} \<and> has_prefix (sd_metrics_path sc) ''/''" for sc
    by (auto simp: validatePrometheusSD_def)
  have fields: "cli_lighthouses c = cli_lighthouses cli" "cli_ssh c = cli_ssh cli"
    "cli_otel c = cli_otel cli" "cli_prometheus_sd c = cli_prometheus_sd cli"
    "cli_retention c = cli_retention cli" by (simp_all add: c_def)
  have parse: "Parse kong_new kong_parse = Inr cfg \<longleftrightarrow>
      cfg_cli cfg = c \<and> parseLighthouses (cli_lighthouses cli) = Inr (cfg_targets cfg) \<and>
      (ssh_key_file (cli_ssh cli), ssh_private_key (cli_ssh cli)) \<noteq> ([], []) \<and>
      \<not> (float_lt_c (otel_sample_ratio (cli_otel cli)) 0 \<or> float_gt_c (otel_sample_ratio (cli_otel cli)) 1) \<and>
      validatePrometheusSD (cli_prometheus_sd cli) = None \<and> validateRetention (cli_retention cli) = None"
    unfolding Parse_def k Let_def option.case sum.case c_def [symmetric] fields
    unfolding checks_passed by (simp only: prod.inject)
  have "(\<exists>cli'. kong_new = None \<and> kong_parse = Inr cli' \<and> P cli') \<longleftrightarrow> P cli" for P
    by (simp only: k simp_thms sum.inject ex_simps)
  then show ?thesis unfolding parse ratio sd ret c_def by (simp only: conj_assoc)
qed

section \<open>A sample\<close>

definition sample_cli :: CLI where
  "sample_cli = \<lparr>cli_database_url = ''postgres:///mnemo'', cli_enable_timescale = True, cli_migrate = True,
     cli_refresh_views = True, cli_data_dir = ''/data'',
     cli_lighthouses = [''eu1=nebula@[fd00::1]:4222''], cli_poll_interval = 60000000000,
     cli_poll_timeout = 30000000000, cli_poll_jitter = 0, cli_once = False, cli_debug = False,
     cli_log_level = ''info'',
     cli_ssh = \<lparr>ssh_key_file = ''/key'', ssh_private_key = [], ssh_key_passphrase = [],
       ssh_known_hosts_path = [], ssh_host_key_mode = ''accept-new'', ssh_timeout = 10000000000\<rparr>,
     cli_http = \<lparr>http_enabled = True, http_address = '':8080''\<rparr>,
     cli_otel = \<lparr>otel_enabled = False, otel_service_name = ''mnemo'', otel_endpoint = [],
       otel_sample_ratio = Fin 1\<rparr>,
     cli_prometheus_sd = \<lparr>sd_port = 4242, sd_metrics_path = ''/metrics''\<rparr>,
     cli_retention = \<lparr>rt_period = 2592000000000000, rt_raw_period = 604800000000000,
       rt_interval = 3600000000000\<rparr>\<rparr>"

definition sample_targets :: "Lighthouse list" where
  "sample_targets = [\<lparr>lh_name = ''eu1'', lh_user = ''nebula'', lh_address = ''[fd00::1]:4222''\<rparr>]"

lemma sample_targets_parse: "parseLighthouses [''eu1=nebula@[fd00::1]:4222''] = Inr sample_targets"
proof -
  let ?l = "\<lparr>lh_name = ''eu1'', lh_user = ''nebula'', lh_address = ''[fd00::1]:4222''\<rparr>"
  have r: "render_target ?l = ''eu1=nebula@[fd00::1]:4222''" by (simp add: render_target_def lh_target_def)
  have "parse_target (render_target ?l) = Inr ?l"
    by (rule parse_render [where h = "''fd00::1''" and p = "''4222''"])
       (simp_all add: tidy_def visible_def lh_target_def plain_host_def plain_port_def JoinHostPort_def)
  moreover have "TrimSpace (render_target ?l) = render_target ?l"
    unfolding r by (rule TrimSpace_tidy) (simp add: tidy_def visible_def)
  ultimately show ?thesis by (simp add: parseLighthouses_iff blank_def r sample_targets_def)
qed

lemma sample_Parse:
  "Parse None (Inr sample_cli) = Inr \<lparr>cfg_cli = sample_cli, cfg_targets = sample_targets\<rparr>"
  using sample_targets_parse
  by (simp add: Parse_def sample_cli_def validatePrometheusSD_def validateRetention_def has_prefix_def)

end
