(* ===== verification/Prometheus_SD.thy ===== *)
theory Prometheus_SD
  imports Config
begin

text \<open>
  \<open>internal/httpserver/prometheus_sd.go\<close>: the target groups built from the present peers and
  the configured lighthouses, and the request handler. The list of peers comes from the store,
  a parameter of the handler. Both loops of \<open>prometheusTargetGroups\<close> are shown equal to
  one selection, the first item of each target, over the peers with an address and over the
  lighthouses whose target no peer has taken.
\<close>

section \<open>Target groups\<close>

record target_group =
  tg_targets :: "string list"
  tg_labels :: "string \<rightharpoonup> string"

definition setLabel :: "(string \<rightharpoonup> string) \<Rightarrow> string \<Rightarrow> string \<Rightarrow> (string \<rightharpoonup> string)" where
  "setLabel labels name value = (if value = [] then labels else labels(name \<mapsto> value))"

definition peer_target :: "string \<Rightarrow> PresentPeer \<Rightarrow> string" where
  "peer_target port peer = JoinHostPort (pp_primary peer) port"

definition peer_group :: "PrometheusSDConfig \<Rightarrow> string \<Rightarrow> PresentPeer \<Rightarrow> target_group" where
  "peer_group cfg port peer =
     (let target = peer_target port peer;
          nodeName = (if pp_cert_name peer = [] then pp_primary peer else pp_cert_name peer);
          l0 = [''__metrics_path__'' \<mapsto> sd_metrics_path cfg,
                ''__meta_nebula_address'' \<mapsto> target,
                ''__meta_nebula_name'' \<mapsto> nodeName,
                ''__meta_nebula_source'' \<mapsto> ''present_peer'',
                ''__meta_nebula_vpn_addr'' \<mapsto> pp_primary peer,
                ''__meta_nebula_metric_path'' \<mapsto> sd_metrics_path cfg];
          l1 = setLabel l0 ''__meta_nebula_peer_key'' (pp_key peer);
          l2 = setLabel l1 ''__meta_nebula_vpn_addrs'' (join_strings '','' (elems (pp_vpn_addrs peer)));
          l3 = setLabel l2 ''__meta_nebula_cert_name'' (pp_cert_name peer);
          l4 = setLabel l3 ''__meta_nebula_cert_fingerprint'' (pp_fingerprint peer);
          l5 = setLabel l4 ''__meta_nebula_observed_by_lighthouse'' (pp_lighthouse peer);
          l6 = setLabel l5 ''__meta_nebula_version'' (pp_version peer);
          l7 = (if go_len (pp_groups peer) > 0
                then l6(''__meta_nebula_cert_groups'' \<mapsto> join_strings '','' (elems (pp_groups peer)))
                else l6)
      in \<lparr>tg_targets = [target], tg_labels = l7\<rparr>)"

fun peer_loop :: "PrometheusSDConfig \<Rightarrow> string \<Rightarrow> PresentPeer list \<Rightarrow> string set \<Rightarrow>
    target_group list \<Rightarrow> string set \<times> target_group list" where
  "peer_loop cfg port [] seen groups = (seen, groups)"
| "peer_loop cfg port (peer # peers) seen groups =
     (if pp_primary peer = [] then peer_loop cfg port peers seen groups
      else let target = peer_target port peer in
        if target \<in> seen then peer_loop cfg port peers seen groups
        else peer_loop cfg port peers (insert target seen) (groups @ [peer_group cfg port peer]))"

definition lighthouse_group :: "PrometheusSDConfig \<Rightarrow> string \<Rightarrow> string \<Rightarrow> Lighthouse \<Rightarrow> target_group" where
  "lighthouse_group cfg port host l =
     (let target = JoinHostPort host port in
      \<lparr>tg_targets = [target],
       tg_labels = [''__metrics_path__'' \<mapsto> sd_metrics_path cfg,
         ''__meta_nebula_address'' \<mapsto> target,
         ''__meta_nebula_lighthouse_host'' \<mapsto> host,
         ''__meta_nebula_lighthouse_name'' \<mapsto> lh_name l,
         ''__meta_nebula_lighthouse_user'' \<mapsto> lh_user l,
         ''__meta_nebula_metric_path'' \<mapsto> sd_metrics_path cfg,
         ''__meta_nebula_name'' \<mapsto> lh_name l,
         ''__meta_nebula_source'' \<mapsto> ''configured_lighthouse'',
         ''__meta_nebula_ssh_address'' \<mapsto> lh_address l,
         ''__meta_nebula_ssh_target'' \<mapsto> lh_target l,
         ''__meta_nebula_stats_target_host'' \<mapsto> host]\<rparr>)"

fun lighthouse_loop :: "PrometheusSDConfig \<Rightarrow> string \<Rightarrow> Lighthouse list \<Rightarrow> string set \<Rightarrow>
    target_group list \<Rightarrow> target_group list result" where
  "lighthouse_loop cfg port [] seen groups = Inr groups"
| "lighthouse_loop cfg port (l # ls) seen groups =
     (case SplitHostPort (lh_address l) of
        Inl err \<Rightarrow> Inl (Wrap (''split lighthouse '' @ lh_name l @ '' address '' @ Quote (lh_address l)) err)
      | Inr (host, _) \<Rightarrow>
          (let target = JoinHostPort host port in
           if target \<in> seen then lighthouse_loop cfg port ls seen groups
           else lighthouse_loop cfg port ls (insert target seen)
                  (groups @ [lighthouse_group cfg port host l])))"

definition prometheusTargetGroups ::
  "PrometheusSDConfig \<Rightarrow> Lighthouse list \<Rightarrow> PresentPeer list \<Rightarrow> target_group list result" where
  "prometheusTargetGroups cfg lighthouses peers =
     (let port = Itoa (sd_port cfg);
          (seen, groups) = peer_loop cfg port peers {} []
      in lighthouse_loop cfg port lighthouses seen groups)"

section \<open>The handler\<close>

datatype body = Text string | Groups "target_group list" | NoBody

record response =
  rs_status :: nat
  rs_headers :: "string \<rightharpoonup> string"
  rs_body :: body

text \<open>\<open>http.Error\<close>: a plain text reply with the given status.\<close>

definition http_error :: "string \<Rightarrow> nat \<Rightarrow> (string \<rightharpoonup> string) \<Rightarrow> response" where
  "http_error msg code hdr =
     \<lparr>rs_status = code,
      rs_headers = hdr(''Content-Type'' \<mapsto> ''text/plain; charset=utf-8'',
                       ''X-Content-Type-Options'' \<mapsto> ''nosniff''),
      rs_body = Text (msg @ [CHR 0x0A])\<rparr>"

definition prometheusSDHandler ::
  "PrometheusSDConfig \<Rightarrow> Lighthouse list \<Rightarrow> ('s, PresentPeer list) act \<Rightarrow> string \<Rightarrow> 's \<Rightarrow> response \<times> 's" where
  "prometheusSDHandler cfg lighthouses list_peers method s =
     (if method \<noteq> ''GET'' \<and> method \<noteq> ''HEAD'' then
        (http_error ''method not allowed'' 405 [''Allow'' \<mapsto> ''GET, HEAD''], s)
      else case list_peers s of
        (Inl err, s') \<Rightarrow> (http_error (error_text err) 500 Map.empty, s')
      | (Inr peers, s') \<Rightarrow>
          (case prometheusTargetGroups cfg lighthouses peers of
             Inl err \<Rightarrow> (http_error (error_text err) 500 Map.empty, s')
           | Inr groups \<Rightarrow>
               (\<lparr>rs_status = 200, rs_headers = [''Content-Type'' \<mapsto> ''application/json''],
                 rs_body = (if method = ''HEAD'' then NoBody else Groups groups)\<rparr>, s')))"

section \<open>What the loops select\<close>

text \<open>
  The abstract reading: peers with an address, first of each target; then lighthouses whose
  target is not yet taken, first of each target.
\<close>

definition lighthouse_host :: "Lighthouse \<Rightarrow> string" where
  "lighthouse_host l = (case SplitHostPort (lh_address l) of Inl _ \<Rightarrow> [] | Inr (h, _) \<Rightarrow> h)"

definition lighthouse_target :: "string \<Rightarrow> Lighthouse \<Rightarrow> string" where
  "lighthouse_target port l = JoinHostPort (lighthouse_host l) port"

definition chosen_peers :: "string \<Rightarrow> PresentPeer list \<Rightarrow> PresentPeer list" where
  "chosen_peers port peers = first_per_key (peer_target port) (filter (\<lambda>p. pp_primary p \<noteq> []) peers)"

definition chosen_lighthouses :: "string \<Rightarrow> PresentPeer list \<Rightarrow> Lighthouse list \<Rightarrow> Lighthouse list" where
  "chosen_lighthouses port peers ls =
     first_per_key (lighthouse_target port)
       (filter (\<lambda>l. lighthouse_target port l \<notin> peer_target port ` set (chosen_peers port peers)) ls)"

definition splits :: "Lighthouse \<Rightarrow> bool" where
  "splits l \<longleftrightarrow> (\<exists>hp. SplitHostPort (lh_address l) = Inr hp)"

text \<open>A loop that skips the keys already seen selects the first item of each new key.\<close>

lemma first_per_key_insert:
  "first_per_key key (filter (\<lambda>y. P y \<and> key y \<notin> insert (key x) S) ys) =
   first_per_key key (filter (\<lambda>y. key y \<noteq> key x) (filter (\<lambda>y. P y \<and> key y \<notin> S) ys))"
  by (simp add: conj_commute conj_left_commute)

lemma peer_loop_eq:
  "peer_loop cfg port ps seen acc =
     (let qs = first_per_key (peer_target port)
                 (filter (\<lambda>p. pp_primary p \<noteq> [] \<and> peer_target port p \<notin> seen) ps)
      in (seen \<union> peer_target port ` set qs, acc @ map (peer_group cfg port) qs))"
proof (induction cfg port ps seen acc rule: peer_loop.induct)
  case (1 cfg port seen groups)
  then show ?case by simp
next
  case (2 cfg port p ps seen acc)
  consider "pp_primary p = [] \<or> peer_target port p \<in> seen"
    | "pp_primary p \<noteq> []" "peer_target port p \<notin> seen" by blast
  then show ?case
  proof cases
    case 1
    with 2(1,2) show ?thesis by (auto simp: Let_def)
  next
    case new: 2
    let ?k = "peer_target port"
    have "peer_loop cfg port (p # ps) seen acc =
        peer_loop cfg port ps (insert (?k p) seen) (acc @ [peer_group cfg port p])"
      using new by simp
    also have "\<dots> = (let qs = first_per_key ?k
          (filter (\<lambda>q. pp_primary q \<noteq> [] \<and> ?k q \<notin> insert (?k p) seen) ps)
        in (insert (?k p) seen \<union> ?k ` set qs,
            (acc @ [peer_group cfg port p]) @ map (peer_group cfg port) qs))"
      using 2(3) [OF new(1) refl new(2)] .
    finally show ?thesis
      unfolding first_per_key_insert using new by (simp add: Let_def conj_ac)
  qed
qed

lemma lighthouse_loop_eq:
  assumes "\<And>l. l \<in> set ls \<Longrightarrow> splits l"
  shows "lighthouse_loop cfg port ls seen acc =
     Inr (acc @ map (\<lambda>l. lighthouse_group cfg port (lighthouse_host l) l)
       (first_per_key (lighthouse_target port)
          (filter (\<lambda>l. True \<and> lighthouse_target port l \<notin> seen) ls)))"
  using assms
proof (induction cfg port ls seen acc rule: lighthouse_loop.induct)
  case (1 cfg port seen groups)
  then show ?case by simp
next
  case (2 cfg port l ls seen acc)
  from "2.prems" [of l] obtain h p where s: "SplitHostPort (lh_address l) = Inr (h, p)"
    by (auto simp: splits_def)
  then have h: "lighthouse_host l = h" by (simp add: lighthouse_host_def)
  let ?k = "lighthouse_target port"
  have t: "?k l = JoinHostPort h port" by (simp add: lighthouse_target_def h)
  have ls: "\<And>l. l \<in> set ls \<Longrightarrow> splits l" using "2.prems" by simp
  show ?case
  proof (cases "?k l \<in> seen")
    case True
    then have "lighthouse_loop cfg port (l # ls) seen acc = lighthouse_loop cfg port ls seen acc"
      using s by (simp add: t)
    with True show ?thesis using 2(1) [OF s refl refl] ls by (simp add: t)
  next
    case False
    then have "lighthouse_loop cfg port (l # ls) seen acc =
        lighthouse_loop cfg port ls (insert (?k l) seen) (acc @ [lighthouse_group cfg port h l])"
      using s by (simp add: t)
    also have "\<dots> = Inr ((acc @ [lighthouse_group cfg port h l]) @
        map (\<lambda>l. lighthouse_group cfg port (lighthouse_host l) l)
          (first_per_key ?k (filter (\<lambda>m. True \<and> ?k m \<notin> insert (?k l) seen) ls)))"
      using 2(2) [OF s refl refl] False ls by (simp add: t)
    finally show ?thesis
      unfolding first_per_key_insert using False by (simp add: h conj_ac)
  qed
qed

lemma lighthouse_loop_error:
  "(\<exists>e. lighthouse_loop cfg port ls seen acc = Inl e) \<longleftrightarrow> (\<exists>l \<in> set ls. \<not> splits l)"
proof (induction cfg port ls seen acc rule: lighthouse_loop.induct)
  case (1 cfg port seen groups)
  then show ?case by simp
next
  case (2 cfg port l ls seen acc)
  show ?case
  proof (cases "SplitHostPort (lh_address l)")
    case (Inl e)
    then show ?thesis by (auto simp: splits_def)
  next
    case (Inr hp)
    then obtain h p where "SplitHostPort (lh_address l) = Inr (h, p)" by (cases hp) auto
    with 2 show ?thesis by (auto simp: splits_def Let_def)
  qed
qed

lemma target_groups_eq:
  assumes "\<And>l. l \<in> set ls \<Longrightarrow> splits l"
  shows "prometheusTargetGroups cfg ls peers =
     (let port = Itoa (sd_port cfg) in
      Inr (map (peer_group cfg port) (chosen_peers port peers) @
           map (\<lambda>l. lighthouse_group cfg port (lighthouse_host l) l)
             (chosen_lighthouses port peers ls)))"
  using lighthouse_loop_eq [OF assms]
  by (simp add: prometheusTargetGroups_def peer_loop_eq chosen_peers_def chosen_lighthouses_def Let_def)

lemma target_groups_error:
  "(\<exists>e. prometheusTargetGroups cfg ls peers = Inl e) \<longleftrightarrow> (\<exists>l \<in> set ls. \<not> splits l)"
  unfolding prometheusTargetGroups_def Let_def by (auto simp: lighthouse_loop_error split: prod.splits)

lemma target_groups_Inr:
  assumes "prometheusTargetGroups cfg ls peers = Inr gs"
  shows "gs = (let port = Itoa (sd_port cfg) in
      map (peer_group cfg port) (chosen_peers port peers) @
      map (\<lambda>l. lighthouse_group cfg port (lighthouse_host l) l) (chosen_lighthouses port peers ls))"
proof -
  have "\<And>l. l \<in> set ls \<Longrightarrow> splits l"
    using assms target_groups_error [of cfg ls peers] by auto
  from target_groups_eq [OF this] assms show ?thesis by (simp add: Let_def)
qed

lemma peer_group_targets [simp]: "tg_targets (peer_group cfg port p) = [peer_target port p]"
  by (simp add: peer_group_def Let_def)

lemma lighthouse_group_targets [simp]:
  "tg_targets (lighthouse_group cfg port (lighthouse_host l) l) = [lighthouse_target port l]"
  by (simp add: lighthouse_group_def lighthouse_target_def Let_def)

lemma chosen_disjoint:
  "l \<in> set (chosen_lighthouses port peers ls) \<Longrightarrow>
   lighthouse_target port l \<notin> peer_target port ` set (chosen_peers port peers)"
  using first_per_key_subset unfolding chosen_lighthouses_def by fastforce

lemma chosen_peers_targets:
  "peer_target port ` set (chosen_peers port peers) =
   peer_target port ` {p \<in> set peers. pp_primary p \<noteq> []}"
  by (simp add: chosen_peers_def first_per_key_keys)

lemma chosen_targets:
  "peer_target port ` set (chosen_peers port peers) \<union>
   lighthouse_target port ` set (chosen_lighthouses port peers ls) =
   peer_target port ` {p \<in> set peers. pp_primary p \<noteq> []} \<union> lighthouse_target port ` set ls"
proof -
  have "lighthouse_target port ` set (chosen_lighthouses port peers ls) =
      lighthouse_target port ` set ls - peer_target port ` set (chosen_peers port peers)"
    by (auto simp: chosen_lighthouses_def first_per_key_keys)
  then show ?thesis by (simp add: chosen_peers_targets)
qed

lemma setLabel_apply:
  "setLabel m n v k = (if k = n \<and> v \<noteq> [] then Some v else m k)"
  by (simp add: setLabel_def)

lemma peer_group_labels:
  "tg_labels (peer_group cfg port p) ''__meta_nebula_source'' = Some ''present_peer''"
  "tg_labels (peer_group cfg port p) ''__metrics_path__'' = Some (sd_metrics_path cfg)"
  "tg_labels (peer_group cfg port p) ''__meta_nebula_address'' = Some (peer_target port p)"
  "tg_labels (peer_group cfg port p) ''__meta_nebula_name'' =
     Some (if pp_cert_name p = [] then pp_primary p else pp_cert_name p)"
  by (simp_all add: peer_group_def Let_def setLabel_apply)

lemma lighthouse_group_labels:
  "tg_labels (lighthouse_group cfg port h l) ''__meta_nebula_source'' = Some ''configured_lighthouse''"
  "tg_labels (lighthouse_group cfg port h l) ''__metrics_path__'' = Some (sd_metrics_path cfg)"
  "tg_labels (lighthouse_group cfg port h l) ''__meta_nebula_address'' = Some (JoinHostPort h port)"
  by (simp_all add: lighthouse_group_def Let_def)

section \<open>Properties\<close>

text \<open>C30 The groups served to Prometheus have one target each, no target twice, and their targets
  are exactly those of the present peers with a VPN address and of the configured lighthouses,
  all on the configured port.\<close>

theorem sd_targets_exact:
  assumes "prometheusTargetGroups cfg ls peers = Inr gs"
  shows "distinct (map tg_targets gs) \<and>
    set (map tg_targets gs) =
      (\<lambda>p. [JoinHostPort (pp_primary p) (Itoa (sd_port cfg))]) ` {p \<in> set peers. pp_primary p \<noteq> []} \<union>
      (\<lambda>l. [JoinHostPort (lighthouse_host l) (Itoa (sd_port cfg))]) ` set ls"
proof -
  let ?port = "Itoa (sd_port cfg)"
  let ?ps = "chosen_peers ?port peers" and ?ls = "chosen_lighthouses ?port peers ls"
  let ?ts = "map (peer_target ?port) ?ps @ map (lighthouse_target ?port) ?ls"
  have map: "map tg_targets gs = map (\<lambda>t. [t]) ?ts"
    using target_groups_Inr [OF assms] by (simp add: Let_def)
  have "distinct (map (peer_target ?port) ?ps)" "distinct (map (lighthouse_target ?port) ?ls)"
    by (simp_all add: chosen_peers_def chosen_lighthouses_def distinct_first_per_key)
  moreover have "peer_target ?port ` set ?ps \<inter> lighthouse_target ?port ` set ?ls = {}"
    using chosen_disjoint [where port = ?port and peers = peers and ls = ls] by (force simp: image_iff)
  ultimately have "distinct ?ts" by (simp only: distinct_append set_map simp_thms)
  then have "distinct (map tg_targets gs)" unfolding map by (subst distinct_map) (simp add: inj_on_def)
  moreover have "set (map tg_targets gs) = (\<lambda>t. [t]) `
      (peer_target ?port ` set ?ps \<union> lighthouse_target ?port ` set ?ls)"
    unfolding map by (simp add: image_Un image_image)
  ultimately show ?thesis
    unfolding chosen_targets by (auto simp: peer_target_def lighthouse_target_def)
qed

definition sample_sd :: PrometheusSDConfig where
  "sample_sd = \<lparr>sd_port = 4242, sd_metrics_path = ''/metrics''\<rparr>"

definition sample_lighthouse :: Lighthouse where
  "sample_lighthouse = \<lparr>lh_name = ''eu1'', lh_user = ''nebula'', lh_address = ''lh:4222''\<rparr>"

definition sample_peer :: PresentPeer where
  "sample_peer = \<lparr>pp_lighthouse = ''eu1'', pp_key = ''k'', pp_primary = ''10.0.0.2'',
     pp_vpn_addrs = Some [''10.0.0.2''], pp_cert_name = ''node'', pp_fingerprint = ''k'',
     pp_groups = Some [], pp_version = ''1.9''\<rparr>"

lemma Split_sample: "SplitHostPort ''lh:4222'' = Inr (''lh'', ''4222'')"
  using Split_Join [of "''lh''" "''4222''"] by (simp add: plain_host_def plain_port_def JoinHostPort_def)

lemma sample_groups:
  "\<exists>gs. prometheusTargetGroups sample_sd [sample_lighthouse] [sample_peer] = Inr gs"
  using Split_sample target_groups_error [of sample_sd "[sample_lighthouse]" "[sample_peer]"]
  by (cases "prometheusTargetGroups sample_sd [sample_lighthouse] [sample_peer]")
     (auto simp: splits_def sample_lighthouse_def)

lemma sd_targets_exact_witness:
  "\<exists>gs. prometheusTargetGroups sample_sd [sample_lighthouse] [sample_peer] = Inr gs \<and>
     set (map tg_targets gs) = {[JoinHostPort ''10.0.0.2'' (Itoa 4242)], [JoinHostPort ''lh'' (Itoa 4242)]}"
proof -
  obtain gs where g: "prometheusTargetGroups sample_sd [sample_lighthouse] [sample_peer] = Inr gs"
    using sample_groups by blast
  have "lighthouse_host sample_lighthouse = ''lh''"
    by (simp add: lighthouse_host_def sample_lighthouse_def Split_sample)
  moreover have "{p. p = sample_peer \<and> pp_primary p \<noteq> []} = {sample_peer}"
    by (auto simp: sample_peer_def)
  ultimately show ?thesis
    using sd_targets_exact [OF g] g by (auto simp: sample_sd_def sample_peer_def)
qed

text \<open>C31 A present peer takes precedence over a configured lighthouse with the same target: a
  group is labelled present_peer exactly when some present peer has its target, and
  configured_lighthouse otherwise; every group carries the configured metrics path and its own
  target as address label.\<close>

theorem sd_peers_win:
  assumes "prometheusTargetGroups cfg ls peers = Inr gs" and "g \<in> set gs" and "tg_targets g = [t]"
  shows "tg_labels g ''__meta_nebula_source'' =
      Some (if t \<in> peer_target (Itoa (sd_port cfg)) ` {p \<in> set peers. pp_primary p \<noteq> []}
            then ''present_peer'' else ''configured_lighthouse'') \<and>
    tg_labels g ''__metrics_path__'' = Some (sd_metrics_path cfg) \<and>
    tg_labels g ''__meta_nebula_address'' = Some t"
proof -
  let ?port = "Itoa (sd_port cfg)"
  have "gs = map (peer_group cfg ?port) (chosen_peers ?port peers) @
      map (\<lambda>l. lighthouse_group cfg ?port (lighthouse_host l) l) (chosen_lighthouses ?port peers ls)"
    using target_groups_Inr [OF assms(1)] by (simp add: Let_def)
  with assms(2) consider p where "p \<in> set (chosen_peers ?port peers)" "g = peer_group cfg ?port p"
    | l where "l \<in> set (chosen_lighthouses ?port peers ls)"
        "g = lighthouse_group cfg ?port (lighthouse_host l) l"
    by auto
  then show ?thesis
  proof cases
    case 1
    then have "t = peer_target ?port p" using assms(3) by simp
    moreover have "peer_target ?port p \<in> peer_target ?port ` {p \<in> set peers. pp_primary p \<noteq> []}"
      using 1(1) chosen_peers_targets by blast
    ultimately show ?thesis using 1 by (simp add: peer_group_labels)
  next
    case 2
    then have t: "t = lighthouse_target ?port l" using assms(3) by simp
    then have "t \<notin> peer_target ?port ` {p \<in> set peers. pp_primary p \<noteq> []}"
      using chosen_disjoint [OF 2(1)] by (simp add: chosen_peers_targets)
    with 2 t show ?thesis by (simp add: lighthouse_group_labels lighthouse_target_def)
  qed
qed

lemma sd_peers_win_witness:
  "tg_labels (peer_group sample_sd (Itoa 4242) sample_peer) ''__meta_nebula_source'' = Some ''present_peer''"
proof -
  obtain gs where g: "prometheusTargetGroups sample_sd [sample_lighthouse] [sample_peer] = Inr gs"
    using sample_groups by blast
  have "peer_group sample_sd (Itoa 4242) sample_peer \<in> set gs"
    using target_groups_Inr [OF g] by (simp add: chosen_peers_def Let_def sample_sd_def sample_peer_def)
  moreover have "peer_target (Itoa (sd_port sample_sd)) sample_peer
      \<in> peer_target (Itoa (sd_port sample_sd)) ` {p \<in> set [sample_peer]. pp_primary p \<noteq> []}"
    by (simp add: sample_peer_def)
  ultimately show ?thesis
    using sd_peers_win [OF g _ peer_group_targets [of sample_sd "Itoa 4242" sample_peer]]
    by (simp add: sample_sd_def)
qed

text \<open>C32 Building the groups fails only for a lighthouse address that cannot be split into host
  and port, whatever the peers are.\<close>

theorem sd_fails_iff:
  "isl (prometheusTargetGroups cfg ls peers) \<longleftrightarrow> (\<exists>l \<in> set ls. isl (SplitHostPort (lh_address l)))"
proof -
  have "isl r \<longleftrightarrow> (\<exists>e. r = Inl e)" for r :: "(string \<times> string) result" by (cases r) auto
  moreover have "isl r \<longleftrightarrow> (\<exists>e. r = Inl e)" for r :: "target_group list result" by (cases r) auto
  moreover have "\<not> splits l \<longleftrightarrow> (\<exists>e. SplitHostPort (lh_address l) = Inl e)" for l
    by (cases "SplitHostPort (lh_address l)") (auto simp: splits_def)
  ultimately show ?thesis using target_groups_error [of cfg ls peers] by simp
qed

text \<open>The handler answers 405 to any method but GET and HEAD without asking the store; otherwise
  500 when the store fails or a lighthouse address cannot be split, and 200 with the groups
  (no body for HEAD) in every other case.\<close>

theorem sd_handler_replies:
  "(rs_status (fst (prometheusSDHandler cfg ls list_peers method s)), snd (prometheusSDHandler cfg ls list_peers method s)) =
     (if method \<notin> {''GET'', ''HEAD''} then (405, s)
      else (if isl (fst (list_peers s)) then 500 else if set ls \<subseteq> Collect splits then 200 else 500,
            snd (list_peers s))) \<and>
   (rs_body (fst (prometheusSDHandler cfg ls list_peers method s)) = NoBody \<longleftrightarrow>
     method = ''HEAD'' \<and> \<not> isl (fst (list_peers s)) \<and> set ls \<subseteq> Collect splits)"
proof -
  obtain r s' where l: "list_peers s = (r, s')" by fastforce
  show ?thesis
  proof (cases r)
    case (Inl e)
    with l show ?thesis by (simp add: prometheusSDHandler_def http_error_def)
  next
    case (Inr peers)
    have "isl (prometheusTargetGroups cfg ls peers) \<longleftrightarrow> \<not> set ls \<subseteq> Collect splits"
      using target_groups_error [of cfg ls peers]
      by (cases "prometheusTargetGroups cfg ls peers") auto
    with l Inr show ?thesis
      by (cases "prometheusTargetGroups cfg ls peers") (simp_all add: prometheusSDHandler_def http_error_def)
  qed
qed

end
