(* ===== verification/Database.thy ===== *)
theory Database
  imports Data_Model Complex_Main
begin

text \<open>
  The database the program writes: the tables of \<open>db/migrations/core\<close> as lists of rows in
  insertion order, the parameter structs of \<open>internal/db\<close>, and each SQL statement of
  \<open>internal/db/*.sql.go\<close> as a function on the tables with the constraints of the schema
  (NOT NULL, CHECK, foreign keys, ON DELETE CASCADE, sequences). A nullable column, a
  \<open>pgtype\<close> value and a possibly nil array are options, with None for SQL NULL.

  A statement is sent to a server that may refuse it or whose reply may be lost: the fault
  script of the world says which call meets which fault, so a theorem over all worlds covers
  every pattern of failures, cancellations included. Identifiers are natural numbers drawn
  from sequences, which a rollback does not rewind.
\<close>

section \<open>Parameters and rows\<close>

record CreatePollRunParams =
  cp_started_at :: "int option"
  cp_lighthouse_name :: string
  cp_ssh_target :: string

record CompletePollRunParams =
  co_id :: nat
  co_finished_at :: "int option"
  co_success :: bool
  co_duration_ms :: i64
  co_error :: "string option"
  co_nebula_version :: "string option"
  co_device_name :: "string option"
  co_device_cidrs :: "string slice"
  co_command_count :: i32

record RawParams =
  ra_poll_run_id :: nat
  ra_observed_at :: "int option"
  ra_lighthouse_name :: string
  ra_command :: string
  ra_success :: bool
  ra_duration_ms :: i64
  ra_output :: string
  ra_error :: "string option"

record HostmapParams =
  ho_poll_run_id :: nat
  ho_observed_at :: "int option"
  ho_lighthouse_name :: string
  ho_source :: string
  ho_entry_index :: i32
  ho_vpn_addrs :: "string slice"
  ho_primary_vpn_addr :: "string option"
  ho_local_index :: i64
  ho_remote_index :: i64
  ho_remote_addrs :: "string slice"
  ho_message_counter :: i64
  ho_current_remote :: string
  ho_relays_to_me :: "string slice"
  ho_relays_through_me :: "string slice"
  ho_cert_curve :: "string option"
  ho_cert_name :: "string option"
  ho_cert_fingerprint :: "string option"
  ho_cert_public_key :: "string option"
  ho_cert_signature :: "string option"
  ho_cert_version :: "i32 option"
  ho_cert_groups :: "string slice"
  ho_cert_is_ca :: "bool option"
  ho_cert_issuer :: "string option"
  ho_cert_networks :: "string slice"
  ho_cert_unsafe_networks :: "string slice"
  ho_cert_not_before :: "int option"
  ho_cert_not_after :: "int option"
  ho_raw :: "char slice"

record AddrmapParams =
  ad_poll_run_id :: nat
  ad_observed_at :: "int option"
  ad_lighthouse_name :: string
  ad_vpn_addr :: string
  ad_reporter_vpn_addr :: "string option"
  ad_learned_addrs :: "string slice"
  ad_reported_addrs :: "string slice"
  ad_relay_vpn_addrs :: "string slice"
  ad_raw :: "char slice"

record RelayParams =
  re_poll_run_id :: nat
  re_observed_at :: "int option"
  re_lighthouse_name :: string
  re_relays :: "char slice"

record poll_run =
  po_id :: nat
  po_started_at :: "int option"
  po_finished_at :: "int option"
  po_lighthouse_name :: string
  po_ssh_target :: string
  po_success :: bool
  po_duration_ms :: i64
  po_error :: "string option"
  po_nebula_version :: "string option"
  po_device_name :: "string option"
  po_device_cidrs :: "string slice"
  po_command_count :: i32

record 'p row =
  row_id :: nat
  cols :: 'p

type_synonym hostmap_row = "HostmapParams row"
type_synonym addrmap_row = "AddrmapParams row"
type_synonym raw_row = "RawParams row"
type_synonym relay_row = "RelayParams row"

datatype tbl = PollRuns | RawPayloads | HostmapEntries | AddrmapEntries | RelaySnapshots

fun table_name :: "tbl \<Rightarrow> string" where
  "table_name PollRuns = ''poll_runs''"
| "table_name RawPayloads = ''raw_command_payloads''"
| "table_name HostmapEntries = ''hostmap_entries''"
| "table_name AddrmapEntries = ''lighthouse_addrmap_entries''"
| "table_name RelaySnapshots = ''relay_snapshots''"

section \<open>Materialized views\<close>

text \<open>
  The rows of the views of \<open>db/migrations/views\<close>, with the columns of the \<open>Mnemo\<close>
  structs of \<open>models.go\<close>. Counts are natural numbers and the percentile is a rational.
\<close>

record current_addrmap =
  la_observed_at :: "int option"
  la_lighthouse_name :: string
  la_vpn_addr :: string
  la_reporter_vpn_addr :: "string option"
  la_learned_addrs :: "string slice"
  la_reported_addrs :: "string slice"
  la_relay_vpn_addrs :: "string slice"

record current_peer =
  cu_observed_at :: "int option"
  cu_lighthouse_name :: string
  cu_peer_key :: "string option"
  cu_primary_vpn_addr :: "string option"
  cu_vpn_addrs :: "string slice"
  cu_cert_name :: "string option"
  cu_cert_fingerprint :: "string option"
  cu_cert_groups :: "string slice"
  cu_cert_networks :: "string slice"
  cu_cert_unsafe_networks :: "string slice"
  cu_cert_not_before :: "int option"
  cu_cert_not_after :: "int option"
  cu_current_remote :: string
  cu_remote_addrs :: "string slice"
  cu_message_counter :: i64
  cu_local_index :: i64
  cu_remote_index :: i64
  cu_nebula_version :: "string option"

record lighthouse_disagreement =
  ld_vpn_addr :: string
  ld_lighthouses_reporting :: nat
  ld_distinct_learned_sets :: nat
  ld_learned_by_lighthouse :: "string list"
  ld_latest_observed_at :: "int option"

record cert_inventory =
  ci_observed_at :: "int option"
  ci_peer_key :: "string option"
  ci_primary_vpn_addr :: "string option"
  ci_vpn_addrs :: "string slice"
  ci_cert_name :: "string option"
  ci_cert_fingerprint :: "string option"
  ci_cert_public_key :: "string option"
  ci_cert_groups :: "string slice"
  ci_cert_networks :: "string slice"
  ci_cert_unsafe_networks :: "string slice"
  ci_cert_not_before :: "int option"
  ci_cert_not_after :: "int option"

record poll_health =
  hl_bucket :: "int option"
  hl_lighthouse_name :: string
  hl_polls :: nat
  hl_successful_polls :: nat
  hl_failed_polls :: nat
  hl_p95_duration_ms :: rat
  hl_latest_poll_at :: "int option"

record matviews =
  v_peers :: "current_peer list"
  v_addrmap :: "current_addrmap list"
  v_health :: "poll_health list"
  v_certs :: "cert_inventory list"
  v_disagreement :: "lighthouse_disagreement list"

definition empty_views :: matviews where
  "empty_views = \<lparr>v_peers = [], v_addrmap = [], v_health = [], v_certs = [], v_disagreement = []\<rparr>"

record database =
  t_runs :: "poll_run list"
  t_raw :: "raw_row list"
  t_hostmap :: "hostmap_row list"
  t_addrmap :: "addrmap_row list"
  t_relays :: "relay_row list"
  t_seq :: "tbl \<Rightarrow> nat"
  t_views :: matviews

definition empty_db :: database where
  "empty_db = \<lparr>t_runs = [], t_raw = [], t_hostmap = [], t_addrmap = [], t_relays = [],
     t_seq = (\<lambda>_. 1), t_views = empty_views\<rparr>"

section \<open>Statements on the tables\<close>

text \<open>SQLSTATE of the constraint violations.\<close>

definition not_null_violation :: go_error where "not_null_violation = Pg ''23502''"
definition foreign_key_violation :: go_error where "foreign_key_violation = Pg ''23503''"
definition check_violation :: go_error where "check_violation = Pg ''23514''"

definition bump :: "tbl \<Rightarrow> database \<Rightarrow> database" where
  "bump t d = d\<lparr>t_seq := (t_seq d)(t := Suc (t_seq d t))\<rparr>"

definition run_ids :: "database \<Rightarrow> nat set" where
  "run_ids d = po_id ` set (t_runs d)"

definition new_run :: "nat \<Rightarrow> CreatePollRunParams \<Rightarrow> poll_run" where
  "new_run i a = \<lparr>po_id = i, po_started_at = cp_started_at a, po_finished_at = None,
     po_lighthouse_name = cp_lighthouse_name a, po_ssh_target = cp_ssh_target a,
     po_success = False, po_duration_ms = 0, po_error = None, po_nebula_version = None,
     po_device_name = None, po_device_cidrs = Some [], po_command_count = 0\<rparr>"

definition sql_create_poll_run :: "CreatePollRunParams \<Rightarrow> (database, nat) act" where
  "sql_create_poll_run a d =
     (if cp_started_at a = None then (Inl not_null_violation, bump PollRuns d)
      else (Inr (t_seq d PollRuns),
            (bump PollRuns d)\<lparr>t_runs := t_runs d @ [new_run (t_seq d PollRuns) a]\<rparr>))"

definition complete_run :: "CompletePollRunParams \<Rightarrow> poll_run \<Rightarrow> poll_run" where
  "complete_run a p = p\<lparr>po_finished_at := co_finished_at a, po_success := co_success a,
     po_duration_ms := co_duration_ms a, po_error := co_error a,
     po_nebula_version := co_nebula_version a, po_device_name := co_device_name a,
     po_device_cidrs := co_device_cidrs a, po_command_count := co_command_count a\<rparr>"

definition sql_complete_poll_run :: "CompletePollRunParams \<Rightarrow> (database, unit) act" where
  "sql_complete_poll_run a d =
     (if co_id a \<in> run_ids d \<and> co_device_cidrs a = None then (Inl not_null_violation, d)
      else (Inr (), d\<lparr>t_runs := map (\<lambda>p. if po_id p = co_id a then complete_run a p else p) (t_runs d)\<rparr>))"

text \<open>A row appended under the next identifier of its table.\<close>

definition add_raw :: "RawParams \<Rightarrow> database \<Rightarrow> database" where
  "add_raw a d = (bump RawPayloads d)\<lparr>t_raw := t_raw d @ [\<lparr>row_id = t_seq d RawPayloads, cols = a\<rparr>]\<rparr>"

definition add_hostmap :: "HostmapParams \<Rightarrow> database \<Rightarrow> database" where
  "add_hostmap a d = (bump HostmapEntries d)\<lparr>t_hostmap := t_hostmap d @
     [\<lparr>row_id = t_seq d HostmapEntries, cols = a\<rparr>]\<rparr>"

definition add_addrmap :: "AddrmapParams \<Rightarrow> database \<Rightarrow> database" where
  "add_addrmap a d = (bump AddrmapEntries d)\<lparr>t_addrmap := t_addrmap d @
     [\<lparr>row_id = t_seq d AddrmapEntries, cols = a\<rparr>]\<rparr>"

definition add_relay :: "RelayParams \<Rightarrow> database \<Rightarrow> database" where
  "add_relay a d = (bump RelaySnapshots d)\<lparr>t_relays := t_relays d @
     [\<lparr>row_id = t_seq d RelaySnapshots, cols = a\<rparr>]\<rparr>"

definition sql_insert_raw :: "RawParams \<Rightarrow> (database, unit) act" where
  "sql_insert_raw a d =
     (if ra_observed_at a = None then (Inl not_null_violation, bump RawPayloads d)
      else if ra_poll_run_id a \<notin> run_ids d then (Inl foreign_key_violation, bump RawPayloads d)
      else (Inr (), add_raw a d))"

definition hostmap_not_null :: "HostmapParams \<Rightarrow> bool" where
  "hostmap_not_null a \<longleftrightarrow> ho_observed_at a \<noteq> None \<and> ho_vpn_addrs a \<noteq> None \<and>
     ho_remote_addrs a \<noteq> None \<and> ho_relays_to_me a \<noteq> None \<and> ho_relays_through_me a \<noteq> None \<and>
     ho_cert_groups a \<noteq> None \<and> ho_cert_networks a \<noteq> None \<and> ho_cert_unsafe_networks a \<noteq> None \<and>
     ho_raw a \<noteq> None"

definition sql_insert_hostmap :: "HostmapParams \<Rightarrow> (database, unit) act" where
  "sql_insert_hostmap a d =
     (if \<not> hostmap_not_null a then (Inl not_null_violation, bump HostmapEntries d)
      else if ho_source a \<notin> {''hostmap'', ''pending'', ''tunnel''} then (Inl check_violation, bump HostmapEntries d)
      else if ho_poll_run_id a \<notin> run_ids d then (Inl foreign_key_violation, bump HostmapEntries d)
      else (Inr (), add_hostmap a d))"

definition addrmap_not_null :: "AddrmapParams \<Rightarrow> bool" where
  "addrmap_not_null a \<longleftrightarrow> ad_observed_at a \<noteq> None \<and> ad_learned_addrs a \<noteq> None \<and>
     ad_reported_addrs a \<noteq> None \<and> ad_relay_vpn_addrs a \<noteq> None \<and> ad_raw a \<noteq> None"

definition sql_insert_addrmap :: "AddrmapParams \<Rightarrow> (database, unit) act" where
  "sql_insert_addrmap a d =
     (if \<not> addrmap_not_null a then (Inl not_null_violation, bump AddrmapEntries d)
      else if ad_poll_run_id a \<notin> run_ids d then (Inl foreign_key_violation, bump AddrmapEntries d)
      else (Inr (), add_addrmap a d))"

definition sql_insert_relay :: "RelayParams \<Rightarrow> (database, unit) act" where
  "sql_insert_relay a d =
     (if re_observed_at a = None \<or> re_relays a = None then (Inl not_null_violation, bump RelaySnapshots d)
      else if re_poll_run_id a \<notin> run_ids d then (Inl foreign_key_violation, bump RelaySnapshots d)
      else (Inr (), add_relay a d))"

text \<open>Comparison with a cutoff: SQL's \<open><\<close> is not true of NULL.\<close>

definition ts_before :: "int option \<Rightarrow> int option \<Rightarrow> bool" where
  "ts_before t c \<longleftrightarrow> (case (t, c) of (Some x, Some y) \<Rightarrow> x < y | _ \<Rightarrow> False)"

text \<open>Ascending order of timestamps, NULLs last; descending is the converse.\<close>

definition ts_le :: "int option \<Rightarrow> int option \<Rightarrow> bool" where
  "ts_le t u \<longleftrightarrow> (case (t, u) of (_, None) \<Rightarrow> True | (None, Some _) \<Rightarrow> False | (Some x, Some y) \<Rightarrow> x \<le> y)"

definition sql_list_expired :: "int option \<Rightarrow> nat \<Rightarrow> (database, nat list) act" where
  "sql_list_expired cutoff limit d =
     (Inr (map po_id (take limit (order_by (\<lambda>p q. ts_le (po_started_at p) (po_started_at q))
        (filter (\<lambda>p. ts_before (po_started_at p) cutoff) (t_runs d))))), d)"

definition delete_runs :: "nat set \<Rightarrow> database \<Rightarrow> database" where
  "delete_runs ids d = d\<lparr>t_runs := filter (\<lambda>p. po_id p \<notin> ids) (t_runs d),
     t_raw := filter (\<lambda>r. ra_poll_run_id (cols r) \<notin> ids) (t_raw d),
     t_hostmap := filter (\<lambda>r. ho_poll_run_id (cols r) \<notin> ids) (t_hostmap d),
     t_addrmap := filter (\<lambda>r. ad_poll_run_id (cols r) \<notin> ids) (t_addrmap d),
     t_relays := filter (\<lambda>r. re_poll_run_id (cols r) \<notin> ids) (t_relays d)\<rparr>"

definition sql_delete_poll_runs :: "nat list \<Rightarrow> (database, nat) act" where
  "sql_delete_poll_runs ids d =
     (Inr (length (filter (\<lambda>p. po_id p \<in> set ids) (t_runs d))), delete_runs (set ids) d)"

definition sql_delete_expired_raw :: "int option \<Rightarrow> nat \<Rightarrow> (database, nat) act" where
  "sql_delete_expired_raw cutoff limit d =
     (let expired = (\<lambda>r. ts_before (ra_observed_at (cols r)) cutoff);
          ids = row_id ` set (take limit (order_by
            (\<lambda>r s. ts_le (ra_observed_at (cols r)) (ra_observed_at (cols s)))
            (filter expired (t_raw d))));
          hit = (\<lambda>r. expired r \<and> row_id r \<in> ids)
      in (Inr (length (filter hit (t_raw d))), d\<lparr>t_raw := filter (\<lambda>r. \<not> hit r) (t_raw d)\<rparr>))"

section \<open>Present peers\<close>

record peer_row =
  pe_observed_at :: "int option"
  pe_lighthouse_name :: string
  pe_peer_key :: string
  pe_primary_vpn_addr :: "string option"
  pe_vpn_addrs :: "string slice"
  pe_cert_name :: "string option"
  pe_cert_fingerprint :: "string option"
  pe_cert_groups :: "string slice"
  pe_nebula_version :: "string option"

text \<open>
  Text is compared under the database's collation, a parameter \<open>coll\<close>: a total order of
  strings.
\<close>

definition run_order :: "(string \<Rightarrow> string \<Rightarrow> bool) \<Rightarrow> poll_run \<Rightarrow> poll_run \<Rightarrow> bool" where
  "run_order coll p q \<longleftrightarrow>
     (if po_lighthouse_name p \<noteq> po_lighthouse_name q
      then coll (po_lighthouse_name p) (po_lighthouse_name q)
      else if po_started_at p \<noteq> po_started_at q then ts_le (po_started_at q) (po_started_at p)
      else po_id q \<le> po_id p)"

definition latest_polls :: "(string \<Rightarrow> string \<Rightarrow> bool) \<Rightarrow> database \<Rightarrow> poll_run list" where
  "latest_polls coll d = rank1 po_lighthouse_name (run_order coll) (filter po_success (t_runs d))"

definition coalesce :: "string option \<Rightarrow> string \<Rightarrow> string" where
  "coalesce x y = (case x of Some v \<Rightarrow> v | None \<Rightarrow> y)"

definition peer_key :: "HostmapParams \<Rightarrow> string" where
  "peer_key h = coalesce (ho_cert_fingerprint h) (coalesce (ho_primary_vpn_addr h)
     (Itoa (sint (ho_local_index h)) @ '':'' @ Itoa (sint (ho_remote_index h))))"

definition present_rows ::
  "(string \<Rightarrow> string \<Rightarrow> bool) \<Rightarrow> database \<Rightarrow> (poll_run \<times> HostmapParams) list" where
  "present_rows coll d =
     [(p, cols h). p \<leftarrow> latest_polls coll d,
        h \<leftarrow> filter (\<lambda>h. ho_poll_run_id (cols h) = po_id p \<and> ho_source (cols h) = ''hostmap'' \<and>
                        ho_primary_vpn_addr (cols h) \<noteq> None \<and>
                        ho_primary_vpn_addr (cols h) \<noteq> Some []) (t_hostmap d)]"

definition sighting_order ::
  "(string \<Rightarrow> string \<Rightarrow> bool) \<Rightarrow> poll_run \<times> HostmapParams \<Rightarrow> poll_run \<times> HostmapParams \<Rightarrow> bool" where
  "sighting_order coll x y \<longleftrightarrow>
     (let h = snd x; k = snd y in
      if ho_observed_at h \<noteq> ho_observed_at k then ts_le (ho_observed_at k) (ho_observed_at h)
      else if ho_lighthouse_name h \<noteq> ho_lighthouse_name k
      then coll (ho_lighthouse_name h) (ho_lighthouse_name k)
      else sint (ho_entry_index h) \<le> sint (ho_entry_index k))"

definition to_peer_row :: "poll_run \<times> HostmapParams \<Rightarrow> peer_row" where
  "to_peer_row x = (let h = snd x in
     \<lparr>pe_observed_at = ho_observed_at h, pe_lighthouse_name = ho_lighthouse_name h,
      pe_peer_key = peer_key h, pe_primary_vpn_addr = ho_primary_vpn_addr h,
      pe_vpn_addrs = ho_vpn_addrs h, pe_cert_name = ho_cert_name h,
      pe_cert_fingerprint = ho_cert_fingerprint h, pe_cert_groups = ho_cert_groups h,
      pe_nebula_version = po_nebula_version (fst x)\<rparr>)"

definition peer_order :: "(string \<Rightarrow> string \<Rightarrow> bool) \<Rightarrow> peer_row \<Rightarrow> peer_row \<Rightarrow> bool" where
  "peer_order coll r s \<longleftrightarrow>
     (let a = coalesce (pe_cert_name r) (coalesce (pe_primary_vpn_addr r) []);
          b = coalesce (pe_cert_name s) (coalesce (pe_primary_vpn_addr s) []) in
      if a \<noteq> b then coll a b
      else coll (coalesce (pe_primary_vpn_addr r) []) (coalesce (pe_primary_vpn_addr s) []))"

definition sql_list_present_peers ::
  "(string \<Rightarrow> string \<Rightarrow> bool) \<Rightarrow> (database, peer_row list) act" where
  "sql_list_present_peers coll d =
     (Inr (order_by (peer_order coll)
        (map to_peer_row (rank1 (peer_key \<circ> snd) (sighting_order coll) (present_rows coll d)))), d)"

section \<open>The connection\<close>

datatype fault = Refused go_error | ReplyLost go_error

record world =
  tables :: database
  faults :: "nat \<Rightarrow> fault option"
  calls :: nat

definition tick :: "world \<Rightarrow> world" where
  "tick w = w\<lparr>calls := Suc (calls w)\<rparr>"

definition exec :: "(database, 'a) act \<Rightarrow> (world, 'a) act" where
  "exec stmt w = (case faults w (calls w) of
       Some (Refused e) \<Rightarrow> (Inl e, tick w)
     | Some (ReplyLost e) \<Rightarrow> (Inl e, (tick w)\<lparr>tables := snd (stmt (tables w))\<rparr>)
     | None \<Rightarrow> (case stmt (tables w) of (r, d) \<Rightarrow> (r, (tick w)\<lparr>tables := d\<rparr>)))"

definition CreatePollRun :: "CreatePollRunParams \<Rightarrow> (world, nat) act" where
  "CreatePollRun a = exec (sql_create_poll_run a)"

definition CompletePollRun :: "CompletePollRunParams \<Rightarrow> (world, unit) act" where
  "CompletePollRun a = exec (sql_complete_poll_run a)"

definition InsertRawCommandPayload :: "RawParams \<Rightarrow> (world, unit) act" where
  "InsertRawCommandPayload a = exec (sql_insert_raw a)"

definition InsertHostmapEntry :: "HostmapParams \<Rightarrow> (world, unit) act" where
  "InsertHostmapEntry a = exec (sql_insert_hostmap a)"

definition InsertLighthouseAddrmapEntry :: "AddrmapParams \<Rightarrow> (world, unit) act" where
  "InsertLighthouseAddrmapEntry a = exec (sql_insert_addrmap a)"

definition InsertRelaySnapshot :: "RelayParams \<Rightarrow> (world, unit) act" where
  "InsertRelaySnapshot a = exec (sql_insert_relay a)"

definition ListExpiredPollRunIDs :: "int option \<Rightarrow> i32 \<Rightarrow> (world, nat list) act" where
  "ListExpiredPollRunIDs started_at limit = exec (sql_list_expired started_at (nat (sint limit)))"

definition DeletePollRuns :: "nat list \<Rightarrow> (world, nat) act" where
  "DeletePollRuns ids = exec (sql_delete_poll_runs ids)"

definition DeleteExpiredRaw :: "int option \<Rightarrow> i32 \<Rightarrow> (world, nat) act" where
  "DeleteExpiredRaw cutoff batch = exec (sql_delete_expired_raw cutoff (nat (sint batch)))"

definition ListPresentPeers :: "(string \<Rightarrow> string \<Rightarrow> bool) \<Rightarrow> (world, peer_row list) act" where
  "ListPresentPeers coll = exec (sql_list_present_peers coll)"

lemmas query_defs = CreatePollRun_def CompletePollRun_def InsertRawCommandPayload_def
  InsertHostmapEntry_def InsertLighthouseAddrmapEntry_def InsertRelaySnapshot_def
  ListExpiredPollRunIDs_def DeletePollRuns_def DeleteExpiredRaw_def ListPresentPeers_def

text \<open>The interface of the queries and its implementation.\<close>

record 's Querier =
  q_CompletePollRun :: "CompletePollRunParams \<Rightarrow> ('s, unit) act"
  q_CreatePollRun :: "CreatePollRunParams \<Rightarrow> ('s, nat) act"
  q_DeleteExpiredRaw :: "int option \<Rightarrow> i32 \<Rightarrow> ('s, nat) act"
  q_DeletePollRuns :: "nat list \<Rightarrow> ('s, nat) act"
  q_InsertHostmapEntry :: "HostmapParams \<Rightarrow> ('s, unit) act"
  q_InsertLighthouseAddrmapEntry :: "AddrmapParams \<Rightarrow> ('s, unit) act"
  q_InsertRawCommandPayload :: "RawParams \<Rightarrow> ('s, unit) act"
  q_InsertRelaySnapshot :: "RelayParams \<Rightarrow> ('s, unit) act"
  q_ListExpiredPollRunIDs :: "int option \<Rightarrow> i32 \<Rightarrow> ('s, nat list) act"
  q_ListPresentPeers :: "('s, peer_row list) act"

definition Queries :: "(string \<Rightarrow> string \<Rightarrow> bool) \<Rightarrow> world Querier" where
  "Queries coll = \<lparr>q_CompletePollRun = CompletePollRun, q_CreatePollRun = CreatePollRun,
     q_DeleteExpiredRaw = DeleteExpiredRaw, q_DeletePollRuns = DeletePollRuns,
     q_InsertHostmapEntry = InsertHostmapEntry, q_InsertLighthouseAddrmapEntry = InsertLighthouseAddrmapEntry,
     q_InsertRawCommandPayload = InsertRawCommandPayload, q_InsertRelaySnapshot = InsertRelaySnapshot,
     q_ListExpiredPollRunIDs = ListExpiredPollRunIDs, q_ListPresentPeers = ListPresentPeers coll\<rparr>"

end
