(* ===== verification/Integrity.thy ===== *)
theory Integrity
  imports Database
begin

text \<open>
  The invariant the schema and its sequences keep, statement by statement: identifiers are
  distinct and below the sequence, every child row has its poll run, and NOT NULL and CHECK
  columns hold admissible values. \<open>safe_step\<close> is the relation between the worlds before
  and after a call that keeps it; it is a \<open>state_frame\<close>, so composed calls keep it too.
\<close>

definition ids_ok :: "database \<Rightarrow> bool" where
  "ids_ok d \<longleftrightarrow> distinct (map po_id (t_runs d)) \<and> (\<forall>i \<in> run_ids d. i < t_seq d PollRuns) \<and>
     distinct (map row_id (t_raw d)) \<and> (\<forall>r \<in> set (t_raw d). row_id r < t_seq d RawPayloads)"

definition foreign_keys_ok :: "database \<Rightarrow> bool" where
  "foreign_keys_ok d \<longleftrightarrow>
     (\<forall>r \<in> set (t_raw d). ra_poll_run_id (cols r) \<in> run_ids d) \<and>
     (\<forall>r \<in> set (t_hostmap d). ho_poll_run_id (cols r) \<in> run_ids d) \<and>
     (\<forall>r \<in> set (t_addrmap d). ad_poll_run_id (cols r) \<in> run_ids d) \<and>
     (\<forall>r \<in> set (t_relays d). re_poll_run_id (cols r) \<in> run_ids d)"

definition columns_ok :: "database \<Rightarrow> bool" where
  "columns_ok d \<longleftrightarrow>
     (\<forall>p \<in> set (t_runs d). po_started_at p \<noteq> None \<and> po_device_cidrs p \<noteq> None) \<and>
     (\<forall>r \<in> set (t_raw d). ra_observed_at (cols r) \<noteq> None) \<and>
     (\<forall>r \<in> set (t_hostmap d). hostmap_not_null (cols r) \<and>
        ho_source (cols r) \<in> {''hostmap'', ''pending'', ''tunnel''}) \<and>
     (\<forall>r \<in> set (t_addrmap d). addrmap_not_null (cols r)) \<and>
     (\<forall>r \<in> set (t_relays d). re_observed_at (cols r) \<noteq> None \<and> re_relays (cols r) \<noteq> None)"

definition integrity :: "database \<Rightarrow> bool" where
  "integrity d \<longleftrightarrow> ids_ok d \<and> foreign_keys_ok d \<and> columns_ok d"

lemmas integrity_defs = integrity_def ids_ok_def foreign_keys_ok_def columns_ok_def

lemma integrity_empty: "integrity empty_db"
  by (simp add: integrity_defs empty_db_def run_ids_def)

lemma ts_le_refl [simp]: "ts_le t t"
  by (simp add: ts_le_def split: option.splits)

lemma bump_sel [simp]:
  "t_runs (bump t d) = t_runs d" "t_raw (bump t d) = t_raw d"
  "t_hostmap (bump t d) = t_hostmap d" "t_addrmap (bump t d) = t_addrmap d"
  "t_relays (bump t d) = t_relays d" "t_seq (bump t d) = (t_seq d)(t := Suc (t_seq d t))"
  "run_ids (bump t d) = run_ids d" "t_views (bump t d) = t_views d"
  by (simp_all add: bump_def run_ids_def)

lemma add_raw_sel [simp]:
  "t_runs (add_raw a d) = t_runs d" "t_hostmap (add_raw a d) = t_hostmap d"
  "t_addrmap (add_raw a d) = t_addrmap d" "t_relays (add_raw a d) = t_relays d"
  "t_raw (add_raw a d) = t_raw d @ [\<lparr>row_id = t_seq d RawPayloads, cols = a\<rparr>]"
  "t_seq (add_raw a d) = (t_seq d)(RawPayloads := Suc (t_seq d RawPayloads))"
  "run_ids (add_raw a d) = run_ids d" "t_views (add_raw a d) = t_views d"
  by (simp_all add: add_raw_def run_ids_def)

lemma add_hostmap_sel [simp]:
  "t_runs (add_hostmap h d) = t_runs d" "t_raw (add_hostmap h d) = t_raw d"
  "t_addrmap (add_hostmap h d) = t_addrmap d" "t_relays (add_hostmap h d) = t_relays d"
  "t_hostmap (add_hostmap h d) = t_hostmap d @ [\<lparr>row_id = t_seq d HostmapEntries, cols = h\<rparr>]"
  "t_seq (add_hostmap h d) = (t_seq d)(HostmapEntries := Suc (t_seq d HostmapEntries))"
  "run_ids (add_hostmap h d) = run_ids d" "t_views (add_hostmap h d) = t_views d"
  by (simp_all add: add_hostmap_def run_ids_def)

lemma add_addrmap_sel [simp]:
  "t_runs (add_addrmap b d) = t_runs d" "t_raw (add_addrmap b d) = t_raw d"
  "t_hostmap (add_addrmap b d) = t_hostmap d" "t_relays (add_addrmap b d) = t_relays d"
  "t_addrmap (add_addrmap b d) = t_addrmap d @ [\<lparr>row_id = t_seq d AddrmapEntries, cols = b\<rparr>]"
  "t_seq (add_addrmap b d) = (t_seq d)(AddrmapEntries := Suc (t_seq d AddrmapEntries))"
  "run_ids (add_addrmap b d) = run_ids d" "t_views (add_addrmap b d) = t_views d"
  by (simp_all add: add_addrmap_def run_ids_def)

lemma add_relay_sel [simp]:
  "t_runs (add_relay c d) = t_runs d" "t_raw (add_relay c d) = t_raw d"
  "t_hostmap (add_relay c d) = t_hostmap d" "t_addrmap (add_relay c d) = t_addrmap d"
  "t_relays (add_relay c d) = t_relays d @ [\<lparr>row_id = t_seq d RelaySnapshots, cols = c\<rparr>]"
  "t_seq (add_relay c d) = (t_seq d)(RelaySnapshots := Suc (t_seq d RelaySnapshots))"
  "run_ids (add_relay c d) = run_ids d" "t_views (add_relay c d) = t_views d"
  by (simp_all add: add_relay_def run_ids_def)

lemma po_id_complete_run [simp]: "po_id (complete_run a p) = po_id p"
  by (simp add: complete_run_def)

lemma po_started_complete_run [simp]: "po_started_at (complete_run a p) = po_started_at p"
  by (simp add: complete_run_def)

section \<open>Every statement keeps it\<close>

definition safe_stmt :: "(database, 'a) act \<Rightarrow> bool" where
  "safe_stmt stmt \<longleftrightarrow> (\<forall>d. (integrity d \<longrightarrow> integrity (snd (stmt d))) \<and>
     (\<forall>t. t_seq d t \<le> t_seq (snd (stmt d)) t))"

lemma integrity_bump: "integrity d \<Longrightarrow> integrity (bump t d)"
  by (cases t) (auto simp: integrity_defs less_Suc_eq)

lemma safe_create [inv_intros]: "safe_stmt (sql_create_poll_run a)"
proof -
  have "integrity (snd (sql_create_poll_run a d))" if "integrity d" for d
    using that integrity_bump [OF that, of PollRuns]
    by (auto simp: sql_create_poll_run_def new_run_def integrity_defs run_ids_def less_Suc_eq
        dest: spec)
  then show ?thesis by (simp add: safe_stmt_def sql_create_poll_run_def)
qed

lemma map_po_id_complete:
  "map (po_id \<circ> (\<lambda>p. if po_id p = i then complete_run a p else p)) ps = map po_id ps"
  by (induction ps) auto

lemma run_ids_complete:
  "run_ids (d\<lparr>t_runs := map (\<lambda>p. if po_id p = i then complete_run a p else p) (t_runs d)\<rparr>) = run_ids d"
  unfolding run_ids_def list.set_map [symmetric]
  by (rule arg_cong [where f = set]) (simp add: map_po_id_complete)

lemma safe_complete [inv_intros]: "safe_stmt (sql_complete_poll_run a)"
proof -
  have "integrity (snd (sql_complete_poll_run a d))" if "integrity d" for d
    using that
    by (auto simp: sql_complete_poll_run_def integrity_defs run_ids_complete map_po_id_complete
        complete_run_def split: if_splits) (metis imageI run_ids_def)
  then show ?thesis by (simp add: safe_stmt_def sql_complete_poll_run_def)
qed

lemma safe_insert_raw [inv_intros]: "safe_stmt (sql_insert_raw a)"
proof -
  have "integrity (snd (sql_insert_raw a d))" if "integrity d" for d
    using that integrity_bump [OF that, of RawPayloads]
    by (auto simp: sql_insert_raw_def integrity_defs less_Suc_eq)
  then show ?thesis by (simp add: safe_stmt_def sql_insert_raw_def)
qed

lemma safe_insert_hostmap [inv_intros]: "safe_stmt (sql_insert_hostmap a)"
proof -
  have "integrity (snd (sql_insert_hostmap a d))" if "integrity d" for d
    using that integrity_bump [OF that, of HostmapEntries]
    by (auto simp: sql_insert_hostmap_def integrity_defs)
  then show ?thesis by (simp add: safe_stmt_def sql_insert_hostmap_def)
qed

lemma safe_insert_addrmap [inv_intros]: "safe_stmt (sql_insert_addrmap a)"
proof -
  have "integrity (snd (sql_insert_addrmap a d))" if "integrity d" for d
    using that integrity_bump [OF that, of AddrmapEntries]
    by (auto simp: sql_insert_addrmap_def integrity_defs)
  then show ?thesis by (simp add: safe_stmt_def sql_insert_addrmap_def)
qed

lemma safe_insert_relay [inv_intros]: "safe_stmt (sql_insert_relay a)"
proof -
  have "integrity (snd (sql_insert_relay a d))" if "integrity d" for d
    using that integrity_bump [OF that, of RelaySnapshots]
    by (auto simp: sql_insert_relay_def integrity_defs)
  then show ?thesis by (simp add: safe_stmt_def sql_insert_relay_def)
qed

lemma run_ids_delete: "run_ids (delete_runs ids d) = run_ids d - ids"
  by (auto simp: run_ids_def delete_runs_def)

lemma delete_runs_sel [simp]:
  "t_runs (delete_runs ids d) = filter (\<lambda>p. po_id p \<notin> ids) (t_runs d)"
  "t_raw (delete_runs ids d) = filter (\<lambda>r. ra_poll_run_id (cols r) \<notin> ids) (t_raw d)"
  "t_hostmap (delete_runs ids d) = filter (\<lambda>r. ho_poll_run_id (cols r) \<notin> ids) (t_hostmap d)"
  "t_addrmap (delete_runs ids d) = filter (\<lambda>r. ad_poll_run_id (cols r) \<notin> ids) (t_addrmap d)"
  "t_relays (delete_runs ids d) = filter (\<lambda>r. re_poll_run_id (cols r) \<notin> ids) (t_relays d)"
  "t_seq (delete_runs ids d) = t_seq d" "t_views (delete_runs ids d) = t_views d"
  by (simp_all add: delete_runs_def)

lemma integrity_delete:
  assumes "integrity d"
  shows "integrity (delete_runs ids d)"
proof -
  have "ids_ok (delete_runs ids d)"
    using assms by (simp add: integrity_def ids_ok_def run_ids_delete distinct_map_filter)
  moreover have "foreign_keys_ok (delete_runs ids d)"
    using assms by (simp add: integrity_def foreign_keys_ok_def run_ids_delete)
  moreover have "columns_ok (delete_runs ids d)"
    using assms by (simp add: integrity_def columns_ok_def)
  ultimately show ?thesis by (simp add: integrity_def)
qed

lemma safe_list_expired [inv_intros]: "safe_stmt (sql_list_expired c n)"
  by (simp add: safe_stmt_def sql_list_expired_def)

lemma safe_delete_runs [inv_intros]: "safe_stmt (sql_delete_poll_runs ids)"
  by (simp add: safe_stmt_def sql_delete_poll_runs_def integrity_delete)

lemma integrity_shrink_raw: "integrity d \<Longrightarrow> integrity (d\<lparr>t_raw := filter P (t_raw d)\<rparr>)"
  by (auto simp: integrity_defs run_ids_def distinct_map_filter)

lemma safe_delete_raw [inv_intros]: "safe_stmt (sql_delete_expired_raw c n)"
  by (simp add: safe_stmt_def sql_delete_expired_raw_def Let_def integrity_shrink_raw)

lemma safe_list_present [inv_intros]: "safe_stmt (sql_list_present_peers coll)"
  by (simp add: safe_stmt_def sql_list_present_peers_def)

section \<open>Calls\<close>

definition safe_step :: "world \<Rightarrow> world \<Rightarrow> bool" where
  "safe_step w w' \<longleftrightarrow> (integrity (tables w) \<longrightarrow> integrity (tables w')) \<and>
     (\<forall>t. t_seq (tables w) t \<le> t_seq (tables w') t) \<and> faults w' = faults w \<and> calls w \<le> calls w'"

interpretation sf: state_frame safe_step
  by unfold_locales (auto simp: safe_step_def intro: order_trans)

lemma tick_sel [simp]: "tables (tick w) = tables w" "faults (tick w) = faults w"
    "calls (tick w) = Suc (calls w)"
  by (simp_all add: tick_def)

lemma keeps_exec [inv_intros]: "safe_stmt stmt \<Longrightarrow> keeps safe_step (exec stmt)"
  by (auto simp: keeps_def safe_step_def safe_stmt_def exec_def split: option.splits fault.splits prod.splits)
     (metis snd_conv)+

lemma exec_ok: "exec stmt w = (Inr x, w') \<Longrightarrow> stmt (tables w) = (Inr x, tables w') \<and>
    faults w (calls w) = None \<and> calls w' = Suc (calls w) \<and> faults w' = faults w"
  by (auto simp: exec_def split: option.splits fault.splits prod.splits)

lemma exec_healthy:
  "faults w (calls w) = None \<Longrightarrow> stmt (tables w) = (r, d) \<Longrightarrow> exec stmt w = (r, (tick w)\<lparr>tables := d\<rparr>)"
  by (simp add: exec_def)

text \<open>A call changes the tables by its statement or not at all.\<close>

lemma exec_tables: "tables (snd (exec stmt w)) \<in> {tables w, snd (stmt (tables w))}"
  by (auto simp: exec_def split: option.splits fault.splits prod.splits)

lemma faults_exec [simp]: "faults (snd (exec stmt w)) = faults w"
  by (auto simp: exec_def split: option.splits fault.splits prod.splits)

section \<open>The interface of the queries\<close>

text \<open>The contract of a \<open>Querier\<close>: every query keeps a relation between the states before and after.\<close>

locale framed_querier =
  fixes q :: "'s Querier" and R :: "'s \<Rightarrow> 's \<Rightarrow> bool"
  assumes writes: "keeps R (q_CompletePollRun q a)" "keeps R (q_CreatePollRun q b)"
      "keeps R (q_InsertHostmapEntry q h)" "keeps R (q_InsertLighthouseAddrmapEntry q m)"
      "keeps R (q_InsertRawCommandPayload q p)" "keeps R (q_InsertRelaySnapshot q s)"
    and deletes: "keeps R (q_DeleteExpiredRaw q cutoff n)" "keeps R (q_DeletePollRuns q ids)"
    and reads: "keeps R (q_ListExpiredPollRunIDs q cutoff n)" "keeps R (q_ListPresentPeers q)"

interpretation safe: framed_querier "Queries coll" safe_step for coll
  by unfold_locales (simp_all add: Queries_def query_defs inv_intros)

lemmas keeps_queries [inv_intros] = safe.writes [unfolded Queries_def Querier.simps]
  safe.deletes [unfolded Queries_def Querier.simps] safe.reads [unfolded Queries_def Querier.simps]

end
