(* ===== verification/Storage.thy ===== *)
theory Storage
  imports Integrity
begin

text \<open>
  \<open>internal/storage\<close>: the store. \<open>SavePollResult\<close> is one transaction: \<open>BEGIN\<close>, the
  inserts in the order of the code, \<open>COMMIT\<close>, with the deferred rollback on every other
  exit. Only \<open>json.Marshal\<close> of an entry without a raw document is a parameter
  (\<open>marshal\<close>). The theory shows that a successful save is one batch of rows
  (\<open>saved_db\<close>), that a failed one leaves no row, and that it keeps \<open>integrity\<close>.
\<close>

section \<open>Encoding of column values\<close>

definition timestamptz :: "gotime \<Rightarrow> int option" where
  "timestamptz t = (if time_is_zero t then None else Some (wall (time_utc t)))"

definition nullableTime :: "gotime \<Rightarrow> int option" where
  "nullableTime t = (if time_is_zero t then None else Some (wall (time_utc t)))"

definition nullableString :: "string \<Rightarrow> string option" where
  "nullableString s = (if s = [] then None else Some s)"

definition textValue :: "string option \<Rightarrow> string" where
  "textValue v = (case v of None \<Rightarrow> [] | Some s \<Rightarrow> s)"

definition nullableError :: "go_error option \<Rightarrow> string option" where
  "nullableError err = (case err of None \<Rightarrow> None | Some e \<Rightarrow> Some (error_text e))"

text \<open>Go's division truncates towards zero.\<close>

definition go_quot :: "int \<Rightarrow> int \<Rightarrow> int" where
  "go_quot a b = sgn a * sgn b * (\<bar>a\<bar> div \<bar>b\<bar>)"

definition millis :: "i64 \<Rightarrow> i64" where
  "millis d = word_of_int (go_quot (sint d) 1000000)"

definition nonNil :: "string slice \<Rightarrow> string slice" where
  "nonNil vs = (case vs of None \<Rightarrow> Some [] | Some xs \<Rightarrow> Some xs)"

definition uint64ToInt64 :: "u64 \<Rightarrow> i64" where
  "uint64ToInt64 v = (if v > 9223372036854775807 then 9223372036854775807 else v)"

lemma nonNil_not_None [simp]: "nonNil v \<noteq> None" "elems (nonNil v) = elems v"
  by (simp_all add: nonNil_def split: option.splits)

section \<open>Rows of a poll result\<close>

definition raw_params :: "nat \<Rightarrow> PollResult \<Rightarrow> CommandResult \<Rightarrow> RawParams" where
  "raw_params run r c = \<lparr>ra_poll_run_id = run, ra_observed_at = timestamptz (cr_started c),
     ra_lighthouse_name = lh_name (pr_lighthouse r), ra_command = cr_command c,
     ra_success = cr_success c, ra_duration_ms = millis (cr_duration c),
     ra_output = cr_output c, ra_error = nullableError (cr_err c)\<rparr>"

definition hostmap_base :: "nat \<Rightarrow> PollResult \<Rightarrow> string \<Rightarrow> nat \<Rightarrow> HostmapEntry \<Rightarrow> char slice \<Rightarrow> HostmapParams" where
  "hostmap_base run r source i e raw = \<lparr>ho_poll_run_id = run,
     ho_observed_at = timestamptz (pr_started r),
     ho_lighthouse_name = lh_name (pr_lighthouse r),
     ho_source = source, ho_entry_index = word_of_nat i,
     ho_vpn_addrs = nonNil (he_vpn_addrs e),
     ho_primary_vpn_addr = nullableString (PrimaryVPNAddr e),
     ho_local_index = ucast (he_local_index e), ho_remote_index = ucast (he_remote_index e),
     ho_remote_addrs = nonNil (he_remote_addrs e),
     ho_message_counter = uint64ToInt64 (he_message_counter e),
     ho_current_remote = he_current_remote e,
     ho_relays_to_me = nonNil (he_relays_to_me e),
     ho_relays_through_me = nonNil (he_relays_through_me e),
     ho_cert_curve = None, ho_cert_name = None, ho_cert_fingerprint = None,
     ho_cert_public_key = None, ho_cert_signature = None, ho_cert_version = None,
     ho_cert_groups = Some [], ho_cert_is_ca = None, ho_cert_issuer = None,
     ho_cert_networks = Some [], ho_cert_unsafe_networks = Some [],
     ho_cert_not_before = None, ho_cert_not_after = None, ho_raw = raw\<rparr>"

definition with_cert :: "Certificate \<Rightarrow> HostmapParams \<Rightarrow> HostmapParams" where
  "with_cert c p = p\<lparr>ho_cert_curve := nullableString (ce_curve c),
     ho_cert_name := nullableString (cd_name (ce_details c)),
     ho_cert_fingerprint := nullableString (ce_fingerprint c),
     ho_cert_public_key := nullableString (ce_public_key c),
     ho_cert_signature := nullableString (ce_signature c),
     ho_cert_version := Some (ce_version c),
     ho_cert_groups := nonNil (cd_groups (ce_details c)),
     ho_cert_is_ca := Some (cd_is_ca (ce_details c)),
     ho_cert_issuer := nullableString (cd_issuer (ce_details c)),
     ho_cert_networks := nonNil (cd_networks (ce_details c)),
     ho_cert_unsafe_networks := nonNil (cd_unsafe_networks (ce_details c)),
     ho_cert_not_before := nullableTime (cd_not_before (ce_details c)),
     ho_cert_not_after := nullableTime (cd_not_after (ce_details c))\<rparr>"

definition hostmap_params :: "nat \<Rightarrow> PollResult \<Rightarrow> string \<Rightarrow> nat \<Rightarrow> HostmapEntry \<Rightarrow> char slice \<Rightarrow> HostmapParams" where
  "hostmap_params run r source i e raw =
     (case he_cert e of
        None \<Rightarrow> hostmap_base run r source i e raw
      | Some c \<Rightarrow> with_cert c (hostmap_base run r source i e raw))"

definition empty_addrmap_params :: "nat \<Rightarrow> PollResult \<Rightarrow> LighthouseAddrmapEntry \<Rightarrow> AddrmapParams" where
  "empty_addrmap_params run r e = \<lparr>ad_poll_run_id = run,
     ad_observed_at = timestamptz (pr_started r),
     ad_lighthouse_name = lh_name (pr_lighthouse r), ad_vpn_addr = am_vpn_addr e,
     ad_reporter_vpn_addr = None, ad_learned_addrs = Some [], ad_reported_addrs = Some [],
     ad_relay_vpn_addrs = Some [], ad_raw = am_raw e\<rparr>"

definition addrmap_params ::
  "nat \<Rightarrow> PollResult \<Rightarrow> LighthouseAddrmapEntry \<Rightarrow> string \<times> LighthouseAddrEntry \<Rightarrow> AddrmapParams" where
  "addrmap_params run r e ra = (case ra of (reporter, addrs) \<Rightarrow> \<lparr>ad_poll_run_id = run,
     ad_observed_at = timestamptz (pr_started r),
     ad_lighthouse_name = lh_name (pr_lighthouse r), ad_vpn_addr = am_vpn_addr e,
     ad_reporter_vpn_addr = nullableString reporter,
     ad_learned_addrs = nonNil (ae_learned addrs), ad_reported_addrs = nonNil (ae_reported addrs),
     ad_relay_vpn_addrs = nonNil (ae_relay addrs), ad_raw = am_raw e\<rparr>)"

definition relay_params :: "nat \<Rightarrow> PollResult \<Rightarrow> RelayParams" where
  "relay_params run r = \<lparr>re_poll_run_id = run, re_observed_at = timestamptz (pr_started r),
     re_lighthouse_name = lh_name (pr_lighthouse r), re_relays = pr_relays r\<rparr>"

definition create_params :: "PollResult \<Rightarrow> CreatePollRunParams" where
  "create_params r = \<lparr>cp_started_at = timestamptz (pr_started r),
     cp_lighthouse_name = lh_name (pr_lighthouse r), cp_ssh_target = lh_target (pr_lighthouse r)\<rparr>"

definition complete_params :: "nat \<Rightarrow> PollResult \<Rightarrow> CompletePollRunParams" where
  "complete_params run r = \<lparr>co_id = run, co_finished_at = timestamptz (pr_finished r),
     co_success = pr_success r, co_duration_ms = millis (pr_duration r),
     co_error = nullableError (pr_err r), co_nebula_version = nullableString (pr_nebula_version r),
     co_device_name = nullableString (di_name (pr_device r)),
     co_device_cidrs = nonNil (di_cidr (pr_device r)),
     co_command_count = word_of_nat (length (pr_commands r))\<rparr>"

section \<open>The operations\<close>

type_synonym marshal = "HostmapEntry \<Rightarrow> string result"

definition entry_raw :: "marshal \<Rightarrow> string \<Rightarrow> HostmapEntry \<Rightarrow> char slice result" where
  "entry_raw marshal source e =
     (if go_len (he_raw e) = 0 then
        (case marshal e of Inl err \<Rightarrow> Inl (Wrap (''marshal '' @ source @ '' entry raw'') err)
         | Inr encoded \<Rightarrow> Inr (Some encoded))
      else Inr (he_raw e))"

definition insert_hostmap_entry ::
  "marshal \<Rightarrow> nat \<Rightarrow> PollResult \<Rightarrow> string \<Rightarrow> nat \<times> HostmapEntry \<Rightarrow> (world, unit) act" where
  "insert_hostmap_entry marshal run r source ie w = (case ie of (i, e) \<Rightarrow>
     (case entry_raw marshal source e of
        Inl err \<Rightarrow> (Inl err, w)
      | Inr raw \<Rightarrow> wrapE (''insert '' @ source @ '' entry '' @ Itoa (int i))
                     (InsertHostmapEntry (hostmap_params run r source i e raw)) w))"

definition insertHostmapEntries ::
  "marshal \<Rightarrow> nat \<Rightarrow> PollResult \<Rightarrow> string \<Rightarrow> HostmapEntry slice \<Rightarrow> (world, unit) act" where
  "insertHostmapEntries marshal run r source es =
     foreach (insert_hostmap_entry marshal run r source) (enumerate 0 (elems es))"

definition insert_addrmap_entry ::
  "nat \<Rightarrow> PollResult \<Rightarrow> LighthouseAddrmapEntry \<Rightarrow> (world, unit) act" where
  "insert_addrmap_entry run r e =
     (if am_addrs e = [] then
        wrapE (''insert empty lighthouse addrmap '' @ am_vpn_addr e)
          (InsertLighthouseAddrmapEntry (empty_addrmap_params run r e))
      else foreach (\<lambda>ra. wrapE (''insert lighthouse addrmap '' @ am_vpn_addr e @ '' reporter '' @ fst ra)
          (InsertLighthouseAddrmapEntry (addrmap_params run r e ra))) (am_addrs e))"

definition insertLighthouseAddrmap :: "nat \<Rightarrow> PollResult \<Rightarrow> (world, unit) act" where
  "insertLighthouseAddrmap run r = foreach (insert_addrmap_entry run r) (elems (pr_addrmap r))"

text \<open>The body of the transaction of \<open>SavePollResult\<close>, from CreatePollRun to CompletePollRun.\<close>

definition save_body :: "marshal \<Rightarrow> PollResult \<Rightarrow> (world, unit) act" where
  "save_body marshal r =
     bindE (wrapE ''create poll run'' (CreatePollRun (create_params r))) (\<lambda>run.
     bindE (foreach (\<lambda>c. wrapE (''insert raw command '' @ Quote (cr_command c))
              (InsertRawCommandPayload (raw_params run r c))) (pr_commands r)) (\<lambda>_.
     bindE (insertHostmapEntries marshal run r ''hostmap'' (pr_hostmap r)) (\<lambda>_.
     bindE (insertHostmapEntries marshal run r ''pending'' (pr_pending r)) (\<lambda>_.
     bindE (insertLighthouseAddrmap run r) (\<lambda>_.
     bindE (if go_len (pr_relays r) > 0
            then wrapE ''insert relay snapshot'' (InsertRelaySnapshot (relay_params run r))
            else ret ()) (\<lambda>_.
     wrapE ''complete poll run'' (CompletePollRun (complete_params run r))))))))"

definition BeginTx :: "(world, unit) act" where
  "BeginTx = exec (\<lambda>d. (Inr (), d))"

text \<open>Rolling back to the tables \<open>d0\<close> at the start; sequences keep their values.\<close>

definition rolled_back :: "database \<Rightarrow> database \<Rightarrow> database" where
  "rolled_back d0 d = d0\<lparr>t_seq := t_seq d\<rparr>"

definition Rollback :: "database \<Rightarrow> world \<Rightarrow> world" where
  "Rollback d0 w = w\<lparr>tables := rolled_back d0 (tables w)\<rparr>"

text \<open>A refused commit discards the transaction; one whose reply is lost has taken effect.\<close>

definition Commit :: "database \<Rightarrow> (world, unit) act" where
  "Commit d0 w = (case faults w (calls w) of
       None \<Rightarrow> (Inr (), tick w)
     | Some (Refused e) \<Rightarrow> (Inl e, Rollback d0 (tick w))
     | Some (ReplyLost e) \<Rightarrow> (Inl e, tick w))"

definition SavePollResult :: "marshal \<Rightarrow> PollResult \<Rightarrow> (world, unit) act" where
  "SavePollResult marshal r w =
     (case BeginTx w of
        (Inl e, w1) \<Rightarrow> (Inl (Wrap ''begin poll result transaction'' e), w1)
      | (Inr _, w1) \<Rightarrow>
          (case save_body marshal r w1 of
             (Inl e, w2) \<Rightarrow> (Inl e, Rollback (tables w1) w2)
           | (Inr _, w2) \<Rightarrow> wrapE ''commit poll result'' (Commit (tables w1)) w2))"

text \<open>
  \<open>drop_chunks\<close> is a function of the TimescaleDB extension, hence a parameter: the number
  of chunks of a table that only hold rows older than the cutoff, and the tables without them.
\<close>

type_synonym drop_chunks = "tbl \<Rightarrow> int \<Rightarrow> database \<Rightarrow> nat \<times> database"

definition sql_drop_chunks :: "drop_chunks \<Rightarrow> tbl \<Rightarrow> int \<Rightarrow> (database, nat) act" where
  "sql_drop_chunks chunks table cutoff d = (case chunks table cutoff d of (n, d') \<Rightarrow> (Inr n, d'))"

definition DropChunks :: "drop_chunks \<Rightarrow> tbl \<Rightarrow> gotime \<Rightarrow> (world, nat) act" where
  "DropChunks chunks table cutoff =
     wrapE (''drop '' @ table_name table @ '' chunks'')
       (exec (sql_drop_chunks chunks table (wall (time_utc cutoff))))"

definition DeleteExpiredPollRuns :: "gotime \<Rightarrow> i32 \<Rightarrow> (world, nat) act" where
  "DeleteExpiredPollRuns cutoff batchSize =
     bindE (wrapE ''list expired poll runs'' (ListExpiredPollRunIDs (timestamptz cutoff) batchSize)) (\<lambda>ids.
     if ids = [] then ret 0
     else wrapE ''delete expired poll runs'' (DeletePollRuns ids))"

definition DeleteExpiredRawCommandPayloads :: "gotime \<Rightarrow> i32 \<Rightarrow> (world, nat) act" where
  "DeleteExpiredRawCommandPayloads cutoff batchSize =
     wrapE ''delete expired raw command payloads'' (DeleteExpiredRaw (timestamptz cutoff) batchSize)"

definition Ping :: "(world, unit) act" where
  "Ping = exec (\<lambda>d. (Inr (), d))"

definition to_present_peer :: "peer_row \<Rightarrow> PresentPeer" where
  "to_present_peer row = \<lparr>pp_lighthouse = pe_lighthouse_name row, pp_key = pe_peer_key row,
     pp_primary = textValue (pe_primary_vpn_addr row), pp_vpn_addrs = nonNil (pe_vpn_addrs row),
     pp_cert_name = textValue (pe_cert_name row),
     pp_fingerprint = textValue (pe_cert_fingerprint row),
     pp_groups = nonNil (pe_cert_groups row), pp_version = textValue (pe_nebula_version row)\<rparr>"

definition ListPresentHostmapPeers :: "(string \<Rightarrow> string \<Rightarrow> bool) \<Rightarrow> (world, PresentPeer list) act" where
  "ListPresentHostmapPeers coll =
     bindE (wrapE ''list present hostmap peers'' (ListPresentPeers coll)) (\<lambda>rows.
     ret (map to_present_peer rows))"

end
