(* ===== verification/Storage_Laws.thy ===== *)
theory Storage_Laws
  imports Storage
begin

text \<open>
  What \<open>SavePollResult\<close> promises: the rows of a poll result as one batch, the effect of a
  successful call (\<open>saved_db\<close>), atomicity under every fault script, success without
  faults, and the invariants tying child rows to their run.
\<close>

lemma fold_concat_lists: "fold f (concat xss) s = fold (fold f) xss s"
  by (induction xss arbitrary: s) auto

section \<open>The batch of rows\<close>

definition number_rows :: "nat \<Rightarrow> 'p list \<Rightarrow> 'p row list" where
  "number_rows n ps = map (\<lambda>(i, p). \<lparr>row_id = i, cols = p\<rparr>) (enumerate n ps)"

lemma number_rows_simps [simp]:
  "number_rows n [] = []"
  "number_rows n (p # ps) = \<lparr>row_id = n, cols = p\<rparr> # number_rows (Suc n) ps"
  by (simp_all add: number_rows_def)

lemma number_rows_append:
  "number_rows n (ps @ qs) = number_rows n ps @ number_rows (n + length ps) qs"
  by (induction ps arbitrary: n) auto

lemma cols_number_rows [simp]: "cols ` set (number_rows n ps) = set ps"
  by (induction ps arbitrary: n) auto

lemma number_rows_cols: "r \<in> set (number_rows n ps) \<Longrightarrow> cols r \<in> set ps"
  by (metis cols_number_rows imageI)

definition hostmap_rows :: "marshal \<Rightarrow> nat \<Rightarrow> PollResult \<Rightarrow> string \<Rightarrow> HostmapEntry slice \<Rightarrow> HostmapParams list" where
  "hostmap_rows marshal run r source es =
     map (\<lambda>(i, e). hostmap_params run r source i e
            (case entry_raw marshal source e of Inr raw \<Rightarrow> raw | Inl _ \<Rightarrow> None))
         (enumerate 0 (elems es))"

definition addrmap_rows_of :: "nat \<Rightarrow> PollResult \<Rightarrow> LighthouseAddrmapEntry \<Rightarrow> AddrmapParams list" where
  "addrmap_rows_of run r e =
     (if am_addrs e = [] then [empty_addrmap_params run r e]
      else map (addrmap_params run r e) (am_addrs e))"

definition addrmap_rows :: "nat \<Rightarrow> PollResult \<Rightarrow> AddrmapParams list" where
  "addrmap_rows run r = concat (map (addrmap_rows_of run r) (elems (pr_addrmap r)))"

definition relay_rows :: "nat \<Rightarrow> PollResult \<Rightarrow> RelayParams list" where
  "relay_rows run r = (if go_len (pr_relays r) > 0 then [relay_params run r] else [])"

definition run_row :: "nat \<Rightarrow> PollResult \<Rightarrow> poll_run" where
  "run_row run r = complete_run (complete_params run r) (new_run run (create_params r))"

definition saved_db :: "marshal \<Rightarrow> PollResult \<Rightarrow> database \<Rightarrow> database" where
  "saved_db marshal r d =
     (let run = t_seq d PollRuns;
          raws = map (raw_params run r) (pr_commands r);
          hosts = hostmap_rows marshal run r ''hostmap'' (pr_hostmap r) @
                  hostmap_rows marshal run r ''pending'' (pr_pending r);
          addrs = addrmap_rows run r;
          relays = relay_rows run r
      in \<lparr>t_runs = t_runs d @ [run_row run r],
          t_raw = t_raw d @ number_rows (t_seq d RawPayloads) raws,
          t_hostmap = t_hostmap d @ number_rows (t_seq d HostmapEntries) hosts,
          t_addrmap = t_addrmap d @ number_rows (t_seq d AddrmapEntries) addrs,
          t_relays = t_relays d @ number_rows (t_seq d RelaySnapshots) relays,
          t_seq = (\<lambda>t. t_seq d t + (case t of PollRuns \<Rightarrow> 1 | RawPayloads \<Rightarrow> length raws
             | HostmapEntries \<Rightarrow> length hosts | AddrmapEntries \<Rightarrow> length addrs
             | RelaySnapshots \<Rightarrow> length relays)),
          t_views = t_views d\<rparr>)"

lemma fold_add_raw:
  "fold add_raw ps d = d\<lparr>t_raw := t_raw d @ number_rows (t_seq d RawPayloads) ps,
     t_seq := (t_seq d)(RawPayloads := t_seq d RawPayloads + length ps)\<rparr>"
  by (induction ps arbitrary: d) (auto simp: add_raw_def bump_def)

lemma fold_add_hostmap:
  "fold add_hostmap ps d = d\<lparr>t_hostmap := t_hostmap d @ number_rows (t_seq d HostmapEntries) ps,
     t_seq := (t_seq d)(HostmapEntries := t_seq d HostmapEntries + length ps)\<rparr>"
  by (induction ps arbitrary: d) (auto simp: add_hostmap_def bump_def)

lemma fold_add_addrmap:
  "fold add_addrmap ps d = d\<lparr>t_addrmap := t_addrmap d @ number_rows (t_seq d AddrmapEntries) ps,
     t_seq := (t_seq d)(AddrmapEntries := t_seq d AddrmapEntries + length ps)\<rparr>"
  by (induction ps arbitrary: d) (auto simp: add_addrmap_def bump_def)

lemma fold_add_relay:
  "fold add_relay ps d = d\<lparr>t_relays := t_relays d @ number_rows (t_seq d RelaySnapshots) ps,
     t_seq := (t_seq d)(RelaySnapshots := t_seq d RelaySnapshots + length ps)\<rparr>"
  by (induction ps arbitrary: d) (auto simp: add_relay_def bump_def)

section \<open>Effect of a successful call\<close>

lemma insert_raw_ok:
  "InsertRawCommandPayload a w = (Inr x, w') \<Longrightarrow> tables w' = add_raw a (tables w)"
  by (drule exec_ok [of "sql_insert_raw a" w x w', folded InsertRawCommandPayload_def])
     (auto simp: sql_insert_raw_def split: if_splits)

lemma insert_hostmap_ok:
  "InsertHostmapEntry a w = (Inr x, w') \<Longrightarrow> tables w' = add_hostmap a (tables w)"
  by (drule exec_ok [of "sql_insert_hostmap a" w x w', folded InsertHostmapEntry_def])
     (auto simp: sql_insert_hostmap_def split: if_splits)

lemma insert_addrmap_ok:
  "InsertLighthouseAddrmapEntry a w = (Inr x, w') \<Longrightarrow> tables w' = add_addrmap a (tables w)"
  by (drule exec_ok [of "sql_insert_addrmap a" w x w', folded InsertLighthouseAddrmapEntry_def])
     (auto simp: sql_insert_addrmap_def split: if_splits)

lemma insert_relay_ok:
  "InsertRelaySnapshot a w = (Inr x, w') \<Longrightarrow> tables w' = add_relay a (tables w)"
  by (drule exec_ok [of "sql_insert_relay a" w x w', folded InsertRelaySnapshot_def])
     (auto simp: sql_insert_relay_def split: if_splits)

lemma create_run_ok:
  "CreatePollRun a w = (Inr i, w') \<Longrightarrow> i = t_seq (tables w) PollRuns \<and>
   tables w' = (bump PollRuns (tables w))\<lparr>t_runs := t_runs (tables w) @ [new_run i a]\<rparr>"
  by (drule exec_ok [of "sql_create_poll_run a" w i w', folded CreatePollRun_def])
     (auto simp: sql_create_poll_run_def split: if_splits)

lemma complete_run_ok:
  "CompletePollRun a w = (Inr x, w') \<Longrightarrow> tables w' = (tables w)\<lparr>t_runs :=
     map (\<lambda>p. if po_id p = co_id a then complete_run a p else p) (t_runs (tables w))\<rparr>"
  by (drule exec_ok [of "sql_complete_poll_run a" w x w', folded CompletePollRun_def])
     (auto simp: sql_complete_poll_run_def split: if_splits)

lemma raw_loop_ok:
  assumes "foreach (\<lambda>c. wrapE (p c) (InsertRawCommandPayload (f c))) cs w = (Inr (), w')"
  shows "tables w' = fold add_raw (map f cs) (tables w)"
proof -
  have "tables w' = fold (\<lambda>c. add_raw (f c)) cs (tables w)"
    by (rule foreach_ok_fold [OF _ assms]) (auto dest: insert_raw_ok)
  then show ?thesis by (simp add: fold_map comp_def)
qed

lemma hostmap_loop_ok:
  assumes "insertHostmapEntries marshal run r source es w = (Inr (), w')"
  shows "tables w' = fold add_hostmap (hostmap_rows marshal run r source es) (tables w)"
proof -
  let ?row = "\<lambda>(i, e). hostmap_params run r source i e
            (case entry_raw marshal source e of Inr raw \<Rightarrow> raw | Inl _ \<Rightarrow> None)"
  have "tables w' = fold (\<lambda>ie. add_hostmap (?row ie)) (enumerate 0 (elems es)) (tables w)"
    by (rule foreach_ok_fold [OF _ assms [unfolded insertHostmapEntries_def]])
       (auto simp: insert_hostmap_entry_def dest: insert_hostmap_ok split: sum.splits prod.splits)
  then show ?thesis by (simp add: hostmap_rows_def fold_map comp_def)
qed

lemma addrmap_entry_ok:
  assumes "insert_addrmap_entry run r e w = (Inr (), w')"
  shows "tables w' = fold add_addrmap (addrmap_rows_of run r e) (tables w)"
proof (cases "am_addrs e = []")
  case True
  with assms show ?thesis
    by (auto simp: insert_addrmap_entry_def addrmap_rows_of_def dest: insert_addrmap_ok)
next
  case False
  have "tables w' = fold (\<lambda>ra. add_addrmap (addrmap_params run r e ra)) (am_addrs e) (tables w)"
    using assms False unfolding insert_addrmap_entry_def
    by (intro foreach_ok_fold [where view = tables]) (auto dest: insert_addrmap_ok)
  with False show ?thesis by (simp add: addrmap_rows_of_def fold_map comp_def)
qed

lemma addrmap_loop_ok:
  assumes "insertLighthouseAddrmap run r w = (Inr (), w')"
  shows "tables w' = fold add_addrmap (addrmap_rows run r) (tables w)"
proof -
  have "tables w' = fold (\<lambda>e. fold add_addrmap (addrmap_rows_of run r e)) (elems (pr_addrmap r)) (tables w)"
    by (rule foreach_ok_fold [OF _ assms [unfolded insertLighthouseAddrmap_def]])
       (rule addrmap_entry_ok)
  then show ?thesis by (simp add: addrmap_rows_def fold_concat_lists fold_map comp_def)
qed

lemma completed_runs:
  assumes "\<forall>p \<in> set ps. po_id p \<noteq> co_id a" and "po_id q = co_id a"
  shows "map (\<lambda>p. if po_id p = co_id a then complete_run a p else p) (ps @ [q]) = ps @ [complete_run a q]"
proof -
  have "map (\<lambda>p. if po_id p = co_id a then complete_run a p else p) ps = ps"
    using assms(1) by (induction ps) auto
  with assms(2) show ?thesis by simp
qed

lemma save_body_ok:
  assumes ok: "save_body marshal r w = (Inr (), w')" and ids: "ids_ok (tables w)"
  shows "tables w' = saved_db marshal r (tables w)"
proof -
  let ?d = "tables w" and ?run = "t_seq (tables w) PollRuns"
  from ok obtain run w1 w2 w3 w4 w5 w6 where
      1: "CreatePollRun (create_params r) w = (Inr run, w1)"
    and 2: "foreach (\<lambda>c. wrapE (''insert raw command '' @ Quote (cr_command c))
              (InsertRawCommandPayload (raw_params run r c))) (pr_commands r) w1 = (Inr (), w2)"
    and 3: "insertHostmapEntries marshal run r ''hostmap'' (pr_hostmap r) w2 = (Inr (), w3)"
    and 4: "insertHostmapEntries marshal run r ''pending'' (pr_pending r) w3 = (Inr (), w4)"
    and 5: "insertLighthouseAddrmap run r w4 = (Inr (), w5)"
    and 6: "(if go_len (pr_relays r) > 0
            then wrapE ''insert relay snapshot'' (InsertRelaySnapshot (relay_params run r))
            else ret ()) w5 = (Inr (), w6)"
    and 7: "CompletePollRun (complete_params run r) w6 = (Inr (), w')"
    unfolding save_body_def bindE_Inr by (auto simp: bindE_Inr)
  from create_run_ok [OF 1] have run: "run = ?run"
    and t1: "tables w1 = (bump PollRuns ?d)\<lparr>t_runs := t_runs ?d @ [new_run run (create_params r)]\<rparr>"
    by simp_all
  note t2 = raw_loop_ok [OF 2, unfolded fold_add_raw]
  note t3 = hostmap_loop_ok [OF 3, unfolded fold_add_hostmap]
  note t4 = hostmap_loop_ok [OF 4, unfolded fold_add_hostmap]
  note t5 = addrmap_loop_ok [OF 5, unfolded fold_add_addrmap]
  have t6: "tables w6 = (tables w5)\<lparr>t_relays := t_relays (tables w5) @
      number_rows (t_seq (tables w5) RelaySnapshots) (relay_rows run r),
      t_seq := (t_seq (tables w5))(RelaySnapshots := t_seq (tables w5) RelaySnapshots + length (relay_rows run r))\<rparr>"
    using 6 by (auto simp: relay_rows_def add_relay_def bump_def dest!: insert_relay_ok split: if_splits)
  have runs6: "t_runs (tables w6) = t_runs ?d @ [new_run run (create_params r)]"
    by (simp add: t6 t5 t4 t3 t2 t1)
  have "map (\<lambda>p. if po_id p = run then complete_run (complete_params run r) p else p)
      (t_runs ?d @ [new_run run (create_params r)]) = t_runs ?d @ [run_row run r]"
  proof -
    have "\<forall>p \<in> set (t_runs ?d). po_id p \<noteq> run"
      using ids by (auto simp: ids_ok_def run_ids_def run)
    then show ?thesis
      using completed_runs [of "t_runs ?d" "complete_params run r" "new_run run (create_params r)"]
      by (simp add: complete_params_def new_run_def run_row_def)
  qed
  then have "tables w' = (tables w6)\<lparr>t_runs := t_runs ?d @ [run_row run r]\<rparr>"
    using complete_run_ok [OF 7] runs6 by (simp add: complete_params_def)
  then show ?thesis
    by (intro database.equality)
       (simp_all add: t6 t5 t4 t3 t2 t1 run saved_db_def Let_def number_rows_append fun_eq_iff split: tbl.splits)
qed

section \<open>Atomicity and integrity\<close>

definition same_rows :: "database \<Rightarrow> database \<Rightarrow> bool" where
  "same_rows d d' \<longleftrightarrow> d' = d\<lparr>t_seq := t_seq d'\<rparr>"

lemma same_rows_refl [simp]: "same_rows d d"
  by (simp add: same_rows_def)

lemma same_rows_rolled_back [simp]: "same_rows d (rolled_back d d')"
  by (simp add: same_rows_def rolled_back_def)

lemma integrity_rolled_back:
  assumes "integrity d0" and "\<forall>t. t_seq d0 t \<le> t_seq d t"
  shows "integrity (rolled_back d0 d)"
  using assms by (auto simp: integrity_defs rolled_back_def run_ids_def intro: less_le_trans)

lemma keeps_hostmap_entry: "keeps safe_step (insert_hostmap_entry marshal run r source ie)"
proof (cases ie)
  case (Pair i e)
  show ?thesis
  proof (cases "entry_raw marshal source e")
    case (Inl err)
    with Pair show ?thesis by (simp add: keeps_def insert_hostmap_entry_def sf.R_refl)
  next
    case (Inr raw)
    have "keeps safe_step (wrapE p (InsertHostmapEntry a))" for p a
      unfolding InsertHostmapEntry_def by (intro sf.keeps_intros inv_intros)
    with Pair Inr show ?thesis by (simp add: keeps_def insert_hostmap_entry_def)
  qed
qed

lemma keeps_addrmap_entry: "keeps safe_step (insert_addrmap_entry run r e)"
  unfolding insert_addrmap_entry_def InsertLighthouseAddrmapEntry_def
  by (intro sf.keeps_intros inv_intros)

lemma keeps_save_body: "keeps safe_step (save_body marshal r)"
  unfolding save_body_def CreatePollRun_def InsertRawCommandPayload_def CompletePollRun_def
    InsertRelaySnapshot_def insertHostmapEntries_def insertLighthouseAddrmap_def
  by (intro sf.keeps_intros inv_intros keeps_hostmap_entry keeps_addrmap_entry)

lemma begin_tables [simp]: "tables (snd (BeginTx w)) = tables w"
  using exec_tables [of "\<lambda>d. (Inr (), d)" w] by (simp add: BeginTx_def)

lemma save_outcomes:
  assumes "SavePollResult marshal r w = (res, w')"
  obtains (untouched) e where "res = Inl e" and "same_rows (tables w) (tables w')"
      and "\<forall>t. t_seq (tables w) t \<le> t_seq (tables w') t"
  | (stored) w1 w2 where "save_body marshal r w1 = (Inr (), w2)" and "tables w1 = tables w"
      and "tables w' = tables w2" and "res = Inr ()"
  | (lost) w1 w2 e where "save_body marshal r w1 = (Inr (), w2)" and "tables w1 = tables w"
      and "tables w' = tables w2" and "res = Inl (Wrap ''commit poll result'' e)"
      and "faults w (calls w2) = Some (ReplyLost e)"
proof (cases "BeginTx w")
  case (Pair b w1)
  have t1: "tables w1 = tables w" using begin_tables [of w] Pair by simp
  have f1: "faults w1 = faults w" using faults_exec [of _ w] Pair unfolding BeginTx_def by (metis snd_conv)
  show thesis
  proof (cases b)
    case (Inl e)
    with assms Pair t1 have "res = Inl (Wrap ''begin poll result transaction'' e)" and "w' = w1"
      by (simp_all add: SavePollResult_def)
    from this(1) show thesis by (rule untouched) (simp_all add: t1 \<open>w' = w1\<close>)
  next
    case (Inr u)
    obtain c w2 where body: "save_body marshal r w1 = (c, w2)" by fastforce
    have step: "safe_step w1 w2"
      using keeps_save_body [of marshal r] body unfolding keeps_def by (metis snd_conv)
    then have seq: "\<forall>t. t_seq (tables w) t \<le> t_seq (tables w2) t" and f2: "faults w2 = faults w"
      using t1 f1 by (simp_all add: safe_step_def)
    show thesis
    proof (cases c)
      case (Inl e)
      with assms Pair Inr body have "res = Inl e" and "w' = Rollback (tables w1) w2"
        by (simp_all add: SavePollResult_def)
      from this(1) show thesis
        by (rule untouched) (use \<open>w' = Rollback (tables w1) w2\<close> t1 seq in
          \<open>simp_all add: Rollback_def rolled_back_def same_rows_def\<close>)
    next
      case Inr': (Inr v)
      with assms Pair Inr body have "wrapE ''commit poll result'' (Commit (tables w1)) w2 = (res, w')"
        by (simp add: SavePollResult_def)
      then consider "res = Inr ()" "w' = tick w2"
        | e where "faults w2 (calls w2) = Some (Refused e)"
            "res = Inl (Wrap ''commit poll result'' e)" "w' = Rollback (tables w1) (tick w2)"
        | e where "faults w2 (calls w2) = Some (ReplyLost e)"
            "res = Inl (Wrap ''commit poll result'' e)" "w' = tick w2"
        by (auto simp: wrapE_def Commit_def split: option.splits fault.splits)
      then show thesis
      proof cases
        case 1
        with stored [of w1 w2] body Inr' t1 show thesis by simp
      next
        case (2 e)
        have "same_rows (tables w) (tables w')" "\<forall>t. t_seq (tables w) t \<le> t_seq (tables w') t"
          using 2(3) t1 seq by (simp_all add: Rollback_def rolled_back_def same_rows_def)
        with 2(2) show thesis by (rule untouched)
      next
        case (3 e)
        with lost [of w1 w2 e] body Inr' t1 f2 show thesis by simp
      qed
    qed
  qed
qed

lemma save_ok_saved:
  assumes "SavePollResult marshal r w = (Inr (), w')" and "ids_ok (tables w)"
  shows "tables w' = saved_db marshal r (tables w)"
  using assms(1)
proof (cases rule: save_outcomes)
  case (stored w1 w2)
  with save_body_ok [OF stored(1)] assms(2) show ?thesis by simp
qed simp_all

lemma save_all_or_nothing:
  assumes "SavePollResult marshal r w = (res, w')" and "ids_ok (tables w)"
  shows "(\<exists>e. res = Inl e) \<and> same_rows (tables w) (tables w') \<or>
         tables w' = saved_db marshal r (tables w) \<and>
           (res = Inr () \<or> (\<exists>e n. res = Inl (Wrap ''commit poll result'' e) \<and> faults w n = Some (ReplyLost e)))"
  using assms(1)
proof (cases rule: save_outcomes)
  case (untouched e)
  then show ?thesis by blast
next
  case (stored w1 w2)
  with save_body_ok [OF stored(1)] assms(2) show ?thesis by simp
next
  case (lost w1 w2 e)
  with lost save_body_ok [OF lost(1)] assms(2) show ?thesis by auto
qed

lemma safe_tables_save_body:
  assumes "save_body marshal r w = (x, w')" and "integrity (tables w)"
  shows "integrity (tables w')"
  using keeps_save_body [of marshal r] assms unfolding keeps_def safe_step_def by (metis snd_conv)

lemma save_integrity:
  assumes "SavePollResult marshal r w = (res, w')" and "integrity (tables w)"
  shows "integrity (tables w')"
  using assms(1)
proof (cases rule: save_outcomes)
  case (untouched e)
  then have "tables w' = rolled_back (tables w) (tables w')"
    by (simp add: same_rows_def rolled_back_def)
  with integrity_rolled_back [OF assms(2) untouched(3)] show ?thesis by simp
next
  case (stored w1 w2)
  with safe_tables_save_body [OF stored(1)] assms(2) show ?thesis by simp
next
  case (lost w1 w2 e)
  with safe_tables_save_body [OF lost(1)] assms(2) show ?thesis by simp
qed

section \<open>Success without faults\<close>

definition healthy :: "world \<Rightarrow> bool" where
  "healthy w \<longleftrightarrow> (\<forall>n. faults w n = None)"

text \<open>
  What the schema needs of a result: times that are set, and a document for every entry. All
  array columns are covered by \<open>nonNil\<close>.
\<close>

definition storable :: "marshal \<Rightarrow> PollResult \<Rightarrow> bool" where
  "storable marshal r \<longleftrightarrow> \<not> time_is_zero (pr_started r) \<and>
     (\<forall>c \<in> set (pr_commands r). \<not> time_is_zero (cr_started c)) \<and>
     (\<forall>e \<in> set (elems (pr_hostmap r)) \<union> set (elems (pr_pending r)).
        go_len (he_raw e) > 0 \<or> (\<exists>s. marshal e = Inr s)) \<and>
     (\<forall>e \<in> set (elems (pr_addrmap r)). am_raw e \<noteq> None)"

lemma entry_raw_ok:
  "go_len (he_raw e) > 0 \<or> (\<exists>s. marshal e = Inr s) \<Longrightarrow> \<exists>raw. entry_raw marshal src e = Inr raw \<and> raw \<noteq> None"
  by (cases "he_raw e") (auto simp: entry_raw_def)

lemma entry_raw_not_None: "entry_raw marshal src e = Inr raw \<Longrightarrow> raw \<noteq> None"
  by (auto simp: entry_raw_def elems_def split: sum.splits if_splits option.splits)

lemma hostmap_params_sel [simp]:
  "ho_poll_run_id (hostmap_params run r src i e raw) = run"
  "ho_observed_at (hostmap_params run r src i e raw) = timestamptz (pr_started r)"
  "ho_source (hostmap_params run r src i e raw) = src"
  "ho_raw (hostmap_params run r src i e raw) = raw"
  "ho_entry_index (hostmap_params run r src i e raw) = word_of_nat i"
  "ho_lighthouse_name (hostmap_params run r src i e raw) = lh_name (pr_lighthouse r)"
  "ho_primary_vpn_addr (hostmap_params run r src i e raw) = nullableString (PrimaryVPNAddr e)"
  by (simp_all add: hostmap_params_def hostmap_base_def with_cert_def split: option.splits)

lemma hostmap_params_not_null:
  "\<not> time_is_zero (pr_started r) \<Longrightarrow> raw \<noteq> None \<Longrightarrow> hostmap_not_null (hostmap_params run r src i e raw)"
  by (cases "he_cert e")
     (simp_all only: hostmap_not_null_def hostmap_params_def hostmap_base_def with_cert_def
        HostmapParams.simps option.simps timestamptz_def nonNil_not_None if_False not_False_eq_True)

lemma addrmap_params_not_null:
  "\<not> time_is_zero (pr_started r) \<Longrightarrow> am_raw e \<noteq> None \<Longrightarrow> addrmap_not_null (addrmap_params run r e ra)"
  by (cases ra) (simp only: addrmap_not_null_def addrmap_params_def AddrmapParams.simps prod.case
      option.simps timestamptz_def nonNil_not_None if_False not_False_eq_True)

lemma addrmap_params_sel [simp]:
  "ad_poll_run_id (addrmap_params run r e ra) = run"
  "ad_observed_at (addrmap_params run r e ra) = timestamptz (pr_started r)"
  "ad_poll_run_id (empty_addrmap_params run r e) = run"
  "ad_observed_at (empty_addrmap_params run r e) = timestamptz (pr_started r)"
  by (simp_all add: addrmap_params_def empty_addrmap_params_def split: prod.splits)

text \<open>The state between two inserts of one healthy transaction: the run exists.\<close>

definition in_run :: "nat \<Rightarrow> world \<Rightarrow> bool" where
  "in_run run w \<longleftrightarrow> healthy w \<and> run \<in> run_ids (tables w)"

lemma in_run_exec:
  assumes "\<And>d. run \<in> run_ids d \<Longrightarrow> \<exists>x. stmt d = (Inr x, snd (stmt d)) \<and> run \<in> run_ids (snd (stmt d))"
  shows "succeeds (in_run run) (exec stmt)"
proof -
  have "\<exists>x t. exec stmt w = (Inr x, t) \<and> in_run run t" if w: "in_run run w" for w
  proof -
    from w have "run \<in> run_ids (tables w)" by (simp add: in_run_def)
    from assms [OF this] obtain x where "stmt (tables w) = (Inr x, snd (stmt (tables w)))"
      and "run \<in> run_ids (snd (stmt (tables w)))" by blast
    with w exec_healthy [of w stmt] show ?thesis
      by (fastforce simp: in_run_def healthy_def)
  qed
  then show ?thesis by (simp add: succeeds_def)
qed

lemma raw_insert_succeeds:
  "\<not> time_is_zero (cr_started c) \<Longrightarrow> succeeds (in_run run) (InsertRawCommandPayload (raw_params run r c))"
  unfolding InsertRawCommandPayload_def
  by (rule in_run_exec) (simp add: sql_insert_raw_def raw_params_def timestamptz_def)

lemma hostmap_insert_succeeds:
  assumes "\<not> time_is_zero (pr_started r)" and "src \<in> {''hostmap'', ''pending''}"
    and "go_len (he_raw (snd ie)) > 0 \<or> (\<exists>s. marshal (snd ie) = Inr s)"
  shows "succeeds (in_run run) (insert_hostmap_entry marshal run r src ie)"
proof -
  obtain raw where raw: "entry_raw marshal src (snd ie) = Inr raw" "raw \<noteq> None"
    using entry_raw_ok [of "snd ie" marshal src] assms(3) by blast
  let ?a = "hostmap_params run r src (fst ie) (snd ie) raw"
  have "succeeds (in_run run) (wrapE p (InsertHostmapEntry ?a))" for p
    unfolding InsertHostmapEntry_def
    using hostmap_params_not_null [OF assms(1) raw(2)] assms(2)
    by (intro succeeds_wrapE in_run_exec) (auto simp: sql_insert_hostmap_def)
  with raw show ?thesis
    by (cases ie) (simp add: succeeds_def insert_hostmap_entry_def)
qed

lemma addrmap_insert_succeeds:
  "addrmap_not_null a \<Longrightarrow> ad_poll_run_id a = run \<Longrightarrow>
   succeeds (in_run run) (InsertLighthouseAddrmapEntry a)"
  unfolding InsertLighthouseAddrmapEntry_def
  by (rule in_run_exec) (simp add: sql_insert_addrmap_def)

lemma addrmap_entry_succeeds:
  assumes "\<not> time_is_zero (pr_started r)" and "am_raw e \<noteq> None"
  shows "succeeds (in_run run) (insert_addrmap_entry run r e)"
proof -
  have "addrmap_not_null (empty_addrmap_params run r e)"
    using assms by (simp add: addrmap_not_null_def empty_addrmap_params_def timestamptz_def)
  then show ?thesis
    unfolding insert_addrmap_entry_def
    by (intro succeeds_intros addrmap_insert_succeeds addrmap_params_not_null assms) simp_all
qed

lemma relay_insert_succeeds:
  "\<not> time_is_zero (pr_started r) \<Longrightarrow> go_len (pr_relays r) > 0 \<Longrightarrow>
   succeeds (in_run run) (InsertRelaySnapshot (relay_params run r))"
  unfolding InsertRelaySnapshot_def
  by (rule in_run_exec) (auto simp: sql_insert_relay_def relay_params_def timestamptz_def elems_def
      split: option.splits)

lemma complete_succeeds: "succeeds (in_run run) (CompletePollRun (complete_params run r))"
  unfolding CompletePollRun_def
  by (rule in_run_exec) (simp add: sql_complete_poll_run_def complete_params_def run_ids_complete)

lemma hostmap_entries_succeed:
  assumes "\<not> time_is_zero (pr_started r)" and "src \<in> {''hostmap'', ''pending''}"
    and "\<forall>e \<in> set (elems es). go_len (he_raw e) > 0 \<or> (\<exists>s. marshal e = Inr s)"
  shows "succeeds (in_run run) (insertHostmapEntries marshal run r src es)"
proof -
  have el: "snd ie \<in> set (elems es)" if "ie \<in> set (enumerate 0 (elems es))" for ie
    using that by (metis list.set_map imageI map_snd_enumerate)
  show ?thesis
    unfolding insertHostmapEntries_def
    by (intro succeeds_foreach hostmap_insert_succeeds) (use assms el in auto)
qed

lemma create_succeeds:
  assumes "healthy w" and "\<not> time_is_zero (pr_started r)"
  shows "\<exists>run w'. wrapE p (CreatePollRun (create_params r)) w = (Inr run, w') \<and> in_run run w'"
  using assms by (simp add: CreatePollRun_def exec_def wrapE_def healthy_def sql_create_poll_run_def
      create_params_def timestamptz_def in_run_def run_ids_def new_run_def)

lemma save_body_succeeds:
  assumes h: "healthy w" and v: "storable marshal r"
  shows "\<exists>w'. save_body marshal r w = (Inr (), w') \<and> healthy w'"
proof -
  have z: "\<not> time_is_zero (pr_started r)" using v by (simp add: storable_def)
  from create_succeeds [OF h z] obtain run w1 where w1:
    "wrapE ''create poll run'' (CreatePollRun (create_params r)) w = (Inr run, w1)" "in_run run w1"
    by blast
  let ?rest = "bindE (foreach (\<lambda>c. wrapE (''insert raw command '' @ Quote (cr_command c))
          (InsertRawCommandPayload (raw_params run r c))) (pr_commands r)) (\<lambda>_.
        bindE (insertHostmapEntries marshal run r ''hostmap'' (pr_hostmap r)) (\<lambda>_.
        bindE (insertHostmapEntries marshal run r ''pending'' (pr_pending r)) (\<lambda>_.
        bindE (insertLighthouseAddrmap run r) (\<lambda>_.
        bindE (if go_len (pr_relays r) > 0
               then wrapE ''insert relay snapshot'' (InsertRelaySnapshot (relay_params run r))
               else ret ()) (\<lambda>_.
        wrapE ''complete poll run'' (CompletePollRun (complete_params run r)))))))"
  have "succeeds (in_run run) ?rest"
    unfolding insertLighthouseAddrmap_def
    by (intro succeeds_intros raw_insert_succeeds hostmap_entries_succeed addrmap_entry_succeeds
        relay_insert_succeeds complete_succeeds z)
       (use v in \<open>auto simp: storable_def\<close>)
  with w1 obtain w' where "?rest w1 = (Inr (), w')" and "in_run run w'"
    by (auto simp: succeeds_def)
  moreover have "save_body marshal r w = ?rest w1"
    unfolding save_body_def by (subst bindE_def) (simp only: w1(1) prod.case sum.case)
  ultimately show ?thesis by (auto simp: in_run_def)
qed

lemma save_succeeds:
  assumes h: "healthy w" and v: "storable marshal r"
  shows "\<exists>w'. SavePollResult marshal r w = (Inr (), w') \<and> healthy w'"
proof -
  have b: "BeginTx w = (Inr (), tick w)"
    using h by (simp add: BeginTx_def exec_def healthy_def)
  have "healthy (tick w)" using h by (simp add: healthy_def)
  from save_body_succeeds [OF this v] obtain w2 where
    "save_body marshal r (tick w) = (Inr (), w2)" "healthy w2" by blast
  with b show ?thesis
    by (simp add: SavePollResult_def wrapE_def Commit_def healthy_def)
qed

section \<open>Child rows and their run\<close>

text \<open>
  Normalized rows carry the start of their run as observation time; raw payloads were observed
  no earlier; a run is completed and its success flag agrees with its error column.
\<close>

definition aligned :: "database \<Rightarrow> bool" where
  "aligned d \<longleftrightarrow> (\<forall>p \<in> set (t_runs d).
     (\<forall>h \<in> cols ` set (t_hostmap d). ho_poll_run_id h = po_id p \<longrightarrow> ho_observed_at h = po_started_at p) \<and>
     (\<forall>a \<in> cols ` set (t_addrmap d). ad_poll_run_id a = po_id p \<longrightarrow> ad_observed_at a = po_started_at p) \<and>
     (\<forall>s \<in> cols ` set (t_relays d). re_poll_run_id s = po_id p \<longrightarrow> re_observed_at s = po_started_at p) \<and>
     (\<forall>x \<in> cols ` set (t_raw d). ra_poll_run_id x = po_id p \<longrightarrow>
        ts_le (po_started_at p) (ra_observed_at x)))"

definition completed :: "database \<Rightarrow> bool" where
  "completed d \<longleftrightarrow> (\<forall>p \<in> set (t_runs d). po_finished_at p \<noteq> None \<and> (po_success p \<longleftrightarrow> po_error p = None))"

text \<open>What \<open>pollLighthouse\<close> guarantees of the times of a result.\<close>

definition timed :: "PollResult \<Rightarrow> bool" where
  "timed r \<longleftrightarrow> \<not> time_is_zero (pr_started r) \<and> \<not> time_is_zero (pr_finished r) \<and>
     (\<forall>c \<in> set (pr_commands r). \<not> time_is_zero (cr_started c) \<and> wall (pr_started r) \<le> wall (cr_started c))"

lemma run_row_sel [simp]:
  "po_id (run_row run r) = run" "po_started_at (run_row run r) = timestamptz (pr_started r)"
  "po_finished_at (run_row run r) = timestamptz (pr_finished r)"
  "po_success (run_row run r) = pr_success r" "po_error (run_row run r) = nullableError (pr_err r)"
  "po_lighthouse_name (run_row run r) = lh_name (pr_lighthouse r)"
  "po_nebula_version (run_row run r) = nullableString (pr_nebula_version r)"
  "po_command_count (run_row run r) = word_of_nat (length (pr_commands r))"
  by (simp_all add: run_row_def complete_run_def complete_params_def new_run_def create_params_def)

lemma hostmap_rows_sel:
  "h \<in> set (hostmap_rows marshal run r src es) \<Longrightarrow>
   ho_poll_run_id h = run \<and> ho_observed_at h = timestamptz (pr_started r) \<and> ho_source h = src"
  by (auto simp: hostmap_rows_def)

lemma addrmap_rows_sel:
  "a \<in> set (addrmap_rows run r) \<Longrightarrow>
   ad_poll_run_id a = run \<and> ad_observed_at a = timestamptz (pr_started r)"
  by (auto simp: addrmap_rows_def addrmap_rows_of_def split: if_splits)

lemma relay_rows_sel:
  "s \<in> set (relay_rows run r) \<Longrightarrow>
   re_poll_run_id s = run \<and> re_observed_at s = timestamptz (pr_started r)"
  by (auto simp: relay_rows_def relay_params_def split: if_splits)

lemma raw_params_sel [simp]:
  "ra_poll_run_id (raw_params run r c) = run"
  "ra_observed_at (raw_params run r c) = timestamptz (cr_started c)"
  by (simp_all add: raw_params_def)

lemma fresh_run:
  assumes "integrity d"
  shows "\<And>p. p \<in> set (t_runs d) \<Longrightarrow> po_id p \<noteq> t_seq d PollRuns"
    and "\<And>x. x \<in> cols ` set (t_raw d) \<Longrightarrow> ra_poll_run_id x \<noteq> t_seq d PollRuns"
    and "\<And>x. x \<in> cols ` set (t_hostmap d) \<Longrightarrow> ho_poll_run_id x \<noteq> t_seq d PollRuns"
    and "\<And>x. x \<in> cols ` set (t_addrmap d) \<Longrightarrow> ad_poll_run_id x \<noteq> t_seq d PollRuns"
    and "\<And>x. x \<in> cols ` set (t_relays d) \<Longrightarrow> re_poll_run_id x \<noteq> t_seq d PollRuns"
proof -
  have new: "t_seq d PollRuns \<notin> run_ids d"
    using assms unfolding integrity_def ids_ok_def by blast
  then show "po_id p \<noteq> t_seq d PollRuns" if "p \<in> set (t_runs d)" for p
    using that unfolding run_ids_def by (metis imageI)
  have fk: "foreign_keys_ok d" using assms by (simp add: integrity_def)
  show "ra_poll_run_id x \<noteq> t_seq d PollRuns" if "x \<in> cols ` set (t_raw d)" for x
    using fk new that by (metis foreign_keys_ok_def imageE)
  show "ho_poll_run_id x \<noteq> t_seq d PollRuns" if "x \<in> cols ` set (t_hostmap d)" for x
    using fk new that by (metis foreign_keys_ok_def imageE)
  show "ad_poll_run_id x \<noteq> t_seq d PollRuns" if "x \<in> cols ` set (t_addrmap d)" for x
    using fk new that by (metis foreign_keys_ok_def imageE)
  show "re_poll_run_id x \<noteq> t_seq d PollRuns" if "x \<in> cols ` set (t_relays d)" for x
    using fk new that by (metis foreign_keys_ok_def imageE)
qed

lemma saved_db_sel:
  fixes d
  defines "run \<equiv> t_seq d PollRuns"
  shows "t_runs (saved_db marshal r d) = t_runs d @ [run_row run r]"
    and "cols ` set (t_raw (saved_db marshal r d)) = cols ` set (t_raw d) \<union> raw_params run r ` set (pr_commands r)"
    and "cols ` set (t_hostmap (saved_db marshal r d)) = cols ` set (t_hostmap d) \<union>
        set (hostmap_rows marshal run r ''hostmap'' (pr_hostmap r)) \<union>
        set (hostmap_rows marshal run r ''pending'' (pr_pending r))"
    and "cols ` set (t_addrmap (saved_db marshal r d)) = cols ` set (t_addrmap d) \<union> set (addrmap_rows run r)"
    and "cols ` set (t_relays (saved_db marshal r d)) = cols ` set (t_relays d) \<union> set (relay_rows run r)"
  by (simp_all add: saved_db_def Let_def run_def image_Un Un_assoc)

text \<open>
  Rows and runs before a save, \<open>H\<close> and \<open>P\<close>, never meet those it adds, \<open>N\<close> and
  \<open>q\<close>: a property of a row and its run has to be shown old with old, new with new.
\<close>

lemma row_meets_run:
  assumes "p \<in> P \<union> {q}" and "h \<in> H \<union> N" and "key h = po_id p"
    and "\<And>p. p \<in> P \<Longrightarrow> po_id p \<noteq> po_id q" and "\<And>h. h \<in> H \<Longrightarrow> key h \<noteq> po_id q"
    and "\<And>h. h \<in> N \<Longrightarrow> key h = po_id q \<and> Q q h"
    and "p \<in> P \<Longrightarrow> h \<in> H \<Longrightarrow> Q p h"
  shows "Q p h"
proof (cases "h \<in> N")
  case True
  with assms(6) have "po_id p = po_id q" and "Q q h" using assms(3) by auto
  with assms(1,4) show ?thesis by auto
next
  case False
  with assms(2) have "h \<in> H" by simp
  with assms(3,5) have "po_id p \<noteq> po_id q" by metis
  with assms(1) have "p \<in> P" by auto
  from assms(7) [OF this \<open>h \<in> H\<close>] show ?thesis .
qed

lemma aligned_saved:
  assumes "integrity d" and "aligned d" and "timed r"
  shows "aligned (saved_db marshal r d)"
proof -
  let ?q = "run_row (t_seq d PollRuns) r"
  have new: "\<And>p. p \<in> set (t_runs d) \<Longrightarrow> po_id p \<noteq> po_id ?q"
    "\<And>x. x \<in> cols ` set (t_raw d) \<Longrightarrow> ra_poll_run_id x \<noteq> po_id ?q"
    "\<And>x. x \<in> cols ` set (t_hostmap d) \<Longrightarrow> ho_poll_run_id x \<noteq> po_id ?q"
    "\<And>x. x \<in> cols ` set (t_addrmap d) \<Longrightarrow> ad_poll_run_id x \<noteq> po_id ?q"
    "\<And>x. x \<in> cols ` set (t_relays d) \<Longrightarrow> re_poll_run_id x \<noteq> po_id ?q"
    using fresh_run [OF assms(1)] unfolding run_row_sel by blast+
  have ts: "ts_le (timestamptz (pr_started r)) (timestamptz (cr_started c))"
    if "c \<in> set (pr_commands r)" for c
    using assms(3) that by (auto simp: timed_def timestamptz_def ts_le_def)
  show ?thesis
    unfolding aligned_def saved_db_sel set_append Un_assoc list.set
  proof (intro ballI conjI impI)
    fix p h
    assume h: "p \<in> set (t_runs d) \<union> {?q}"
      "h \<in> cols ` set (t_hostmap d) \<union> (set (hostmap_rows marshal (t_seq d PollRuns) r ''hostmap'' (pr_hostmap r)) \<union>
        set (hostmap_rows marshal (t_seq d PollRuns) r ''pending'' (pr_pending r)))"
      "ho_poll_run_id h = po_id p"
    show "ho_observed_at h = po_started_at p"
      by (rule row_meets_run [where key = ho_poll_run_id and Q = "\<lambda>p h. ho_observed_at h = po_started_at p", OF h new(1,3)])
         (use assms(2) h(3) in \<open>auto simp: aligned_def dest: hostmap_rows_sel\<close>)
  next
    fix p a
    assume a: "p \<in> set (t_runs d) \<union> {?q}"
      "a \<in> cols ` set (t_addrmap d) \<union> set (addrmap_rows (t_seq d PollRuns) r)" "ad_poll_run_id a = po_id p"
    show "ad_observed_at a = po_started_at p"
      by (rule row_meets_run [where key = ad_poll_run_id and Q = "\<lambda>p a. ad_observed_at a = po_started_at p", OF a new(1,4)])
         (use assms(2) a(3) in \<open>auto simp: aligned_def dest: addrmap_rows_sel\<close>)
  next
    fix p s
    assume s: "p \<in> set (t_runs d) \<union> {?q}"
      "s \<in> cols ` set (t_relays d) \<union> set (relay_rows (t_seq d PollRuns) r)" "re_poll_run_id s = po_id p"
    show "re_observed_at s = po_started_at p"
      by (rule row_meets_run [where key = re_poll_run_id and Q = "\<lambda>p s. re_observed_at s = po_started_at p", OF s new(1,5)])
         (use assms(2) s(3) in \<open>auto simp: aligned_def dest: relay_rows_sel\<close>)
  next
    fix p x
    assume x: "p \<in> set (t_runs d) \<union> {?q}"
      "x \<in> cols ` set (t_raw d) \<union> raw_params (t_seq d PollRuns) r ` set (pr_commands r)"
      "ra_poll_run_id x = po_id p"
    show "ts_le (po_started_at p) (ra_observed_at x)"
      by (rule row_meets_run [where key = ra_poll_run_id and Q = "\<lambda>p x. ts_le (po_started_at p) (ra_observed_at x)", OF x new(1,2)])
         (use assms(2) x(3) ts in \<open>auto simp: aligned_def\<close>)
  qed
qed

lemma completed_saved:
  "completed d \<Longrightarrow> timed r \<Longrightarrow> completed (saved_db marshal r d)"
  unfolding completed_def saved_db_sel
  by (auto simp: timed_def timestamptz_def pr_success_def nullableError_def split: option.splits)

text \<open>A save, whatever its outcome, keeps all three invariants.\<close>

definition db_inv :: "database \<Rightarrow> bool" where
  "db_inv d \<longleftrightarrow> integrity d \<and> aligned d \<and> completed d"

lemma aligned_seq [simp]: "aligned (d\<lparr>t_seq := s\<rparr>) = aligned d"
  by (simp add: aligned_def)

lemma completed_seq [simp]: "completed (d\<lparr>t_seq := s\<rparr>) = completed d"
  by (simp add: completed_def)

lemma same_rows_aligned: "same_rows d d' \<Longrightarrow> aligned d' = aligned d"
  unfolding same_rows_def by (metis aligned_seq)

lemma same_rows_completed: "same_rows d d' \<Longrightarrow> completed d' = completed d"
  unfolding same_rows_def by (metis completed_seq)

lemma save_db_inv:
  assumes "SavePollResult marshal r w = (res, w')" and "db_inv (tables w)" and "timed r"
  shows "db_inv (tables w')"
proof -
  have i: "integrity (tables w)" using assms(2) by (simp add: db_inv_def)
  then have "ids_ok (tables w)" by (simp add: integrity_def)
  from save_all_or_nothing [OF assms(1) this]
  have "aligned (tables w') \<and> completed (tables w')"
    using assms(2,3) aligned_saved [OF i] completed_saved same_rows_aligned same_rows_completed
    by (auto simp: db_inv_def)
  with save_integrity [OF assms(1) i] show ?thesis by (simp add: db_inv_def)
qed

section \<open>Column values\<close>

lemma abs_go_quot: "\<bar>go_quot a b\<bar> = \<bar>a\<bar> div \<bar>b\<bar>"
proof -
  have nn: "0 \<le> \<bar>a\<bar> div \<bar>b\<bar>"
    by (cases "b = 0") (simp_all add: pos_imp_zdiv_nonneg_iff)
  show ?thesis
    using nn by (cases "a = 0"; cases "b = 0") (simp_all add: go_quot_def abs_mult abs_sgn_eq)
qed

lemma sint_millis: "sint (millis d) = go_quot (sint d) 1000000"
proof -
  have "\<bar>sint d\<bar> \<le> 2 ^ 63" using sint_lt [of d] sint_ge [of d] by simp
  then have "\<bar>sint d\<bar> div 1000000 \<le> 2 ^ 63 div 1000000" by (intro zdiv_mono1) simp_all
  then have "\<bar>go_quot (sint d) 1000000\<bar> < 2 ^ 63" by (simp add: abs_go_quot)
  then show ?thesis
    by (simp add: millis_def int_word_sint mod_pos_pos_trivial abs_less_iff)
qed

lemma sint_uint64ToInt64: "sint (uint64ToInt64 v) = min (uint v) max_int64"
proof (cases "v > 9223372036854775807")
  case True
  then have "uint v > 9223372036854775807" by (simp add: word_less_def)
  with True show ?thesis by (simp add: uint64ToInt64_def max_int64_def)
next
  case False
  then have u: "uint v \<le> 9223372036854775807" by (simp add: word_less_def)
  then have "sint v = uint v"
    using order_trans [OF _ uint_ge_0 [of v], of "- 9223372036854775808"]
    by (simp add: sint_uint signed_take_bit_int_eq_self_iff)
  with False u show ?thesis by (simp add: uint64ToInt64_def max_int64_def)
qed

section \<open>A sample\<close>

definition sample_entry :: HostmapEntry where
  "sample_entry = zero_hostmap_entry\<lparr>he_vpn_addrs := Some [''10.0.0.2''],
     he_cert := Some (zero_certificate\<lparr>ce_fingerprint := ''fp''\<rparr>), he_raw := Some ''{}''\<rparr>"

definition sample_result :: PollResult where
  "sample_result = zero_poll_result\<lparr>
     pr_lighthouse := \<lparr>lh_name = ''eu1'', lh_user = ''nebula'', lh_address = ''lh:4222''\<rparr>,
     pr_started := \<lparr>wall = 5, mono = None\<rparr>, pr_finished := \<lparr>wall = 9, mono = None\<rparr>,
     pr_commands := [\<lparr>cr_command = ''version'', cr_started = \<lparr>wall = 6, mono = None\<rparr>,
       cr_finished = \<lparr>wall = 7, mono = None\<rparr>, cr_output = ''1.9'', cr_err = None\<rparr>],
     pr_hostmap := Some [sample_entry]\<rparr>"

definition no_marshal :: marshal where
  "no_marshal e = Inl (Err ''json'')"

definition sample_world :: world where
  "sample_world = \<lparr>tables = empty_db, faults = (\<lambda>_. None), calls = 0\<rparr>"

lemma sample_facts:
  "storable no_marshal sample_result" "timed sample_result" "pr_success sample_result"
  "pr_hostmap sample_result = Some [sample_entry]" "PrimaryVPNAddr sample_entry = ''10.0.0.2''"
  "healthy sample_world" "db_inv (tables sample_world)" "ids_ok (tables sample_world)"
  "tables sample_world = empty_db"
proof -
  show "storable no_marshal sample_result" "timed sample_result" "pr_success sample_result"
    "pr_hostmap sample_result = Some [sample_entry]" "PrimaryVPNAddr sample_entry = ''10.0.0.2''"
    by (simp_all add: storable_def timed_def sample_result_def sample_entry_def zero_defs pr_success_def
        PrimaryVPNAddr_def time_is_zero_def elems_def)
  show t: "tables sample_world = empty_db" "healthy sample_world"
    by (simp_all add: sample_world_def healthy_def)
  have "integrity empty_db" by (rule integrity_empty)
  then show "db_inv (tables sample_world)" "ids_ok (tables sample_world)"
    by (simp_all add: t db_inv_def aligned_def completed_def empty_db_def integrity_def)
qed

lemma sample_save:
  obtains w where "SavePollResult no_marshal sample_result sample_world = (Inr (), w)" and "healthy w"
  using save_succeeds sample_facts by blast

section \<open>Properties\<close>

text \<open>C4 When SavePollResult reports success, whatever faults the script held for other calls, the
  database holds exactly the rows of the result on top of what it held: one completed poll run
  under a fresh identifier, one payload per command, one row per hostmap, pending and addrmap
  entry in order, and the relay snapshot when there is one.\<close>

theorem save_effect:
  assumes "SavePollResult marshal r w = (Inr (), w')" and "ids_ok (tables w)"
  shows "tables w' = saved_db marshal r (tables w)"
  by (rule save_ok_saved [OF assms])

lemma save_effect_witness:
  "\<exists>w'. SavePollResult no_marshal sample_result sample_world = (Inr (), w') \<and>
     tables w' = saved_db no_marshal sample_result empty_db \<and> length (t_hostmap (tables w')) = 1"
proof -
  obtain w' where s: "SavePollResult no_marshal sample_result sample_world = (Inr (), w')"
    by (rule sample_save)
  with save_effect [OF s sample_facts(8)] show ?thesis
    by (simp add: sample_facts(4,9) saved_db_def Let_def number_rows_def hostmap_rows_def elems_def
        empty_db_def) (simp add: sample_result_def zero_defs elems_def)
qed

text \<open>C3 SavePollResult is atomic under every fault script: it either fails and leaves every row as
  it was, or stores the whole result; the second case with an error happens only when the reply
  to the commit was lost.\<close>

theorem save_atomic:
  assumes "SavePollResult marshal r w = (res, w')" and "ids_ok (tables w)"
  shows "isl res \<and> same_rows (tables w) (tables w') \<or>
    tables w' = saved_db marshal r (tables w) \<and>
      (res = Inr () \<or> (\<exists>e n. res = Inl (Wrap ''commit poll result'' e) \<and> faults w n = Some (ReplyLost e)))"
  using save_all_or_nothing [OF assms] by auto

lemma save_atomic_witness:
  "same_rows empty_db (tables (snd (SavePollResult no_marshal sample_result
     (sample_world\<lparr>faults := (\<lambda>n. if n = 3 then Some (Refused Canceled) else None)\<rparr>))))"
proof -
  let ?w = "sample_world\<lparr>faults := (\<lambda>n. if n = 3 then Some (Refused Canceled) else None)\<rparr>"
  obtain res w' where s: "SavePollResult no_marshal sample_result ?w = (res, w')" by fastforce
  have i: "ids_ok (tables ?w)" using sample_facts(8) by simp
  have "\<not> (\<exists>e n. faults ?w n = Some (ReplyLost e))" by simp
  moreover have "res \<noteq> Inr ()"
  proof
    assume "res = Inr ()"
    with s show False
      by (simp add: SavePollResult_def BeginTx_def exec_def sample_world_def tick_def save_body_def
          bindE_def wrapE_def CreatePollRun_def InsertRawCommandPayload_def sql_create_poll_run_def
          sql_insert_raw_def raw_params_def create_params_def sample_result_def zero_defs timestamptz_def
          time_is_zero_def run_ids_def new_run_def empty_db_def bump_def add_raw_def
          insertHostmapEntries_def insert_hostmap_entry_def sample_entry_def elems_def entry_raw_def
          InsertHostmapEntry_def)
  qed
  ultimately show ?thesis using save_atomic [OF s i] s sample_facts(9) by auto
qed

text \<open>C22 A save cannot fail on the schema: when no call meets a fault, every result whose times are
  set and whose entries have a document is stored; nil slices, missing certificates and
  out-of-range counters never violate a constraint.\<close>

theorem save_never_violates_schema:
  assumes "healthy w" and "storable marshal r" and "ids_ok (tables w)"
  shows "\<exists>w'. SavePollResult marshal r w = (Inr (), w') \<and> tables w' = saved_db marshal r (tables w)"
  using save_succeeds [OF assms(1,2)] save_ok_saved [OF _ assms(3)] by blast

lemma save_never_violates_schema_witness:
  "\<exists>w'. SavePollResult no_marshal sample_result sample_world = (Inr (), w') \<and>
     tables w' = saved_db no_marshal sample_result (tables sample_world)"
  by (rule save_never_violates_schema) (rule sample_facts)+



text \<open>C40 The 64-bit conversions of column values: an unsigned counter is stored as itself, or as the
  largest bigint when it does not fit, never negative; a duration is stored in whole milliseconds
  rounded towards zero, without overflow.\<close>

theorem column_conversions:
  "sint (uint64ToInt64 v) = min (uint v) max_int64 \<and> 0 \<le> sint (uint64ToInt64 v) \<and>
   sint (millis d) = sgn (sint d) * (\<bar>sint d\<bar> div 1000000)"
  by (simp add: sint_uint64ToInt64 sint_millis go_quot_def max_int64_def)

end
