(* ===== verification/Present_Peers.thy ===== *)
theory Present_Peers
  imports Storage_Laws "HOL-Library.Char_ord" "HOL-Library.List_Lexorder"
begin

text \<open>
  What the query behind service discovery returns. Its three \<open>ORDER BY\<close> clauses are total
  preorders under any collation (locale \<open>collation\<close>, with PostgreSQL's byte-order collation
  \<open>C\<close> as an instance), so the ranked rows are the latest successful poll of each
  lighthouse and the best sighting of each peer.
\<close>

locale collation =
  fixes coll :: "string \<Rightarrow> string \<Rightarrow> bool"
  assumes coll_total: "coll a b \<or> coll b a"
    and coll_trans: "coll a b \<Longrightarrow> coll b c \<Longrightarrow> coll a c"
    and coll_antisym: "coll a b \<Longrightarrow> coll b a \<Longrightarrow> a = b"

lemma ts_le_order:
  "ts_le t u \<or> ts_le u t" "ts_le t u \<Longrightarrow> ts_le u v \<Longrightarrow> ts_le t v" "ts_le t u \<Longrightarrow> ts_le u t \<Longrightarrow> t = u"
  by (auto simp: ts_le_def split: option.splits)

text \<open>Comparing by an antisymmetric first column, then by the rest.\<close>

definition then_by :: "('a \<Rightarrow> 'k) \<Rightarrow> ('k \<Rightarrow> 'k \<Rightarrow> bool) \<Rightarrow> ('a \<Rightarrow> 'a \<Rightarrow> bool) \<Rightarrow> 'a \<Rightarrow> 'a \<Rightarrow> bool" where
  "then_by f le rest x y \<longleftrightarrow> (if f x \<noteq> f y then le (f x) (f y) else rest x y)"

lemma row_order_then_by:
  assumes total: "\<And>a b. le a b \<or> le b a"
    and trans: "\<And>a b c. le a b \<Longrightarrow> le b c \<Longrightarrow> le a c"
    and antisym: "\<And>a b. le a b \<Longrightarrow> le b a \<Longrightarrow> a = b"
    and rest: "row_order rest"
  shows "row_order (then_by f le rest)"
proof
  fix x y z
  show "then_by f le rest x y \<or> then_by f le rest y x"
    using total [of "f x" "f y"] row_order.le_total [OF rest, of x y] by (auto simp: then_by_def)
  assume xy: "then_by f le rest x y" and yz: "then_by f le rest y z"
  show "then_by f le rest x z"
  proof (cases "f x = f y \<and> f y = f z")
    case True
    with xy yz row_order.le_trans [OF rest, of x y z] show ?thesis by (simp add: then_by_def)
  next
    case False
    have refl: "le a a" for a using total [of a a] by simp
    have "le (f x) (f y)" using xy refl by (auto simp: then_by_def split: if_splits)
    moreover have "le (f y) (f z)" using yz refl by (auto simp: then_by_def split: if_splits)
    ultimately have "le (f x) (f z)" by (rule trans)
    moreover have "f x \<noteq> f z"
      using False antisym [of "f x" "f y"] \<open>le (f x) (f y)\<close> \<open>le (f y) (f z)\<close> by auto
    ultimately show ?thesis by (simp add: then_by_def)
  qed
qed

lemma row_order_int: "row_order (\<lambda>x y. (f x :: int) \<le> f y)" "row_order (\<lambda>x y. (g y :: nat) \<le> g x)"
  by (unfold_locales, auto)+

lemma row_order_ts_desc: "row_order rest \<Longrightarrow> row_order (then_by f (\<lambda>a b. ts_le b a) rest)"
  by (rule row_order_then_by [OF ts_le_order(1) ts_le_order(2) ts_le_order(3)]) assumption+

context collation
begin

lemma row_order_coll: "row_order rest \<Longrightarrow> row_order (then_by f coll rest)"
  by (rule row_order_then_by [OF coll_total coll_trans coll_antisym])

lemma run_order_row: "row_order (run_order coll)"
proof -
  have "run_order coll = then_by po_lighthouse_name coll
      (then_by po_started_at (\<lambda>a b. ts_le b a) (\<lambda>p q. po_id q \<le> po_id p))"
    by (intro ext) (auto simp: run_order_def then_by_def)
  then show ?thesis by (simp add: row_order_coll row_order_ts_desc row_order_int)
qed

lemma sighting_order_row: "row_order (sighting_order coll)"
proof -
  have "sighting_order coll = then_by (ho_observed_at \<circ> snd) (\<lambda>a b. ts_le b a)
      (then_by (ho_lighthouse_name \<circ> snd) coll (\<lambda>x y. sint (ho_entry_index (snd x)) \<le> sint (ho_entry_index (snd y))))"
    by (intro ext) (auto simp: sighting_order_def then_by_def Let_def)
  then show ?thesis by (simp add: row_order_coll row_order_ts_desc row_order_int)
qed

lemma peer_order_row: "row_order (peer_order coll)"
proof -
  let ?p = "\<lambda>r :: peer_row. coalesce (pe_primary_vpn_addr r) []"
  have "row_order (\<lambda>r s. coll (?p r) (?p s))"
    by unfold_locales (rule coll_total, erule (1) coll_trans)
  moreover have "peer_order coll = then_by (\<lambda>r. coalesce (pe_cert_name r) (?p r)) coll (\<lambda>r s. coll (?p r) (?p s))"
    by (intro ext) (auto simp: peer_order_def then_by_def Let_def)
  ultimately show ?thesis by (simp only: row_order_coll)
qed

end

sublocale collation \<subseteq> run: row_order "run_order coll"
  by (rule run_order_row)

sublocale collation \<subseteq> sighting: row_order "sighting_order coll"
  by (rule sighting_order_row)

sublocale collation \<subseteq> listing: row_order "peer_order coll"
  by (rule peer_order_row)

text \<open>The collation \<open>C\<close>: lexicographic comparison of bytes.\<close>

interpretation byte_order: collation "(\<le>) :: string \<Rightarrow> string \<Rightarrow> bool"
  by unfold_locales auto

section \<open>Latest polls and sightings\<close>

definition newer :: "poll_run \<Rightarrow> poll_run \<Rightarrow> bool" where
  "newer p q \<longleftrightarrow> (if po_started_at p = po_started_at q then po_id q \<le> po_id p
     else ts_le (po_started_at q) (po_started_at p))"

definition latest_success :: "database \<Rightarrow> poll_run \<Rightarrow> bool" where
  "latest_success d p \<longleftrightarrow> p \<in> set (t_runs d) \<and> po_success p \<and>
     (\<forall>q \<in> set (t_runs d). po_success q \<and> po_lighthouse_name q = po_lighthouse_name p \<longrightarrow> newer p q)"

definition sighted :: "database \<Rightarrow> poll_run \<Rightarrow> HostmapParams \<Rightarrow> bool" where
  "sighted d p h \<longleftrightarrow> latest_success d p \<and> h \<in> cols ` set (t_hostmap d) \<and> ho_poll_run_id h = po_id p \<and>
     ho_source h = ''hostmap'' \<and> ho_primary_vpn_addr h \<notin> {None, Some []}"

lemma newer_antisym:
  "newer p q \<Longrightarrow> newer q p \<Longrightarrow> po_id p = po_id q"
  using ts_le_order(3) [of "po_started_at p" "po_started_at q"] by (auto simp: newer_def split: if_splits)

lemma run_order_newer:
  "po_lighthouse_name p = po_lighthouse_name q \<Longrightarrow> run_order coll p q \<longleftrightarrow> newer p q"
  by (auto simp: run_order_def newer_def)

context collation
begin

lemma latest_polls_iff:
  assumes "ids_ok d"
  shows "p \<in> set (latest_polls coll d) \<longleftrightarrow> latest_success d p"
proof
  assume p: "p \<in> set (latest_polls coll d)"
  then have "p \<in> set (filter po_success (t_runs d))"
    unfolding latest_polls_def using rank1_subset by fast
  moreover have "newer p q" if "q \<in> set (t_runs d)" "po_success q" "po_lighthouse_name q = po_lighthouse_name p" for q
    using run.rank1_least [of p po_lighthouse_name "filter po_success (t_runs d)" q] p that
    by (simp add: latest_polls_def run_order_newer)
  ultimately show "latest_success d p" by (simp add: latest_success_def)
next
  assume p: "latest_success d p"
  then have in_runs: "p \<in> set (filter po_success (t_runs d))" by (simp add: latest_success_def)
  from rank1_exists [OF this, of po_lighthouse_name "run_order coll"] obtain q where
    q: "q \<in> set (latest_polls coll d)" "po_lighthouse_name q = po_lighthouse_name p"
    unfolding latest_polls_def by blast
  then have qr: "q \<in> set (filter po_success (t_runs d))"
    unfolding latest_polls_def using rank1_subset by fast
  have "newer q p"
    using run.rank1_least [of q po_lighthouse_name "filter po_success (t_runs d)" p] q in_runs
    by (simp add: latest_polls_def run_order_newer)
  moreover have "newer p q" using p q qr by (simp add: latest_success_def)
  ultimately have "po_id q = po_id p" by (rule newer_antisym)
  then have "q = p"
    using assms in_runs qr by (auto simp: ids_ok_def distinct_map inj_on_def)
  with q show "p \<in> set (latest_polls coll d)" by simp
qed

lemma present_rows_iff:
  assumes "ids_ok d"
  shows "(p, h) \<in> set (present_rows coll d) \<longleftrightarrow> sighted d p h"
  using latest_polls_iff [OF assms] by (auto simp: present_rows_def sighted_def)

lemma listing_exact:
  assumes "ids_ok d" and "sql_list_present_peers coll d = (Inr rows, d')"
  shows "distinct (map pe_peer_key rows)"
    and "pe_peer_key ` set rows = peer_key ` {h. \<exists>p. sighted d p h}"
    and "\<And>r. r \<in> set rows \<Longrightarrow> \<exists>p h. sighted d p h \<and> r = to_peer_row (p, h) \<and>
       (\<forall>q k. sighted d q k \<and> peer_key k = peer_key h \<longrightarrow> ts_le (ho_observed_at k) (ho_observed_at h))"
    and "sorted_wrt (peer_order coll) rows"
proof -
  let ?ranked = "rank1 (peer_key \<circ> snd) (sighting_order coll) (present_rows coll d)"
  from assms(2) have rows: "rows = order_by (peer_order coll) (map to_peer_row ?ranked)"
    by (auto simp: sql_list_present_peers_def)
  have key: "pe_peer_key (to_peer_row x) = (peer_key \<circ> snd) x" for x
    by (simp add: to_peer_row_def Let_def)
  have "mset (map pe_peer_key rows) = mset (map (peer_key \<circ> snd) ?ranked)"
    unfolding rows mset_map mset_order_by by (simp add: multiset.map_comp comp_def key)
  from mset_eq_imp_distinct_iff [OF this] show "distinct (map pe_peer_key rows)"
    by (simp only: distinct_rank1)
  have "pe_peer_key ` set rows = (peer_key \<circ> snd) ` set ?ranked"
    unfolding rows set_order_by set_map image_image key ..
  also have "\<dots> = (peer_key \<circ> snd) ` set (present_rows coll d)" by (rule rank1_keys)
  also have "\<dots> = peer_key ` {h. \<exists>p. sighted d p h}"
    using present_rows_iff [OF assms(1)] by force
  finally show "pe_peer_key ` set rows = peer_key ` {h. \<exists>p. sighted d p h}" .
  show "sorted_wrt (peer_order coll) rows" unfolding rows by (rule listing.sorted_order_by)
  fix r assume "r \<in> set rows"
  then obtain p h where x: "(p, h) \<in> set ?ranked" and r: "r = to_peer_row (p, h)"
    unfolding rows by auto
  have "sighted d p h"
    using x rank1_subset present_rows_iff [OF assms(1)] by fast
  moreover have "ts_le (ho_observed_at k) (ho_observed_at h)"
    if "sighted d q k" "peer_key k = peer_key h" for q k
  proof -
    have "sighting_order coll (p, h) (q, k)"
      by (rule sighting.rank1_least [OF x]) (use that present_rows_iff [OF assms(1)] in auto)
    then show ?thesis
      by (auto simp: sighting_order_def Let_def split: if_splits)
  qed
  ultimately show "\<exists>p h. sighted d p h \<and> r = to_peer_row (p, h) \<and>
       (\<forall>q k. sighted d q k \<and> peer_key k = peer_key h \<longrightarrow> ts_le (ho_observed_at k) (ho_observed_at h))"
    using r by blast
qed

end

section \<open>A saved poll becomes present\<close>

definition entry_key :: "HostmapEntry \<Rightarrow> string" where
  "entry_key e = (case he_cert e of
       Some c \<Rightarrow> (if ce_fingerprint c = [] then PrimaryVPNAddr e else ce_fingerprint c)
     | None \<Rightarrow> PrimaryVPNAddr e)"

lemma peer_key_params:
  "PrimaryVPNAddr e \<noteq> [] \<Longrightarrow> peer_key (hostmap_params run r src i e raw) = entry_key e"
  by (simp add: peer_key_def entry_key_def hostmap_params_def hostmap_base_def with_cert_def
      coalesce_def nullableString_def split: option.split)

lemma saved_sighted:
  assumes "integrity d" and "pr_success r"
    and "\<And>q. q \<in> set (t_runs d) \<Longrightarrow> po_success q \<Longrightarrow> po_lighthouse_name q = lh_name (pr_lighthouse r) \<Longrightarrow>
      ts_le (po_started_at q) (timestamptz (pr_started r))"
    and "e \<in> set (elems (pr_hostmap r))" and "PrimaryVPNAddr e \<noteq> []"
  shows "\<exists>p h. sighted (saved_db marshal r d) p h \<and> peer_key h = entry_key e \<and> ho_observed_at h = timestamptz (pr_started r)"
proof -
  let ?run = "t_seq d PollRuns" and ?d' = "saved_db marshal r d"
  let ?p = "run_row ?run r"
  have lt: "po_id q < ?run" if "q \<in> set (t_runs d)" for q
    using assms(1) that by (auto simp: integrity_def ids_ok_def run_ids_def)
  have "newer ?p q" if "q \<in> set (t_runs ?d')" "po_success q" "po_lighthouse_name q = po_lighthouse_name ?p" for q
  proof -
    from that(1) consider "q = ?p" | "q \<in> set (t_runs d)" by (auto simp: saved_db_sel)
    then show ?thesis
    proof cases
      case 1
      then show ?thesis by (simp add: newer_def)
    next
      case 2
      with assms(3) that(2,3) have "ts_le (po_started_at q) (po_started_at ?p)" by simp
      moreover have "po_id q \<le> po_id ?p" using lt [OF 2] by simp
      ultimately show ?thesis by (simp only: newer_def split: if_split) simp
    qed
  qed
  moreover have "?p \<in> set (t_runs ?d')" by (simp only: saved_db_sel) simp
  ultimately have latest: "latest_success ?d' ?p"
    using assms(2) unfolding latest_success_def by simp
  have "e \<in> snd ` set (enumerate 0 (elems (pr_hostmap r)))"
    using assms(4) by (metis list.set_map map_snd_enumerate)
  then obtain i where "(i, e) \<in> set (enumerate 0 (elems (pr_hostmap r)))" by auto
  then obtain raw where h: "hostmap_params ?run r ''hostmap'' i e raw \<in> set (hostmap_rows marshal ?run r ''hostmap'' (pr_hostmap r))"
    unfolding hostmap_rows_def by force
  then have "hostmap_params ?run r ''hostmap'' i e raw \<in> cols ` set (t_hostmap ?d')"
    by (simp add: saved_db_sel)
  with latest assms(5) have "sighted ?d' ?p (hostmap_params ?run r ''hostmap'' i e raw)"
    by (simp add: sighted_def nullableString_def)
  with peer_key_params [OF assms(5)] hostmap_params_sel(2) show ?thesis by blast
qed

section \<open>Properties\<close>

text \<open>C21 Under any collation the query for present peers lists every peer once: its keys are those of
  the hostmap rows with a VPN address in the latest successful poll of their lighthouse, and the
  row listed for a key is the sighting observed last.\<close>

theorem present_peers_exact:
  assumes "collation coll" and "ids_ok d" and "sql_list_present_peers coll d = (Inr rows, d')"
  shows "distinct (map pe_peer_key rows) \<and> pe_peer_key ` set rows = peer_key ` {h. \<exists>p. sighted d p h} \<and>
    (\<forall>r \<in> set rows. \<exists>p h. sighted d p h \<and> r = to_peer_row (p, h) \<and>
       (\<forall>q k. sighted d q k \<and> peer_key k = peer_key h \<longrightarrow> ts_le (ho_observed_at k) (ho_observed_at h)))"
  using collation.listing_exact [OF assms] by blast

text \<open>A successful poll that is saved is what service discovery sees next: unless a later
  successful poll of the lighthouse is stored, every hostmap entry with a VPN address is listed
  under its certificate fingerprint, or its address when it has none.\<close>

theorem saved_poll_is_present:
  assumes "collation coll" and "integrity (tables w)" and "SavePollResult marshal r w = (Inr (), w')"
    and "pr_success r"
    and "\<And>q. q \<in> set (t_runs (tables w)) \<Longrightarrow> po_success q \<Longrightarrow>
      po_lighthouse_name q = lh_name (pr_lighthouse r) \<Longrightarrow>
      ts_le (po_started_at q) (timestamptz (pr_started r))"
    and "e \<in> set (elems (pr_hostmap r))" and "PrimaryVPNAddr e \<noteq> []"
    and "sql_list_present_peers coll (tables w') = (Inr rows, d')"
  shows "entry_key e \<in> pe_peer_key ` set rows"
proof -
  have ids: "ids_ok (tables w)" using assms(2) by (simp add: integrity_def)
  have eff: "tables w' = saved_db marshal r (tables w)" by (rule save_ok_saved [OF assms(3) ids])
  have "ids_ok (tables w')" using save_integrity [OF assms(3,2)] by (simp add: integrity_def)
  note keys = collation.listing_exact(2) [OF assms(1) this assms(8)]
  from saved_sighted [OF assms(2,4,5,6,7), of marshal] show ?thesis
    unfolding keys eff by (metis (mono_tags, lifting) imageI mem_Collect_eq)
qed

lemma saved_poll_is_present_witness:
  "\<exists>w' rows d'. SavePollResult no_marshal sample_result sample_world = (Inr (), w') \<and>
     sql_list_present_peers (\<le>) (tables w') = (Inr rows, d') \<and> ''fp'' \<in> pe_peer_key ` set rows"
proof -
  obtain w' where s: "SavePollResult no_marshal sample_result sample_world = (Inr (), w')"
    by (rule sample_save)
  obtain rows where l: "sql_list_present_peers (\<le>) (tables w') = (Inr rows, tables w')"
    by (simp add: sql_list_present_peers_def)
  have i: "integrity (tables sample_world)" using integrity_empty sample_facts(9) by simp
  have "entry_key sample_entry = ''fp''"
    by (simp add: entry_key_def sample_entry_def zero_defs)
  moreover have "entry_key sample_entry \<in> pe_peer_key ` set rows"
    by (rule saved_poll_is_present [OF byte_order.collation_axioms i s sample_facts(3) _ _ _ l])
       (simp_all add: sample_facts empty_db_def elems_def)
  ultimately show ?thesis using s l by auto
qed

lemma present_peers_exact_witness:
  "\<exists>rows d'. sql_list_present_peers (\<le>) (saved_db no_marshal sample_result empty_db) = (Inr rows, d') \<and>
     distinct (map pe_peer_key rows)"
proof -
  let ?d = "saved_db no_marshal sample_result empty_db"
  obtain w' where s: "SavePollResult no_marshal sample_result sample_world = (Inr (), w')"
    by (rule sample_save)
  have "tables w' = ?d" using save_ok_saved [OF s sample_facts(8)] sample_facts(9) by simp
  then have "ids_ok ?d"
    using save_integrity [OF s] integrity_empty sample_facts(9) by (simp add: integrity_def)
  moreover obtain rows where "sql_list_present_peers (\<le>) ?d = (Inr rows, ?d)"
    by (simp add: sql_list_present_peers_def)
  ultimately show ?thesis
    using present_peers_exact [OF byte_order.collation_axioms] by blast
qed

end
