(* ===== verification/Metrics.thy ===== *)
theory Metrics
  imports Data_Model
begin

text \<open>
  \<open>internal/metrics\<close>: the Prometheus counters as functions from label values to counts and
  the histograms as the lists of observed durations (bucketing and the conversion to seconds
  belong to the client library).
\<close>

record metrics =
  pollsTotal :: "string \<times> string \<Rightarrow> nat"
  pollDuration :: "string \<Rightarrow> i64 list"
  commandTotal :: "string \<times> string \<times> string \<Rightarrow> nat"
  commandDuration :: "string \<times> string \<Rightarrow> i64 list"
  retentionRunsTotal :: "string \<Rightarrow> nat"
  retentionDeletedRowsTotal :: "string \<Rightarrow> nat"
  retentionDroppedChunksTotal :: "string \<Rightarrow> nat"

definition no_metrics :: metrics where
  "no_metrics = \<lparr>pollsTotal = (\<lambda>_. 0), pollDuration = (\<lambda>_. []), commandTotal = (\<lambda>_. 0),
     commandDuration = (\<lambda>_. []), retentionRunsTotal = (\<lambda>_. 0),
     retentionDeletedRowsTotal = (\<lambda>_. 0), retentionDroppedChunksTotal = (\<lambda>_. 0)\<rparr>"

definition add_to :: "'k \<Rightarrow> nat \<Rightarrow> ('k \<Rightarrow> nat) \<Rightarrow> 'k \<Rightarrow> nat" where
  "add_to k n f = f(k := f k + n)"

definition observe_at :: "'k \<Rightarrow> i64 \<Rightarrow> ('k \<Rightarrow> i64 list) \<Rightarrow> 'k \<Rightarrow> i64 list" where
  "observe_at k d f = f(k := f k @ [d])"

definition observe_command :: "string \<Rightarrow> CommandResult \<Rightarrow> metrics \<Rightarrow> metrics" where
  "observe_command lighthouse c m =
     m\<lparr>commandTotal := add_to (lighthouse, cr_command c, FormatBool (cr_success c)) 1 (commandTotal m),
       commandDuration := observe_at (lighthouse, cr_command c) (cr_duration c) (commandDuration m)\<rparr>"

definition ObservePoll :: "PollResult \<Rightarrow> metrics \<Rightarrow> metrics" where
  "ObservePoll r m =
     (let l = lh_name (pr_lighthouse r);
          m1 = m\<lparr>pollsTotal := add_to (l, FormatBool (pr_success r)) 1 (pollsTotal m),
                 pollDuration := observe_at l (pr_duration r) (pollDuration m)\<rparr>
      in fold (observe_command l) (pr_commands r) m1)"

definition ObserveRetentionRun :: "bool \<Rightarrow> metrics \<Rightarrow> metrics" where
  "ObserveRetentionRun success m =
     m\<lparr>retentionRunsTotal := add_to (FormatBool success) 1 (retentionRunsTotal m)\<rparr>"

definition ObserveRetentionDeletedRows :: "string \<Rightarrow> nat \<Rightarrow> metrics \<Rightarrow> metrics" where
  "ObserveRetentionDeletedRows table rows m =
     m\<lparr>retentionDeletedRowsTotal := add_to table rows (retentionDeletedRowsTotal m)\<rparr>"

definition ObserveRetentionDroppedChunks :: "string \<Rightarrow> nat \<Rightarrow> metrics \<Rightarrow> metrics" where
  "ObserveRetentionDroppedChunks table chunks m =
     m\<lparr>retentionDroppedChunksTotal := add_to table chunks (retentionDroppedChunksTotal m)\<rparr>"

lemma FormatBool_inj [simp]: "FormatBool a = FormatBool b \<longleftrightarrow> a = b"
  by (simp add: FormatBool_def)

lemma pollsTotal_fold [simp]: "pollsTotal (fold (observe_command l) cs m) = pollsTotal m"
  by (induction cs arbitrary: m) (simp_all add: observe_command_def)

lemma pollsTotal_ObservePoll:
  "pollsTotal (ObservePoll r m) =
     add_to (lh_name (pr_lighthouse r), FormatBool (pr_success r)) 1 (pollsTotal m)"
  by (simp add: ObservePoll_def Let_def)

lemma commandTotal_fold:
  "commandTotal (fold (observe_command l) cs m) (l', k, b) = commandTotal m (l', k, b) +
     (if l' = l then length (filter (\<lambda>c. cr_command c = k \<and> FormatBool (cr_success c) = b) cs) else 0)"
  by (induction cs arbitrary: m) (auto simp: observe_command_def add_to_def)

end
