(* ===== verification/Retention.thy ===== *)
theory Retention
  imports Storage_Laws Metrics Config
begin

text \<open>
  \<open>internal/retention\<close>: the pruner. Its store interface is the record
  \<open>retention_store\<close>; \<open>ps_ctx\<close> gives the answer of each \<open>ctx.Err()\<close> check in turn.
  The batch loop may run forever on a store that keeps reporting full batches, so it is a
  partial function: None means it does not return. The locale \<open>batch_delete\<close> states what a
  batch promises; both deletes of \<open>Storage\<close> are instances.
\<close>

definition batchSize :: i32 where
  "batchSize = 1000"

definition pollHypertables :: "tbl list" where
  "pollHypertables = [HostmapEntries, AddrmapEntries, RelaySnapshots]"

lemma sint_batchSize [simp]: "sint batchSize = 1000"
  by (simp add: batchSize_def)

record 's retention_store =
  op_DropChunks :: "tbl \<Rightarrow> gotime \<Rightarrow> ('s, nat) act"
  op_DeleteExpiredPollRuns :: "gotime \<Rightarrow> i32 \<Rightarrow> ('s, nat) act"
  op_DeleteExpiredRaw :: "gotime \<Rightarrow> i32 \<Rightarrow> ('s, nat) act"

record 's pruner_state =
  ps_store :: 's
  ps_metrics :: metrics
  ps_ctx :: "nat \<Rightarrow> go_error option"
  ps_checks :: nat

definition Enabled :: "RetentionConfig \<Rightarrow> bool" where
  "Enabled cfg \<longleftrightarrow> sint (rt_period cfg) > 0 \<or> sint (rt_raw_period cfg) > 0"

definition on_store :: "('s, 'a) act \<Rightarrow> ('s pruner_state, 'a) act" where
  "on_store m ps = (case m (ps_store ps) of (r, s) \<Rightarrow> (r, ps\<lparr>ps_store := s\<rparr>))"

definition record_metric :: "(metrics \<Rightarrow> metrics) \<Rightarrow> 's pruner_state \<Rightarrow> 's pruner_state" where
  "record_metric f ps = ps\<lparr>ps_metrics := f (ps_metrics ps)\<rparr>"

definition dropChunks ::
  "'s retention_store \<Rightarrow> gotime \<Rightarrow> tbl \<Rightarrow> ('s pruner_state, unit) act" where
  "dropChunks st cutoff table ps =
     (case on_store (op_DropChunks st table cutoff) ps of
        (Inl err, ps1) \<Rightarrow> (Inl err, ps1)
      | (Inr dropped, ps1) \<Rightarrow>
          (Inr (), record_metric (ObserveRetentionDroppedChunks (table_name table) dropped) ps1))"

partial_function (option) batch_loop ::
  "string \<Rightarrow> ('s, nat) act \<Rightarrow> nat \<Rightarrow> 's pruner_state \<Rightarrow> (nat result \<times> 's pruner_state) option" where
  "batch_loop table deleteBatch acc ps =
     (let ps0 = ps\<lparr>ps_checks := Suc (ps_checks ps)\<rparr> in
      case ps_ctx ps (ps_checks ps) of
        Some err \<Rightarrow> Some (Inl err, ps0)
      | None \<Rightarrow>
          (case on_store deleteBatch ps0 of
             (Inl err, ps1) \<Rightarrow> Some (Inl (Wrap (''prune '' @ table) err), ps1)
           | (Inr deleted, ps1) \<Rightarrow>
               (let ps2 = record_metric (ObserveRetentionDeletedRows table deleted) ps1 in
                if int deleted < sint batchSize then Some (Inr (acc + deleted), ps2)
                else batch_loop table deleteBatch (acc + deleted) ps2)))"

definition deleteBatches ::
  "string \<Rightarrow> ('s, nat) act \<Rightarrow> 's pruner_state \<Rightarrow> (unit result \<times> 's pruner_state) option" where
  "deleteBatches table deleteBatch ps =
     (case batch_loop table deleteBatch 0 ps of
        None \<Rightarrow> None
      | Some (Inl err, ps') \<Rightarrow> Some (Inl err, ps')
      | Some (Inr acc, ps') \<Rightarrow> Some (Inr (), ps'))"

text \<open>The two halves of \<open>Prune\<close>, each behind its \<open>if period > 0\<close>.\<close>

definition cutoff_at :: "gotime \<Rightarrow> i64 \<Rightarrow> gotime" where
  "cutoff_at now period = time_utc (time_add now (- period))"

definition prune_raw ::
  "'s retention_store \<Rightarrow> RetentionConfig \<Rightarrow> bool \<Rightarrow> gotime \<Rightarrow> 's pruner_state \<Rightarrow> (unit result \<times> 's pruner_state) option" where
  "prune_raw st cfg timescale now ps =
     (if sint (rt_raw_period cfg) > 0 then
        (let cutoff = cutoff_at now (rt_raw_period cfg) in
         case (if timescale then dropChunks st cutoff RawPayloads ps else ret () ps) of
           (Inl err, ps1) \<Rightarrow> Some (Inl err, ps1)
         | (Inr _, ps1) \<Rightarrow>
             deleteBatches ''raw_command_payloads'' (op_DeleteExpiredRaw st cutoff batchSize) ps1)
      else Some (Inr (), ps))"

definition prune_polls ::
  "'s retention_store \<Rightarrow> RetentionConfig \<Rightarrow> bool \<Rightarrow> gotime \<Rightarrow> 's pruner_state \<Rightarrow> (unit result \<times> 's pruner_state) option" where
  "prune_polls st cfg timescale now ps =
     (if sint (rt_period cfg) > 0 then
        (let cutoff = cutoff_at now (rt_period cfg);
             tables = (if rt_raw_period cfg = 0 then RawPayloads # pollHypertables else pollHypertables)
         in case (if timescale then foreach (dropChunks st cutoff) tables ps else ret () ps) of
           (Inl err, ps1) \<Rightarrow> Some (Inl err, ps1)
         | (Inr _, ps1) \<Rightarrow>
             deleteBatches ''poll_runs'' (op_DeleteExpiredPollRuns st cutoff batchSize) ps1)
      else Some (Inr (), ps))"

definition Prune ::
  "'s retention_store \<Rightarrow> RetentionConfig \<Rightarrow> bool \<Rightarrow> gotime \<Rightarrow> 's pruner_state \<Rightarrow> (unit result \<times> 's pruner_state) option" where
  "Prune st cfg timescale now ps =
     (let body = (case prune_raw st cfg timescale now ps of
          None \<Rightarrow> None
        | Some (Inl err, ps1) \<Rightarrow> Some (Inl err, ps1)
        | Some (Inr _, ps1) \<Rightarrow> prune_polls st cfg timescale now ps1)
      in map_option (\<lambda>(res, ps'). (res, record_metric (ObserveRetentionRun (\<not> isl res)) ps')) body)"

text \<open>
  \<open>Run\<close>: prune, then wait for the context or the ticker. The wakes are what each
  \<open>select\<close> receives, a tick with the time of the next pruning; without a further wake the
  loop is still waiting. \<open>time.NewTicker\<close> panics unless the interval is positive. The log
  holds the errors reported by \<open>logger.Error\<close>; outer None means that a pruning does not
  return.
\<close>

datatype wake = CtxDone | Tick gotime

datatype 'a run_end = Disabled | TickerPanic | Stopped 'a | Waiting 'a

fun run_loop ::
  "'s retention_store \<Rightarrow> RetentionConfig \<Rightarrow> bool \<Rightarrow> gotime \<Rightarrow> wake list \<Rightarrow>
   go_error list \<Rightarrow> 's pruner_state \<Rightarrow> (go_error list \<times> 's pruner_state) run_end option" where
  "run_loop st cfg timescale now wakes errs ps =
     (case Prune st cfg timescale now ps of
        None \<Rightarrow> None
      | Some (res, ps1) \<Rightarrow>
          (let errs1 = (case res of Inl err \<Rightarrow> (if errors_is err Canceled then errs else errs @ [err])
                       | Inr _ \<Rightarrow> errs)
           in case wakes of
                [] \<Rightarrow> Some (Waiting (errs1, ps1))
              | CtxDone # _ \<Rightarrow> Some (Stopped (errs1, ps1))
              | Tick t # ws \<Rightarrow> run_loop st cfg timescale t ws errs1 ps1))"

definition Run ::
  "'s retention_store \<Rightarrow> RetentionConfig \<Rightarrow> bool \<Rightarrow> gotime \<Rightarrow> wake list \<Rightarrow>
   's pruner_state \<Rightarrow> (go_error list \<times> 's pruner_state) run_end option" where
  "Run st cfg timescale now wakes ps =
     (if \<not> Enabled cfg then Some Disabled
      else if sint (rt_interval cfg) \<le> 0 then Some TickerPanic
      else run_loop st cfg timescale now wakes [] ps)"

section \<open>The contract of a batch\<close>

locale batch_delete =
  fixes pending :: "'s \<Rightarrow> nat"
    and deleteBatch :: "('s, nat) act"
    and ok :: "'s \<Rightarrow> bool"
  assumes batch_ok: "ok s \<Longrightarrow> deleteBatch s = (Inr n, s') \<Longrightarrow>
      n = min 1000 (pending s) \<and> pending s' = pending s - n"
    and ok_kept: "ok s \<Longrightarrow> ok (snd (deleteBatch s))"
begin

lemma loop_result:
  assumes "ok (ps_store ps)"
  shows "\<exists>res ps'. batch_loop table deleteBatch acc ps = Some (res, ps') \<and> ok (ps_store ps') \<and>
     (\<forall>n. res = Inr n \<longrightarrow> n = acc + pending (ps_store ps) \<and> pending (ps_store ps') = 0)"
  using assms
proof (induction "pending (ps_store ps)" arbitrary: acc ps rule: less_induct)
  case less
  let ?ps0 = "ps\<lparr>ps_checks := Suc (ps_checks ps)\<rparr>"
  obtain r s where d: "deleteBatch (ps_store ps) = (r, s)" by fastforce
  have s: "ok s" using ok_kept [OF less.prems] d by simp
  show ?case
  proof (cases "ps_ctx ps (ps_checks ps)")
    case (Some err)
    then show ?thesis using less.prems by (subst batch_loop.simps) (simp add: Let_def)
  next
    case ctx: None
    show ?thesis
    proof (cases r)
      case (Inl err)
      then show ?thesis using ctx d s by (subst batch_loop.simps) (simp add: Let_def on_store_def)
    next
      case (Inr n)
      let ?ps2 = "record_metric (ObserveRetentionDeletedRows table n) (?ps0\<lparr>ps_store := s\<rparr>)"
      have n: "n = min 1000 (pending (ps_store ps))" "pending s = pending (ps_store ps) - n"
        using batch_ok [OF less.prems] d Inr by auto
      have eq: "batch_loop table deleteBatch acc ps =
          (if n < 1000 then Some (Inr (acc + n), ?ps2) else batch_loop table deleteBatch (acc + n) ?ps2)"
        using ctx d Inr by (subst batch_loop.simps) (simp add: Let_def on_store_def)
      show ?thesis
      proof (cases "n < 1000")
        case True
        with eq have "batch_loop table deleteBatch acc ps = Some (Inr (acc + n), ?ps2)" by (simp only: if_True)
        moreover have "n = pending (ps_store ps)" "pending s = 0" using n True by simp_all
        ultimately show ?thesis using s by (simp add: record_metric_def)
      next
        case False
        with n have "pending (ps_store ?ps2) < pending (ps_store ps)" and "ok (ps_store ?ps2)"
          using s by (simp_all add: record_metric_def)
        from less.hyps [OF this, of "acc + n"] eq False n show ?thesis
          by (auto simp: record_metric_def)
      qed
    qed
  qed
qed

lemma loop_succeeds:
  assumes "ok (ps_store ps)" and "P (ps_store ps)" and "succeeds P deleteBatch"
    and "\<forall>n. ps_ctx ps n = None"
  shows "\<exists>n ps'. batch_loop table deleteBatch acc ps = Some (Inr n, ps') \<and> P (ps_store ps') \<and>
     ok (ps_store ps') \<and> ps_ctx ps' = ps_ctx ps"
  using assms(1,2,4)
proof (induction "pending (ps_store ps)" arbitrary: acc ps rule: less_induct)
  case less
  let ?ps0 = "ps\<lparr>ps_checks := Suc (ps_checks ps)\<rparr>"
  from assms(3) less.prems(2) obtain n s where d: "deleteBatch (ps_store ps) = (Inr n, s)" and s: "P s"
    unfolding succeeds_def by blast
  have ok: "ok s" using ok_kept [OF less.prems(1)] d by simp
  let ?ps2 = "record_metric (ObserveRetentionDeletedRows table n) (?ps0\<lparr>ps_store := s\<rparr>)"
  have ps2: "ps_store ?ps2 = s" "ps_ctx ?ps2 = ps_ctx ps" by (simp_all add: record_metric_def)
  have n: "n = min 1000 (pending (ps_store ps))" "pending s = pending (ps_store ps) - n"
    using batch_ok [OF less.prems(1) d] by auto
  have eq: "batch_loop table deleteBatch acc ps =
      (if n < 1000 then Some (Inr (acc + n), ?ps2) else batch_loop table deleteBatch (acc + n) ?ps2)"
    using d less.prems(3) by (subst batch_loop.simps) (simp add: Let_def on_store_def)
  show ?case
  proof (cases "n < 1000")
    case True
    with eq have "batch_loop table deleteBatch acc ps = Some (Inr (acc + n), ?ps2)" by (simp only: if_True)
    with ps2 s ok show ?thesis by (metis (no_types))
  next
    case False
    with n have "pending (ps_store ?ps2) < pending (ps_store ps)" by (simp add: record_metric_def)
    from less.hyps [OF this, of "acc + n"] less.prems(3) s ok
    have "\<exists>m ps'. batch_loop table deleteBatch (acc + n) ?ps2 = Some (Inr m, ps') \<and> P (ps_store ps') \<and>
        ok (ps_store ps') \<and> ps_ctx ps' = ps_ctx ps"
      unfolding ps2 by blast
    then show ?thesis using eq False by (simp only: if_False)
  qed
qed

lemma batches_succeed:
  assumes "ok (ps_store ps)" and "P (ps_store ps)" and "succeeds P deleteBatch"
    and "\<forall>n. ps_ctx ps n = None"
  shows "\<exists>ps'. deleteBatches table deleteBatch ps = Some (Inr (), ps') \<and> P (ps_store ps') \<and>
     ok (ps_store ps') \<and> ps_ctx ps' = ps_ctx ps"
  using loop_succeeds [OF assms, of table 0] by (auto simp: deleteBatches_def)

lemma batches_result:
  assumes "ok (ps_store ps)"
  shows "\<exists>res ps'. deleteBatches table deleteBatch ps = Some (res, ps') \<and> ok (ps_store ps') \<and>
     (res = Inr () \<longrightarrow> pending (ps_store ps') = 0)"
  using loop_result [OF assms, of table 0]
  by (auto simp: deleteBatches_def split: sum.splits)

end

text \<open>A frame relation of the store is kept by the loop when the batch keeps it.\<close>

context state_frame
begin

lemma batch_loop_keeps:
  assumes op: "keeps R op" and res: "batch_loop table op acc ps = Some rp"
  shows "R (ps_store ps) (ps_store (snd rp))"
proof (rule batch_loop.raw_induct [where P = "\<lambda>table' op' acc ps rp. keeps R op' \<longrightarrow>
    R (ps_store ps) (ps_store (snd rp))", OF _ res, THEN mp, OF _ op])
  fix f :: "string \<Rightarrow> ('s, nat) act \<Rightarrow> nat \<Rightarrow> 's pruner_state \<Rightarrow> (nat result \<times> 's pruner_state) option"
    and table op acc and ps :: "'s pruner_state" and rp
  let ?ps0 = "ps\<lparr>ps_checks := Suc (ps_checks ps)\<rparr>"
  assume IH: "\<And>table op acc ps rp. f table op acc ps = Some rp \<Longrightarrow>
      keeps R op \<longrightarrow> R (ps_store ps) (ps_store (snd rp))"
    and eq: "(let ps0 = ?ps0 in
      case ps_ctx ps (ps_checks ps) of
        Some err \<Rightarrow> Some (Inl err, ps0)
      | None \<Rightarrow>
          (case on_store op ps0 of
             (Inl err, ps1) \<Rightarrow> Some (Inl (Wrap (''prune '' @ table) err), ps1)
           | (Inr deleted, ps1) \<Rightarrow>
               (let ps2 = record_metric (ObserveRetentionDeletedRows table deleted) ps1 in
                if int deleted < sint batchSize then Some (Inr (acc + deleted), ps2)
                else f table op (acc + deleted) ps2))) = Some rp"
  show "keeps R op \<longrightarrow> R (ps_store ps) (ps_store (snd rp))"
  proof
    assume op: "keeps R op"
    obtain r s where s: "op (ps_store ps) = (r, s)" by fastforce
    then have R: "R (ps_store ps) s" using op unfolding keeps_def by (metis snd_conv)
    show "R (ps_store ps) (ps_store (snd rp))"
    proof (cases "ps_ctx ps (ps_checks ps) = None \<and> (\<exists>n. r = Inr n \<and> \<not> n < 1000)")
      case False
      with eq s R R_refl show ?thesis
        by (auto simp: on_store_def record_metric_def Let_def split: option.splits sum.splits)
    next
      case True
      then obtain n where n: "ps_ctx ps (ps_checks ps) = None" "r = Inr n" "\<not> n < 1000" by blast
      let ?ps2 = "record_metric (ObserveRetentionDeletedRows table n) (?ps0\<lparr>ps_store := s\<rparr>)"
      from eq n s have "f table op (acc + n) ?ps2 = Some rp"
        by (simp add: on_store_def Let_def)
      from IH [OF this] op have "R s (ps_store (snd rp))" by (simp add: record_metric_def)
      with R show ?thesis by (rule R_trans)
    qed
  qed
qed

lemma deleteBatches_keeps:
  "keeps R op \<Longrightarrow> deleteBatches table op ps = Some (res, ps') \<Longrightarrow> R (ps_store ps) (ps_store ps')"
  using batch_loop_keeps [of op table 0 ps]
  by (auto simp: deleteBatches_def split: option.splits prod.splits sum.splits)

lemma dropChunks_keeps:
  "keeps R (op_DropChunks st table cutoff) \<Longrightarrow> dropChunks st cutoff table ps = (res, ps') \<Longrightarrow>
   R (ps_store ps) (ps_store ps')"
  unfolding keeps_def
  by (auto simp: dropChunks_def on_store_def record_metric_def split: prod.splits sum.splits dest: spec [of _ "ps_store ps"])

lemma dropChunks_loop_keeps:
  assumes "\<And>t. t \<in> set ts \<Longrightarrow> keeps R (op_DropChunks st t cutoff)"
  shows "foreach (dropChunks st cutoff) ts ps = (res, ps') \<Longrightarrow> R (ps_store ps) (ps_store ps')"
  using assms
proof (induction ts arbitrary: ps)
  case Nil
  then show ?case by (simp add: R_refl)
next
  case (Cons t ts)
  obtain r ps1 where d: "dropChunks st cutoff t ps = (r, ps1)" by fastforce
  then have 1: "R (ps_store ps) (ps_store ps1)" by (rule dropChunks_keeps [rotated]) (simp add: Cons.prems)
  with Cons d show ?case
    by (cases r) (auto simp: bindE_def intro: R_trans)
qed

text \<open>
  Each half, and \<open>Prune\<close> itself, relates the store before and after when each of the
  calls its configuration makes does so.
\<close>

lemma prune_raw_keeps:
  assumes raw: "sint (rt_raw_period cfg) > 0 \<Longrightarrow>
      keeps R (op_DeleteExpiredRaw st (cutoff_at now (rt_raw_period cfg)) batchSize)"
    and chunks: "sint (rt_raw_period cfg) > 0 \<Longrightarrow>
      keeps R (op_DropChunks st RawPayloads (cutoff_at now (rt_raw_period cfg)))"
    and res: "prune_raw st cfg timescale now ps = Some (x, ps')"
  shows "R (ps_store ps) (ps_store ps')"
  using res dropChunks_keeps [OF chunks] deleteBatches_keeps [OF raw] R_trans R_refl
  by (fastforce simp: prune_raw_def Let_def split: if_splits prod.splits sum.splits)

lemma prune_polls_keeps:
  assumes polls: "sint (rt_period cfg) > 0 \<Longrightarrow>
      keeps R (op_DeleteExpiredPollRuns st (cutoff_at now (rt_period cfg)) batchSize)"
    and chunks: "\<And>t. sint (rt_period cfg) > 0 \<Longrightarrow> t \<noteq> PollRuns \<Longrightarrow>
      keeps R (op_DropChunks st t (cutoff_at now (rt_period cfg)))"
    and res: "prune_polls st cfg timescale now ps = Some (x, ps')"
  shows "R (ps_store ps) (ps_store ps')"
proof (cases "sint (rt_period cfg) > 0")
  case False
  with res show ?thesis by (auto simp: prune_polls_def R_refl)
next
  case True
  let ?ts = "if rt_raw_period cfg = 0 then RawPayloads # pollHypertables else pollHypertables"
  obtain y q where q: "(if timescale then foreach (dropChunks st (cutoff_at now (rt_period cfg))) ?ts ps
      else ret () ps) = (y, q)" by fastforce
  have "keeps R (op_DropChunks st t (cutoff_at now (rt_period cfg)))" if "t \<in> set ?ts" for t
    using that chunks [OF True] by (auto simp: pollHypertables_def split: if_splits)
  then have "R (ps_store ps) (ps_store q)"
    using q dropChunks_loop_keeps [of ?ts st] R_refl by (metis Pair_inject ret_eq)
  then show ?thesis
    using res q True deleteBatches_keeps [OF polls [OF True]] R_trans
    by (fastforce simp: prune_polls_def Let_def split: sum.splits)
qed

lemma prune_keeps:
  assumes raw: "sint (rt_raw_period cfg) > 0 \<Longrightarrow>
      keeps R (op_DeleteExpiredRaw st (cutoff_at now (rt_raw_period cfg)) batchSize)"
    and raw_chunks: "sint (rt_raw_period cfg) > 0 \<Longrightarrow>
      keeps R (op_DropChunks st RawPayloads (cutoff_at now (rt_raw_period cfg)))"
    and polls: "sint (rt_period cfg) > 0 \<Longrightarrow>
      keeps R (op_DeleteExpiredPollRuns st (cutoff_at now (rt_period cfg)) batchSize)"
    and chunks: "\<And>t. sint (rt_period cfg) > 0 \<Longrightarrow> t \<noteq> PollRuns \<Longrightarrow>
      keeps R (op_DropChunks st t (cutoff_at now (rt_period cfg)))"
    and res: "Prune st cfg timescale now ps = Some (res, ps')"
  shows "R (ps_store ps) (ps_store ps')"
proof -
  from res obtain x p1 where x: "prune_raw st cfg timescale now ps = Some (x, p1)"
    by (auto simp: Prune_def Let_def split: option.splits prod.splits)
  note 1 = prune_raw_keeps [OF raw raw_chunks x]
  show ?thesis
  proof (cases x)
    case (Inl e)
    with res x 1 show ?thesis by (auto simp: Prune_def Let_def record_metric_def)
  next
    case (Inr u)
    with res x obtain y p2 where y: "prune_polls st cfg timescale now p1 = Some (y, p2)"
      and "ps_store p2 = ps_store ps'"
      by (auto simp: Prune_def Let_def record_metric_def)
    with 1 prune_polls_keeps [OF polls chunks y] R_trans show ?thesis by metis
  qed
qed

end

end
