(* ===== verification/Retention_Laws.thy ===== *)
theory Retention_Laws
  imports Retention
begin

text \<open>
  The pruner on the database: the two deletes of \<open>Storage\<close> meet the batch contract, so
  pruning returns and leaves no expired row; the relation \<open>prunes\<close> bounds what it may
  remove, on success and on every error. TimescaleDB's \<open>drop_chunks\<close> is covered by the law
  \<open>drop_law\<close>, with the one-day chunks of the timescale migration as an instance.
\<close>

section \<open>Batches of the two deletes\<close>

definition expired_runs :: "gotime \<Rightarrow> database \<Rightarrow> poll_run list" where
  "expired_runs cutoff d = filter (\<lambda>p. ts_before (po_started_at p) (timestamptz cutoff)) (t_runs d)"

definition expired_raw :: "gotime \<Rightarrow> database \<Rightarrow> RawParams row list" where
  "expired_raw cutoff d = filter (\<lambda>r. ts_before (ra_observed_at (cols r)) (timestamptz cutoff)) (t_raw d)"

definition whole :: "world \<Rightarrow> bool" where
  "whole w \<longleftrightarrow> integrity (tables w)"

text \<open>
  Taking the first rows of an order by their keys removes exactly those rows: the common
  arithmetic of both deletes.
\<close>

lemma batch_counts:
  fixes key :: "'a \<Rightarrow> nat"
  assumes "distinct (map key xs)" and "ids = key ` set (take n (order_by le (filter P xs)))"
  shows "length (filter (\<lambda>x. key x \<in> ids) xs) = min n (length (filter P xs))"
    and "length (filter (\<lambda>x. P x \<and> key x \<in> ids) xs) = min n (length (filter P xs))"
    and "length (filter P (filter (\<lambda>x. key x \<notin> ids) xs)) = length (filter P xs) - min n (length (filter P xs))"
    and "length (filter P (filter (\<lambda>x. \<not> (P x \<and> key x \<in> ids)) xs)) =
           length (filter P xs) - min n (length (filter P xs))"
    and "\<forall>x \<in> set xs. key x \<in> ids \<longrightarrow> P x"
proof -
  let ?ys = "filter P xs" and ?t = "take n (order_by le (filter P xs))"
  let ?ids = "map key ?t"
  have dy: "distinct (map key ?ys)" using assms(1) by (simp add: distinct_map_filter)
  have "mset (map key (order_by le ?ys)) = mset (map key ?ys)" by simp
  then have "distinct (map key (order_by le ?ys))" using dy mset_eq_imp_distinct_iff by blast
  then have di: "distinct ?ids" by (metis distinct_take take_map)
  have sub: "set ?t \<subseteq> set ?ys" by (rule set_take_order_by)
  then have ids: "set ?ids \<subseteq> key ` set ?ys" "set ?ids \<subseteq> key ` set xs" by auto
  have len: "length ?ids = min n (length ?ys)" by simp
  have in_ids: "ids = set ?ids" by (simp add: assms(2))
  show only: "\<forall>x \<in> set xs. key x \<in> ids \<longrightarrow> P x"
  proof (intro ballI impI)
    fix x assume x: "x \<in> set xs" "key x \<in> ids"
    then obtain y where "y \<in> set ?ys" "key y = key x" using ids in_ids by auto
    moreover from this assms(1) x(1) have "y = x" by (auto simp: distinct_map inj_on_def)
    ultimately show "P x" by simp
  qed
  show hit: "length (filter (\<lambda>x. key x \<in> ids) xs) = min n (length ?ys)"
    using length_filter_remove [OF di ids(2) assms(1)] len in_ids by simp
  have same: "filter (\<lambda>x. P x \<and> key x \<in> ids) xs = filter (\<lambda>x. key x \<in> ids) xs"
    by (rule filter_cong) (use only in auto)
  then show "length (filter (\<lambda>x. P x \<and> key x \<in> ids) xs) = min n (length ?ys)" using hit by simp
  have "length (filter (\<lambda>x. key x \<in> ids) ?ys) + length (filter (\<lambda>x. \<not> key x \<in> ids) ?ys) = length ?ys"
    by (rule sum_length_filter_compl)
  moreover have "length (filter (\<lambda>x. key x \<in> ids) ?ys) = min n (length ?ys)"
    using length_filter_remove [OF di ids(1) dy] len in_ids by simp
  moreover have "filter P (filter (\<lambda>x. key x \<notin> ids) xs) = filter (\<lambda>x. key x \<notin> ids) ?ys"
    by (auto intro: filter_cong)
  ultimately show rest: "length (filter P (filter (\<lambda>x. key x \<notin> ids) xs)) = length ?ys - min n (length ?ys)"
    by simp
  have "filter P (filter (\<lambda>x. \<not> (P x \<and> key x \<in> ids)) xs) = filter P (filter (\<lambda>x. key x \<notin> ids) xs)"
    by (auto intro: filter_cong)
  then show "length (filter P (filter (\<lambda>x. \<not> (P x \<and> key x \<in> ids)) xs)) =
      length ?ys - min n (length ?ys)" using rest by simp
qed

lemma delete_runs_ok:
  assumes "DeleteExpiredPollRuns cutoff batchSize w = (Inr n, w')"
  obtains ids where "ids = po_id ` set (take 1000 (order_by (\<lambda>p q. ts_le (po_started_at p) (po_started_at q))
        (expired_runs cutoff (tables w))))"
    and "tables w' = delete_runs ids (tables w)"
    and "n = length (filter (\<lambda>p. po_id p \<in> ids) (t_runs (tables w)))"
proof -
  let ?l = "map po_id (take 1000 (order_by (\<lambda>p q. ts_le (po_started_at p) (po_started_at q))
        (expired_runs cutoff (tables w))))"
  from assms obtain l w1 where l: "ListExpiredPollRunIDs (timestamptz cutoff) batchSize w = (Inr l, w1)"
    and rest: "(if l = [] then ret 0 else wrapE ''delete expired poll runs'' (DeletePollRuns l)) w1 = (Inr n, w')"
    by (auto simp: DeleteExpiredPollRuns_def bindE_Inr)
  from exec_ok [OF l [unfolded ListExpiredPollRunIDs_def]] have "l = ?l" and t1: "tables w1 = tables w"
    by (auto simp: sql_list_expired_def expired_runs_def)
  show thesis
  proof (cases "l = []")
    case True
    with rest t1 \<open>l = ?l\<close> that [of "{}"] show ?thesis
      by (cases "expired_runs cutoff (tables w)") (auto simp: delete_runs_def)
  next
    case False
    with rest have "DeletePollRuns l w1 = (Inr n, w')" by simp
    from exec_ok [OF this [unfolded DeletePollRuns_def]] t1 \<open>l = ?l\<close> that [of "set l"] show ?thesis
      by (auto simp: sql_delete_poll_runs_def)
  qed
qed

lemma delete_raw_ok:
  assumes "DeleteExpiredRawCommandPayloads cutoff batchSize w = (Inr n, w')"
  shows "sql_delete_expired_raw (timestamptz cutoff) 1000 (tables w) = (Inr n, tables w')"
  using assms exec_ok [of "sql_delete_expired_raw (timestamptz cutoff) 1000" w n w']
  by (auto simp: DeleteExpiredRawCommandPayloads_def DeleteExpiredRaw_def)

lemma keeps_delete_runs: "keeps safe_step (DeleteExpiredPollRuns cutoff n)"
  unfolding DeleteExpiredPollRuns_def
  by (intro sf.keeps_intros inv_intros)

lemma keeps_delete_raw: "keeps safe_step (DeleteExpiredRawCommandPayloads cutoff n)"
  unfolding DeleteExpiredRawCommandPayloads_def
  by (intro sf.keeps_intros inv_intros)

interpretation runs: batch_delete
  "\<lambda>w. length (expired_runs cutoff (tables w))" "DeleteExpiredPollRuns cutoff batchSize" whole for cutoff
proof unfold_locales
  fix s n s'
  assume w: "whole s" and d: "DeleteExpiredPollRuns cutoff batchSize s = (Inr n, s')"
  have dist: "distinct (map po_id (t_runs (tables s)))" using w by (simp add: whole_def integrity_defs)
  from d obtain ids where ids: "ids = po_id ` set (take 1000 (order_by
        (\<lambda>p q. ts_le (po_started_at p) (po_started_at q)) (expired_runs cutoff (tables s))))"
    and t: "tables s' = delete_runs ids (tables s)"
    and n: "n = length (filter (\<lambda>p. po_id p \<in> ids) (t_runs (tables s)))"
    by (rule delete_runs_ok)
  note counts = batch_counts [OF dist ids [unfolded expired_runs_def]]
  show "n = min 1000 (length (expired_runs cutoff (tables s))) \<and>
      length (expired_runs cutoff (tables s')) = length (expired_runs cutoff (tables s)) - n"
    using counts(1,3) n by (simp add: t expired_runs_def delete_runs_def)
next
  fix s assume "whole s"
  then show "whole (snd (DeleteExpiredPollRuns cutoff batchSize s))"
    using keeps_delete_runs by (simp add: keeps_def safe_step_def whole_def)
qed

interpretation raws: batch_delete
  "\<lambda>w. length (expired_raw cutoff (tables w))" "DeleteExpiredRawCommandPayloads cutoff batchSize" whole for cutoff
proof unfold_locales
  fix s n s'
  assume w: "whole s" and d: "DeleteExpiredRawCommandPayloads cutoff batchSize s = (Inr n, s')"
  have dist: "distinct (map row_id (t_raw (tables s)))" using w by (simp add: whole_def integrity_defs)
  note counts = batch_counts [OF dist refl]
  show "n = min 1000 (length (expired_raw cutoff (tables s))) \<and>
      length (expired_raw cutoff (tables s')) = length (expired_raw cutoff (tables s)) - n"
    using delete_raw_ok [OF d, symmetric] counts(2,4)
    by (auto simp: sql_delete_expired_raw_def Let_def expired_raw_def)
next
  fix s assume "whole s"
  then show "whole (snd (DeleteExpiredRawCommandPayloads cutoff batchSize s))"
    using keeps_delete_raw by (simp add: keeps_def safe_step_def whole_def)
qed

section \<open>What pruning may remove\<close>

text \<open>
  From \<open>d\<close> to \<open>d'\<close> rows were only removed; a run was removed only if it started before
  the cutoff \<open>c\<close>, a normalized row only with an expired run, a raw payload only with an
  expired run or when observed before the raw cutoff \<open>rc\<close>. A cutoff NULL expires nothing.
\<close>

definition live_run :: "int option \<Rightarrow> database \<Rightarrow> nat \<Rightarrow> bool" where
  "live_run c d i \<longleftrightarrow> (\<forall>p \<in> set (t_runs d). po_id p = i \<longrightarrow> \<not> ts_before (po_started_at p) c)"

definition shrinks :: "database \<Rightarrow> database \<Rightarrow> bool" where
  "shrinks d d' \<longleftrightarrow> set (t_runs d') \<subseteq> set (t_runs d) \<and> set (t_raw d') \<subseteq> set (t_raw d) \<and>
     set (t_hostmap d') \<subseteq> set (t_hostmap d) \<and> set (t_addrmap d') \<subseteq> set (t_addrmap d) \<and>
     set (t_relays d') \<subseteq> set (t_relays d)"

definition retains :: "int option \<Rightarrow> int option \<Rightarrow> database \<Rightarrow> database \<Rightarrow> bool" where
  "retains c rc d d' \<longleftrightarrow>
     (\<forall>p \<in> set (t_runs d). \<not> ts_before (po_started_at p) c \<longrightarrow> p \<in> set (t_runs d')) \<and>
     (\<forall>x \<in> set (t_raw d). live_run c d (ra_poll_run_id (cols x)) \<and> \<not> ts_before (ra_observed_at (cols x)) rc
        \<longrightarrow> x \<in> set (t_raw d')) \<and>
     (\<forall>x \<in> set (t_hostmap d). live_run c d (ho_poll_run_id (cols x)) \<longrightarrow> x \<in> set (t_hostmap d')) \<and>
     (\<forall>x \<in> set (t_addrmap d). live_run c d (ad_poll_run_id (cols x)) \<longrightarrow> x \<in> set (t_addrmap d')) \<and>
     (\<forall>x \<in> set (t_relays d). live_run c d (re_poll_run_id (cols x)) \<longrightarrow> x \<in> set (t_relays d'))"

definition prunes :: "int option \<Rightarrow> int option \<Rightarrow> database \<Rightarrow> database \<Rightarrow> bool" where
  "prunes c rc d d' \<longleftrightarrow> shrinks d d' \<and> retains c rc d d'"

lemma live_run_mono: "shrinks d d' \<Longrightarrow> live_run c d i \<Longrightarrow> live_run c d' i"
  by (auto simp: shrinks_def live_run_def)

lemma shrinks_refl: "shrinks d d"
  by (simp add: shrinks_def)

lemma prunes_refl: "prunes c rc d d"
  by (simp add: prunes_def shrinks_def retains_def)

lemma shrinks_trans: "shrinks d e \<Longrightarrow> shrinks e f \<Longrightarrow> shrinks d f"
  by (auto simp: shrinks_def)

lemma retains_trans:
  assumes "shrinks d e" and "retains c rc d e" and "retains c rc e f"
  shows "retains c rc d f"
proof -
  have runs: "p \<in> set (t_runs f)" if "p \<in> set (t_runs d)" "\<not> ts_before (po_started_at p) c" for p
    using that assms(2,3) by (simp add: retains_def)
  have raw: "x \<in> set (t_raw f)" if "x \<in> set (t_raw d)" "live_run c d (ra_poll_run_id (cols x))"
    "\<not> ts_before (ra_observed_at (cols x)) rc" for x
    using that assms(2,3) live_run_mono [OF assms(1) that(2)] by (simp add: retains_def)
  have hostmap: "x \<in> set (t_hostmap f)" if "x \<in> set (t_hostmap d)" "live_run c d (ho_poll_run_id (cols x))" for x
    using that assms(2,3) live_run_mono [OF assms(1) that(2)] by (simp add: retains_def)
  have addrmap: "x \<in> set (t_addrmap f)" if "x \<in> set (t_addrmap d)" "live_run c d (ad_poll_run_id (cols x))" for x
    using that assms(2,3) live_run_mono [OF assms(1) that(2)] by (simp add: retains_def)
  have "x \<in> set (t_relays f)" if "x \<in> set (t_relays d)" "live_run c d (re_poll_run_id (cols x))" for x
    using that assms(2,3) live_run_mono [OF assms(1) that(2)] by (simp add: retains_def)
  with runs raw hostmap addrmap show ?thesis by (simp add: retains_def)
qed

lemma prunes_trans: "prunes c rc d e \<Longrightarrow> prunes c rc e f \<Longrightarrow> prunes c rc d f"
  unfolding prunes_def using shrinks_trans retains_trans by blast

lemma aligned_shrinks:
  assumes s: "shrinks d d'" and a: "aligned d"
  shows "aligned d'"
  unfolding aligned_def
proof
  fix p assume "p \<in> set (t_runs d')"
  then have p: "p \<in> set (t_runs d)" using s by (auto simp: shrinks_def)
  have sub: "cols ` set (t_raw d') \<subseteq> cols ` set (t_raw d)"
    "cols ` set (t_hostmap d') \<subseteq> cols ` set (t_hostmap d)"
    "cols ` set (t_addrmap d') \<subseteq> cols ` set (t_addrmap d)"
    "cols ` set (t_relays d') \<subseteq> cols ` set (t_relays d)"
    using s unfolding shrinks_def by (blast intro: image_mono)+
  note ap = a [unfolded aligned_def, THEN bspec, OF p]
  show "(\<forall>h \<in> cols ` set (t_hostmap d'). ho_poll_run_id h = po_id p \<longrightarrow> ho_observed_at h = po_started_at p) \<and>
     (\<forall>a \<in> cols ` set (t_addrmap d'). ad_poll_run_id a = po_id p \<longrightarrow> ad_observed_at a = po_started_at p) \<and>
     (\<forall>s \<in> cols ` set (t_relays d'). re_poll_run_id s = po_id p \<longrightarrow> re_observed_at s = po_started_at p) \<and>
     (\<forall>x \<in> cols ` set (t_raw d'). ra_poll_run_id x = po_id p \<longrightarrow>
        ts_le (po_started_at p) (ra_observed_at x))"
    using ap sub by (meson subsetD)
qed

lemma completed_shrinks: "shrinks d d' \<Longrightarrow> completed d \<Longrightarrow> completed d'"
  unfolding shrinks_def completed_def by blast

lemma prunes_db_inv: "prunes c rc d d' \<Longrightarrow> integrity d' \<Longrightarrow> db_inv d \<Longrightarrow> db_inv d'"
  using aligned_shrinks completed_shrinks by (auto simp: db_inv_def prunes_def)

definition prune_step :: "int option \<Rightarrow> int option \<Rightarrow> world \<Rightarrow> world \<Rightarrow> bool" where
  "prune_step c rc w w' \<longleftrightarrow>
     (db_inv (tables w) \<longrightarrow> db_inv (tables w') \<and> prunes c rc (tables w) (tables w'))"

interpretation pf: state_frame "prune_step c rc" for c rc
  by unfold_locales (auto simp: prune_step_def intro: prunes_refl prunes_trans)

lemma keeps_prune_exec:
  assumes "\<And>d. db_inv d \<Longrightarrow> integrity (snd (stmt d)) \<and> prunes c rc d (snd (stmt d))"
  shows "keeps (prune_step c rc) (exec stmt)"
proof -
  have "db_inv (snd (stmt d)) \<and> prunes c rc d (snd (stmt d))" if "db_inv d" for d
    using assms [OF that] that prunes_db_inv by blast
  then show ?thesis
    using exec_tables [of stmt] unfolding keeps_def prune_step_def
    by (metis insertE prunes_refl singletonD)
qed

lemma prunes_delete_runs:
  assumes "\<forall>p \<in> set (t_runs d). po_id p \<in> ids \<longrightarrow> ts_before (po_started_at p) c" and "foreign_keys_ok d"
  shows "prunes c rc d (delete_runs ids d)"
proof -
  have "i \<notin> ids" if "live_run c d i" "i \<in> run_ids d" for i
    using that assms(1) by (auto simp: live_run_def run_ids_def)
  with assms show ?thesis
    by (auto simp: prunes_def shrinks_def retains_def delete_runs_def foreign_keys_ok_def)
qed

text \<open>One batch of the run delete: nothing, or the selected runs with their rows.\<close>

lemma delete_runs_tables:
  "tables (snd (DeleteExpiredPollRuns cutoff batchSize w)) \<in> {tables w, delete_runs
     (po_id ` set (take 1000 (order_by (\<lambda>p q. ts_le (po_started_at p) (po_started_at q))
        (expired_runs cutoff (tables w))))) (tables w)}"
proof -
  let ?l = "map po_id (take 1000 (order_by (\<lambda>p q. ts_le (po_started_at p) (po_started_at q))
        (expired_runs cutoff (tables w))))"
  obtain r w1 where l: "ListExpiredPollRunIDs (timestamptz cutoff) batchSize w = (r, w1)" by fastforce
  have t1: "tables w1 = tables w"
    using exec_tables [of "sql_list_expired (timestamptz cutoff) 1000" w] l
    by (simp add: ListExpiredPollRunIDs_def sql_list_expired_def)
  show ?thesis
  proof (cases r)
    case (Inl e)
    with l t1 show ?thesis by (simp add: DeleteExpiredPollRuns_def bindE_def wrapE_def)
  next
    case (Inr ids)
    have ids: "ids = ?l"
      using exec_ok [OF l [unfolded Inr ListExpiredPollRunIDs_def]]
      by (auto simp: sql_list_expired_def expired_runs_def)
    have "tables (snd (DeletePollRuns ids w1)) \<in> {tables w, delete_runs (set ids) (tables w)}"
      using exec_tables [of "sql_delete_poll_runs ids" w1] t1
      by (simp add: DeletePollRuns_def sql_delete_poll_runs_def)
    moreover have "tables (snd (DeleteExpiredPollRuns cutoff batchSize w)) =
        (if ids = [] then tables w else tables (snd (DeletePollRuns ids w1)))"
      using l Inr t1 by (simp add: DeleteExpiredPollRuns_def bindE_def wrapE_def split: prod.split sum.split)
    ultimately show ?thesis using ids by auto
  qed
qed

lemma ts_before_wall: "ts_before t (timestamptz cutoff) \<Longrightarrow> ts_before t (Some (wall cutoff))"
  by (auto simp: timestamptz_def ts_before_def split: if_splits option.splits)

lemma keeps_prune_runs:
  "keeps (prune_step (Some (wall cutoff)) rc) (DeleteExpiredPollRuns cutoff batchSize)"
  unfolding keeps_def
proof
  fix w
  let ?c = "Some (wall cutoff)" and ?w' = "snd (DeleteExpiredPollRuns cutoff batchSize w)"
  show "prune_step ?c rc w ?w'"
    unfolding prune_step_def
  proof
    assume inv: "db_inv (tables w)"
    let ?ids = "po_id ` set (take 1000 (order_by (\<lambda>p q. ts_le (po_started_at p) (po_started_at q))
        (expired_runs cutoff (tables w))))"
    have i: "integrity (tables w)" and "distinct (map po_id (t_runs (tables w)))"
      and fk: "foreign_keys_ok (tables w)"
      using inv by (simp_all add: db_inv_def integrity_def ids_ok_def)
    from batch_counts(5) [OF this(2) refl, of 1000 "\<lambda>p q. ts_le (po_started_at p) (po_started_at q)"
        "\<lambda>p. ts_before (po_started_at p) (timestamptz cutoff)"]
    have "\<forall>p \<in> set (t_runs (tables w)). po_id p \<in> ?ids \<longrightarrow> ts_before (po_started_at p) ?c"
      unfolding expired_runs_def using ts_before_wall by blast
    then have del: "prunes ?c rc (tables w) (delete_runs ?ids (tables w))"
      by (rule prunes_delete_runs) (rule fk)
    from delete_runs_tables [of cutoff w] consider "tables ?w' = tables w"
      | "tables ?w' = delete_runs ?ids (tables w)" by blast
    then show "db_inv (tables ?w') \<and> prunes ?c rc (tables w) (tables ?w')"
    proof cases
      case 1
      then show ?thesis using inv prunes_refl by simp
    next
      case 2
      then show ?thesis using del prunes_db_inv [OF del integrity_delete [OF i] inv] by simp
    qed
  qed
qed

lemma prunes_shrink_raw:
  assumes "\<forall>r \<in> set (t_raw d). \<not> P r \<longrightarrow> ts_before (ra_observed_at (cols r)) rc"
  shows "prunes c rc d (d\<lparr>t_raw := filter P (t_raw d)\<rparr>)"
  using assms by (auto simp: prunes_def shrinks_def retains_def)

lemma keeps_prune_raw:
  "keeps (prune_step c (Some (wall cutoff))) (DeleteExpiredRawCommandPayloads cutoff batchSize)"
proof -
  have "integrity (snd (sql_delete_expired_raw (timestamptz cutoff) 1000 d)) \<and>
      prunes c (Some (wall cutoff)) d (snd (sql_delete_expired_raw (timestamptz cutoff) 1000 d))"
    if "db_inv d" for d
  proof -
    have "integrity d" using that by (simp add: db_inv_def)
    then show ?thesis
      unfolding sql_delete_expired_raw_def Let_def snd_conv
      by (intro conjI integrity_shrink_raw prunes_shrink_raw) (use ts_before_wall in blast)+
  qed
  then show ?thesis
    unfolding DeleteExpiredRawCommandPayloads_def DeleteExpiredRaw_def
    by (intro pf.keeps_wrapE) (simp add: keeps_prune_exec)
qed

section \<open>Dropping chunks\<close>

text \<open>The tables without the rows of \<open>t\<close> whose observation time is not kept.\<close>

fun drop_rows :: "tbl \<Rightarrow> (int option \<Rightarrow> bool) \<Rightarrow> database \<Rightarrow> database" where
  "drop_rows PollRuns keep d = d"
| "drop_rows RawPayloads keep d = d\<lparr>t_raw := filter (\<lambda>r. keep (ra_observed_at (cols r))) (t_raw d)\<rparr>"
| "drop_rows HostmapEntries keep d = d\<lparr>t_hostmap := filter (\<lambda>r. keep (ho_observed_at (cols r))) (t_hostmap d)\<rparr>"
| "drop_rows AddrmapEntries keep d = d\<lparr>t_addrmap := filter (\<lambda>r. keep (ad_observed_at (cols r))) (t_addrmap d)\<rparr>"
| "drop_rows RelaySnapshots keep d = d\<lparr>t_relays := filter (\<lambda>r. keep (re_observed_at (cols r))) (t_relays d)\<rparr>"

text \<open>
  What TimescaleDB documents of \<open>drop_chunks(older_than => c)\<close>: the chunks dropped only hold
  rows older than \<open>c\<close>. Which of the older rows go depends on the chunk bounds.
\<close>

definition drop_law :: "drop_chunks \<Rightarrow> bool" where
  "drop_law f \<longleftrightarrow> (\<forall>t c d. \<exists>keep. snd (f t c d) = drop_rows t keep d \<and>
     (\<forall>ts. \<not> ts_before ts (Some c) \<longrightarrow> keep ts))"

text \<open>Chunks of one day, as the timescale migration sets them up.\<close>

definition day :: int where "day = 86400000000000"

definition day_gone :: "int \<Rightarrow> int option \<Rightarrow> bool" where
  "day_gone c ts \<longleftrightarrow> (case ts of None \<Rightarrow> False | Some x \<Rightarrow> (x div day + 1) * day \<le> c)"

fun observation_times :: "tbl \<Rightarrow> database \<Rightarrow> int option list" where
  "observation_times PollRuns d = []"
| "observation_times RawPayloads d = map (ra_observed_at \<circ> cols) (t_raw d)"
| "observation_times HostmapEntries d = map (ho_observed_at \<circ> cols) (t_hostmap d)"
| "observation_times AddrmapEntries d = map (ad_observed_at \<circ> cols) (t_addrmap d)"
| "observation_times RelaySnapshots d = map (re_observed_at \<circ> cols) (t_relays d)"

definition day_chunks :: drop_chunks where
  "day_chunks t c d =
     (length (remdups (map (map_option (\<lambda>x. x div day)) (filter (day_gone c) (observation_times t d)))),
      drop_rows t (\<lambda>ts. \<not> day_gone c ts) d)"

lemma day_gone_before: "day_gone c ts \<Longrightarrow> ts_before ts (Some c)"
proof (cases ts)
  case (Some x)
  have "x < (x div day + 1) * day"
    using div_mult_mod_eq [of x day] pos_mod_bound [of day x] by (simp add: day_def algebra_simps)
  then show "day_gone c ts \<Longrightarrow> ts_before ts (Some c)"
    using Some by (simp add: day_gone_def ts_before_def)
qed (simp add: day_gone_def)

lemma drop_law_day_chunks: "drop_law day_chunks"
  unfolding drop_law_def day_chunks_def snd_conv using day_gone_before by blast

lemma integrity_drop: "integrity d \<Longrightarrow> integrity (drop_rows t keep d)"
  by (cases t) (auto simp: integrity_defs run_ids_def distinct_map_filter)

lemma live_row:
  assumes "live_run c d i" and "i \<in> run_ids d"
    and "\<And>p. p \<in> set (t_runs d) \<Longrightarrow> po_id p = i \<Longrightarrow> ts_le (po_started_at p) ts \<and> po_started_at p \<noteq> None"
  shows "\<not> ts_before ts c"
proof -
  from assms(2) obtain p where p: "p \<in> set (t_runs d)" "po_id p = i" by (auto simp: run_ids_def)
  with assms(1) have "\<not> ts_before (po_started_at p) c" by (simp add: live_run_def)
  with assms(3) [OF p] show ?thesis
    by (auto simp: ts_before_def ts_le_def split: option.splits)
qed

text \<open>Rows of a run that is not expired are not older than the cutoff, so no chunk takes them.\<close>

lemma live_rows:
  assumes "db_inv d"
  shows "x \<in> set (t_raw d) \<Longrightarrow> live_run c d (ra_poll_run_id (cols x)) \<Longrightarrow> \<not> ts_before (ra_observed_at (cols x)) c"
    and "h \<in> set (t_hostmap d) \<Longrightarrow> live_run c d (ho_poll_run_id (cols h)) \<Longrightarrow> \<not> ts_before (ho_observed_at (cols h)) c"
    and "a \<in> set (t_addrmap d) \<Longrightarrow> live_run c d (ad_poll_run_id (cols a)) \<Longrightarrow> \<not> ts_before (ad_observed_at (cols a)) c"
    and "s \<in> set (t_relays d) \<Longrightarrow> live_run c d (re_poll_run_id (cols s)) \<Longrightarrow> \<not> ts_before (re_observed_at (cols s)) c"
proof -
  have al: "aligned d" and fk: "foreign_keys_ok d" and started: "\<forall>p \<in> set (t_runs d). po_started_at p \<noteq> None"
    using assms by (simp_all add: db_inv_def integrity_def columns_ok_def)
  show "x \<in> set (t_raw d) \<Longrightarrow> live_run c d (ra_poll_run_id (cols x)) \<Longrightarrow> \<not> ts_before (ra_observed_at (cols x)) c"
    by (erule live_row) (use al fk started in \<open>auto simp: aligned_def foreign_keys_ok_def\<close>)
  show "h \<in> set (t_hostmap d) \<Longrightarrow> live_run c d (ho_poll_run_id (cols h)) \<Longrightarrow> \<not> ts_before (ho_observed_at (cols h)) c"
    by (erule live_row) (use al fk started in \<open>auto simp: aligned_def foreign_keys_ok_def\<close>)
  show "a \<in> set (t_addrmap d) \<Longrightarrow> live_run c d (ad_poll_run_id (cols a)) \<Longrightarrow> \<not> ts_before (ad_observed_at (cols a)) c"
    by (erule live_row) (use al fk started in \<open>auto simp: aligned_def foreign_keys_ok_def\<close>)
  show "s \<in> set (t_relays d) \<Longrightarrow> live_run c d (re_poll_run_id (cols s)) \<Longrightarrow> \<not> ts_before (re_observed_at (cols s)) c"
    by (erule live_row) (use al fk started in \<open>auto simp: aligned_def foreign_keys_ok_def\<close>)
qed

lemma prunes_drop:
  assumes "db_inv d" and "\<forall>ts. \<not> ts_before ts (Some c) \<longrightarrow> keep ts"
  shows "prunes (Some c) rc d (drop_rows t keep d)"
  using assms(2) live_rows [OF assms(1), of _ "Some c"]
  by (cases t) (auto simp: prunes_def shrinks_def retains_def)

lemma prunes_drop_raw:
  assumes "\<forall>ts. \<not> ts_before ts (Some rc) \<longrightarrow> keep ts"
  shows "prunes c (Some rc) d (drop_rows RawPayloads keep d)"
  using prunes_shrink_raw [of d "\<lambda>r. keep (ra_observed_at (cols r))" "Some rc" c] assms by auto

lemma drop_chunks_rows:
  assumes "drop_law chunks"
  obtains keep where "snd (sql_drop_chunks chunks t c d) = drop_rows t keep d"
    and "\<forall>ts. \<not> ts_before ts (Some c) \<longrightarrow> keep ts"
  using assms unfolding drop_law_def sql_drop_chunks_def split_beta snd_conv by blast

lemma keeps_prune_drop:
  assumes law: "drop_law chunks"
    and pr: "\<And>d keep. db_inv d \<Longrightarrow> \<forall>ts. \<not> ts_before ts (Some (wall cutoff)) \<longrightarrow> keep ts \<Longrightarrow>
      prunes c rc d (drop_rows t keep d)"
  shows "keeps (prune_step c rc) (DropChunks chunks t cutoff)"
proof -
  have "integrity (snd (sql_drop_chunks chunks t (wall cutoff) d)) \<and>
      prunes c rc d (snd (sql_drop_chunks chunks t (wall cutoff) d))" if d: "db_inv d" for d
    by (rule drop_chunks_rows [OF law, of t "wall cutoff" d])
       (use pr [OF d] d integrity_drop in \<open>simp add: db_inv_def\<close>)
  then show ?thesis
    unfolding DropChunks_def wall_time_utc by (intro pf.keeps_wrapE keeps_prune_exec)
qed

section \<open>The pruner on the database\<close>

definition db_store :: "drop_chunks \<Rightarrow> world retention_store" where
  "db_store chunks = \<lparr>op_DropChunks = DropChunks chunks, op_DeleteExpiredPollRuns = DeleteExpiredPollRuns,
     op_DeleteExpiredRaw = DeleteExpiredRawCommandPayloads\<rparr>"

lemma db_store_sel [simp]:
  "op_DropChunks (db_store chunks) = DropChunks chunks"
  "op_DeleteExpiredPollRuns (db_store chunks) = DeleteExpiredPollRuns"
  "op_DeleteExpiredRaw (db_store chunks) = DeleteExpiredRawCommandPayloads"
  by (simp_all add: db_store_def)

text \<open>The cutoff of a period at a time; none when the period is not positive.\<close>

definition cutoff_of :: "gotime \<Rightarrow> i64 \<Rightarrow> int option" where
  "cutoff_of now period = (if sint period > 0 then Some (wall now - sint period) else None)"

text \<open>The duration is subtracted exactly: the negation of a positive duration does not overflow.\<close>

lemma sint_uminus_pos:
  fixes p :: i64
  assumes "sint p > 0"
  shows "sint (- p) = - sint p"
proof -
  have "sint p < 2 ^ 63" using sint_less [of p] by simp
  with assms show ?thesis
    by (simp add: sint_word_ariths signed_take_bit_int_eq_self)
qed

lemma cutoff_at_pos: "sint period > 0 \<Longrightarrow> cutoff_at now period = \<lparr>wall = wall now - sint period, mono = None\<rparr>"
  by (simp add: cutoff_at_def time_utc_def time_add_def sint_uminus_pos)

lemma cutoff_of_at: "cutoff_of now period = (if sint period > 0 then Some (wall (cutoff_at now period)) else None)"
  by (simp add: cutoff_of_def cutoff_at_pos)

lemma prune_step_prune:
  assumes law: "drop_law chunks"
    and res: "Prune (db_store chunks) cfg timescale now ps = Some (res, ps')"
  shows "prune_step (cutoff_of now (rt_period cfg)) (cutoff_of now (rt_raw_period cfg))
     (ps_store ps) (ps_store ps')"
  by (rule pf.prune_keeps [OF _ _ _ _ res])
     (auto simp: cutoff_of_at
       intro: keeps_prune_raw keeps_prune_runs keeps_prune_drop law prunes_drop prunes_drop_raw)

lemma prune_step_polls:
  assumes law: "drop_law chunks"
    and res: "prune_polls (db_store chunks) cfg timescale now ps = Some (x, ps')"
  shows "prune_step (cutoff_of now (rt_period cfg)) None (ps_store ps) (ps_store ps')"
  by (rule pf.prune_polls_keeps [OF _ _ res])
     (auto simp: cutoff_of_at intro: keeps_prune_runs keeps_prune_drop law prunes_drop)

lemma safe_drop_chunks: "drop_law chunks \<Longrightarrow> safe_stmt (sql_drop_chunks chunks t c)"
  unfolding safe_stmt_def
proof
  fix d assume "drop_law chunks"
  then obtain keep where "snd (sql_drop_chunks chunks t c d) = drop_rows t keep d"
    by (rule drop_chunks_rows)
  moreover have "t_seq (drop_rows t keep d) = t_seq d" by (cases t) simp_all
  ultimately show "(integrity d \<longrightarrow> integrity (snd (sql_drop_chunks chunks t c d))) \<and>
      (\<forall>u. t_seq d u \<le> t_seq (snd (sql_drop_chunks chunks t c d)) u)"
    using integrity_drop by simp
qed

lemma keeps_drop_safe: "drop_law chunks \<Longrightarrow> keeps safe_step (DropChunks chunks t cutoff)"
  unfolding DropChunks_def by (intro sf.keeps_wrapE keeps_exec safe_drop_chunks)

text \<open>Each half returns from a world whose tables meet the schema.\<close>

lemma dropped_whole:
  assumes "drop_law chunks" and "whole (ps_store ps)"
    and "(if timescale then foreach (dropChunks (db_store chunks) cutoff) ts ps else ret () ps) = (r, ps1)"
  shows "whole (ps_store ps1)"
proof (cases timescale)
  case True
  have "safe_step (ps_store ps) (ps_store ps1)"
    by (rule sf.dropChunks_loop_keeps [of ts "db_store chunks" cutoff ps r])
       (use assms True keeps_drop_safe in \<open>auto simp:\<close>)
  with assms(2) show ?thesis by (simp add: safe_step_def whole_def)
qed (use assms in auto)

lemma prune_raw_returns:
  assumes "drop_law chunks" and "whole (ps_store ps)"
  shows "\<exists>res ps'. prune_raw (db_store chunks) cfg timescale now ps = Some (res, ps') \<and> whole (ps_store ps') \<and>
     (res = Inr () \<longrightarrow> sint (rt_raw_period cfg) > 0 \<longrightarrow>
        expired_raw (cutoff_at now (rt_raw_period cfg)) (tables (ps_store ps')) = [])"
proof (cases "sint (rt_raw_period cfg) > 0")
  case False
  then show ?thesis using assms by (simp add: prune_raw_def)
next
  case True
  let ?c = "cutoff_at now (rt_raw_period cfg)"
  obtain r ps1 where d: "(if timescale then foreach (dropChunks (db_store chunks) ?c) [RawPayloads] ps
      else ret () ps) = (r, ps1)" by fastforce
  have d': "(if timescale then dropChunks (db_store chunks) ?c RawPayloads ps else ret () ps) = (r, ps1)"
    using d by (auto simp: bindE_def split: prod.splits sum.splits if_splits)
  note w1 = dropped_whole [OF assms d]
  show ?thesis
  proof (cases r)
    case (Inl e)
    with True d' w1 show ?thesis by (simp add: prune_raw_def Let_def)
  next
    case (Inr u)
    from raws.batches_result [OF w1, of "''raw_command_payloads''" ?c]
    show ?thesis using True d' Inr by (auto simp: prune_raw_def Let_def)
  qed
qed

lemma prune_polls_returns:
  assumes "drop_law chunks" and "whole (ps_store ps)"
  shows "\<exists>res ps'. prune_polls (db_store chunks) cfg timescale now ps = Some (res, ps') \<and> whole (ps_store ps') \<and>
     (res = Inr () \<longrightarrow> sint (rt_period cfg) > 0 \<longrightarrow>
        expired_runs (cutoff_at now (rt_period cfg)) (tables (ps_store ps')) = [])"
proof (cases "sint (rt_period cfg) > 0")
  case False
  then show ?thesis using assms by (simp add: prune_polls_def)
next
  case True
  let ?c = "cutoff_at now (rt_period cfg)"
  let ?ts = "if rt_raw_period cfg = 0 then RawPayloads # pollHypertables else pollHypertables"
  obtain r ps1 where d: "(if timescale then foreach (dropChunks (db_store chunks) ?c) ?ts ps
      else ret () ps) = (r, ps1)" by fastforce
  note w1 = dropped_whole [OF assms d]
  show ?thesis
  proof (cases r)
    case (Inl e)
    with True d w1 show ?thesis by (simp add: prune_polls_def Let_def)
  next
    case (Inr u)
    from runs.batches_result [OF w1, of "''poll_runs''" ?c]
    show ?thesis using True d Inr by (auto simp: prune_polls_def Let_def)
  qed
qed

lemma prune_returns:
  assumes "drop_law chunks" and "integrity (tables (ps_store ps))"
  shows "\<exists>res ps'. Prune (db_store chunks) cfg timescale now ps = Some (res, ps')"
proof -
  from prune_raw_returns [OF assms(1), of ps cfg timescale now] assms(2)
  obtain r ps1 where r: "prune_raw (db_store chunks) cfg timescale now ps = Some (r, ps1)"
    "whole (ps_store ps1)" by (auto simp: whole_def)
  from prune_polls_returns [OF assms(1) r(2), of cfg timescale now] r(1) show ?thesis
    by (cases r) (auto simp: Prune_def Let_def)
qed

lemma prune_complete:
  assumes law: "drop_law chunks" and inv: "db_inv (tables (ps_store ps))"
    and res: "Prune (db_store chunks) cfg timescale now ps = Some (Inr (), ps')"
  shows "(sint (rt_period cfg) > 0 \<longrightarrow>
      expired_runs (cutoff_at now (rt_period cfg)) (tables (ps_store ps')) = []) \<and>
    (sint (rt_raw_period cfg) > 0 \<longrightarrow>
      expired_raw (cutoff_at now (rt_raw_period cfg)) (tables (ps_store ps')) = [])"
proof -
  let ?st = "db_store chunks"
  from res obtain ps1 ps2 where r: "prune_raw ?st cfg timescale now ps = Some (Inr (), ps1)"
    and p: "prune_polls ?st cfg timescale now ps1 = Some (Inr (), ps2)" and st: "ps_store ps' = ps_store ps2"
    by (auto simp: Prune_def Let_def record_metric_def split: option.splits sum.splits)
  have w: "whole (ps_store ps)" using inv by (simp add: whole_def db_inv_def)
  from prune_raw_returns [OF law w, of cfg timescale now] r have w1: "whole (ps_store ps1)"
    and e1: "sint (rt_raw_period cfg) > 0 \<Longrightarrow>
      expired_raw (cutoff_at now (rt_raw_period cfg)) (tables (ps_store ps1)) = []" by auto
  have "prune_step (cutoff_of now (rt_period cfg)) (cutoff_of now (rt_raw_period cfg)) (ps_store ps) (ps_store ps1)"
    by (rule pf.prune_raw_keeps [OF _ _ r])
       (auto simp: cutoff_of_at intro: keeps_prune_raw keeps_prune_drop law prunes_drop_raw)
  with inv have "db_inv (tables (ps_store ps1))" by (simp add: prune_step_def)
  with prune_step_polls [OF law p] have "shrinks (tables (ps_store ps1)) (tables (ps_store ps2))"
    by (simp add: prune_step_def prunes_def)
  then have "expired_raw c (tables (ps_store ps1)) = [] \<Longrightarrow> expired_raw c (tables (ps_store ps2)) = []" for c
    by (auto simp: shrinks_def expired_raw_def filter_empty_conv)
  with e1 prune_polls_returns [OF law w1, of cfg timescale now] p st show ?thesis by auto
qed

section \<open>Without faults\<close>

lemma healthy_exec: "healthy w \<Longrightarrow> exec stmt w = (fst (stmt (tables w)), (tick w)\<lparr>tables := snd (stmt (tables w))\<rparr>)"
  by (simp add: exec_def healthy_def split_beta)

lemma healthy_step [simp]: "healthy ((tick w)\<lparr>tables := d\<rparr>) = healthy w"
  by (simp add: healthy_def)

lemma succeeds_exec: "(\<And>d. \<exists>x. fst (stmt d) = Inr x) \<Longrightarrow> succeeds healthy (exec stmt)"
  unfolding succeeds_def using healthy_exec healthy_step by (metis prod.collapse)

lemma succeeds_delete_runs: "succeeds healthy (DeleteExpiredPollRuns cutoff n)"
  unfolding DeleteExpiredPollRuns_def ListExpiredPollRunIDs_def DeletePollRuns_def
  by (intro succeeds_intros succeeds_exec) (simp_all add: sql_list_expired_def sql_delete_poll_runs_def)

lemma succeeds_delete_raw: "succeeds healthy (DeleteExpiredRawCommandPayloads cutoff n)"
  unfolding DeleteExpiredRawCommandPayloads_def DeleteExpiredRaw_def
  by (intro succeeds_intros succeeds_exec) (simp_all add: sql_delete_expired_raw_def Let_def)

lemma succeeds_drop: "succeeds healthy (DropChunks chunks t cutoff)"
  unfolding DropChunks_def
  by (intro succeeds_intros succeeds_exec) (simp add: sql_drop_chunks_def split_beta)

lemma succeeds_ifD:
  "succeeds P (if b then m else n) \<Longrightarrow> P s \<Longrightarrow> \<exists>x t. (if b then m s else n s) = (Inr x, t) \<and> P t"
  by (simp add: succeeds_def split: if_splits)

definition calm :: "world pruner_state \<Rightarrow> bool" where
  "calm ps \<longleftrightarrow> healthy (ps_store ps) \<and> whole (ps_store ps) \<and> (\<forall>n. ps_ctx ps n = None)"

lemma drop_calm:
  assumes "drop_law chunks"
  shows "succeeds calm (dropChunks (db_store chunks) cutoff t)"
  unfolding succeeds_def
proof (intro allI impI)
  fix ps assume c: "calm ps"
  from succeeds_drop [of chunks t cutoff] c obtain n s where
    d: "DropChunks chunks t cutoff (ps_store ps) = (Inr n, s)" and s: "healthy s"
    unfolding succeeds_def calm_def by blast
  have "whole s"
    using keeps_drop_safe [OF assms, of t cutoff] c d
    by (auto simp: keeps_def safe_step_def whole_def calm_def dest: spec [of _ "ps_store ps"])
  with d s c show "\<exists>x q. dropChunks (db_store chunks) cutoff t ps = (Inr x, q) \<and> calm q"
    by (simp add: dropChunks_def on_store_def record_metric_def calm_def)
qed

lemma prune_raw_calm:
  assumes law: "drop_law chunks" and c: "calm ps"
  shows "\<exists>ps'. prune_raw (db_store chunks) cfg timescale now ps = Some (Inr (), ps') \<and> calm ps'"
proof (cases "sint (rt_raw_period cfg) > 0")
  case False
  then show ?thesis using c by (simp add: prune_raw_def)
next
  case True
  let ?c = "cutoff_at now (rt_raw_period cfg)"
  have "succeeds calm (if timescale then dropChunks (db_store chunks) ?c RawPayloads else ret ())"
    by (intro succeeds_intros drop_calm law)
  with c obtain ps1 where "(if timescale then dropChunks (db_store chunks) ?c RawPayloads ps else ret () ps)
      = (Inr (), ps1)" and c1: "calm ps1"
    by (auto simp: succeeds_def split: if_splits)
  with True raws.batches_succeed [of ps1 healthy ?c "''raw_command_payloads''"] succeeds_delete_raw c1
  show ?thesis by (auto simp: prune_raw_def Let_def calm_def)
qed

lemma prune_polls_calm:
  assumes law: "drop_law chunks" and c: "calm ps"
  shows "\<exists>ps'. prune_polls (db_store chunks) cfg timescale now ps = Some (Inr (), ps') \<and> calm ps'"
proof (cases "sint (rt_period cfg) > 0")
  case False
  then show ?thesis using c by (simp add: prune_polls_def)
next
  case True
  let ?c = "cutoff_at now (rt_period cfg)"
  let ?ts = "if rt_raw_period cfg = 0 then RawPayloads # pollHypertables else pollHypertables"
  have "succeeds calm (if timescale then foreach (dropChunks (db_store chunks) ?c) ?ts else ret ())"
    by (intro succeeds_intros drop_calm law)
  with c obtain ps1 where d: "(if timescale then foreach (dropChunks (db_store chunks) ?c) ?ts ps else ret () ps)
      = (Inr (), ps1)" and c1: "calm ps1"
    using succeeds_ifD [of calm timescale _ "ret ()" ps] by fastforce
  from runs.batches_succeed [of ps1 healthy ?c "''poll_runs''"] succeeds_delete_runs c1
  obtain ps2 where "deleteBatches ''poll_runs'' (DeleteExpiredPollRuns ?c batchSize) ps1 = Some (Inr (), ps2)"
    "calm ps2" by (auto simp: calm_def)
  moreover from this(1) have "prune_polls (db_store chunks) cfg timescale now ps = Some (Inr (), ps2)"
    unfolding prune_polls_def Let_def using True d by (simp only: if_True prod.case sum.case db_store_sel)
  ultimately show ?thesis by blast
qed

lemma prune_calm:
  assumes "drop_law chunks" and "calm ps"
  shows "\<exists>ps'. Prune (db_store chunks) cfg timescale now ps = Some (Inr (), ps') \<and> calm ps'"
proof -
  from prune_raw_calm [OF assms, of cfg timescale now] obtain ps1 where
    1: "prune_raw (db_store chunks) cfg timescale now ps = Some (Inr (), ps1)" "calm ps1" by blast
  from prune_polls_calm [OF assms(1) 1(2), of cfg timescale now] obtain ps2 where
    "prune_polls (db_store chunks) cfg timescale now ps1 = Some (Inr (), ps2)" "calm ps2" by blast
  with 1 show ?thesis by (simp add: Prune_def Let_def calm_def record_metric_def)
qed

text \<open>
  A run of the pruner over any ticks: it never panics on a validated configuration, always
  returns from each pruning, and removes nothing that the last cutoffs keep.
\<close>

lemma run_loop_returns:
  assumes law: "drop_law chunks"
  shows "db_inv (tables (ps_store ps)) \<Longrightarrow>
    \<exists>errs' ps'. run_loop (db_store chunks) cfg timescale now wakes errs ps \<in>
        {Some (Stopped (errs', ps')), Some (Waiting (errs', ps'))} \<and>
      db_inv (tables (ps_store ps')) \<and> shrinks (tables (ps_store ps)) (tables (ps_store ps'))"
proof (induction wakes arbitrary: now errs ps)
  case Nil
  then have i: "integrity (tables (ps_store ps))" by (simp add: db_inv_def)
  from prune_returns [OF law i] obtain res ps1 where
    p: "Prune (db_store chunks) cfg timescale now ps = Some (res, ps1)" by blast
  with prune_step_prune [OF law p] Nil show ?case
    by (auto simp: prune_step_def prunes_def Let_def)
next
  case (Cons x ws)
  then have i: "integrity (tables (ps_store ps))" by (simp add: db_inv_def)
  from prune_returns [OF law i] obtain res ps1 where
    p: "Prune (db_store chunks) cfg timescale now ps = Some (res, ps1)" by blast
  from prune_step_prune [OF law p] Cons.prems have 1: "db_inv (tables (ps_store ps1))"
    "shrinks (tables (ps_store ps)) (tables (ps_store ps1))"
    by (simp_all add: prune_step_def prunes_def)
  show ?case
  proof (cases x)
    case CtxDone
    with p 1 show ?thesis by (simp add: Let_def)
  next
    case (Tick t)
    let ?errs = "case res of Inl err \<Rightarrow> (if errors_is err Canceled then errs else errs @ [err]) | Inr _ \<Rightarrow> errs"
    have "run_loop (db_store chunks) cfg timescale now (x # ws) errs ps =
        run_loop (db_store chunks) cfg timescale t ws ?errs ps1"
      using p Tick by (subst run_loop.simps) (simp add: Let_def del: run_loop.simps)
    with Cons.IH [OF 1(1), of t ?errs] shrinks_trans [OF 1(2)] show ?thesis by fastforce
  qed
qed

section \<open>A sample\<close>

definition sample_retention :: RetentionConfig where
  "sample_retention = \<lparr>rt_period = 2592000000000000, rt_raw_period = 604800000000000,
     rt_interval = 3600000000000\<rparr>"

definition sample_pruner :: "world pruner_state" where
  "sample_pruner = \<lparr>ps_store = sample_world\<lparr>tables := saved_db no_marshal sample_result empty_db\<rparr>,
     ps_metrics = no_metrics, ps_ctx = (\<lambda>_. None), ps_checks = 0\<rparr>"

definition sample_now :: gotime where
  "sample_now = \<lparr>wall = 63000000000000000000, mono = None\<rparr>"

lemma sample_pruner_facts:
  "db_inv (tables (ps_store sample_pruner))" "integrity (tables (ps_store sample_pruner))" "calm sample_pruner"
proof -
  obtain w' where s: "SavePollResult no_marshal sample_result sample_world = (Inr (), w')"
    by (rule sample_save)
  have "tables w' = saved_db no_marshal sample_result empty_db"
    using save_ok_saved [OF s sample_facts(8)] sample_facts(9) by simp
  with save_db_inv [OF s sample_facts(7,2)] show i: "db_inv (tables (ps_store sample_pruner))"
    by (simp add: sample_pruner_def)
  then show "integrity (tables (ps_store sample_pruner))" by (simp add: db_inv_def)
  with sample_facts(6) show "calm sample_pruner"
    by (simp add: calm_def sample_pruner_def whole_def healthy_def)
qed

section \<open>Properties\<close>

text \<open>C9 Pruning always returns, also when the store fails or the context is cancelled, and on every
  outcome it keeps the database invariant and removes no more than it may: a run only when it
  started before the cutoff of the retention period, a normalized row only with such a run, a
  raw payload only with such a run or when observed before the raw cutoff; a period of zero
  removes nothing. TimescaleDB's chunk dropping is any function that drops only older rows.\<close>

theorem prune_safe:
  assumes "drop_law chunks" and "db_inv (tables (ps_store ps))"
  shows "\<exists>res ps'. Prune (db_store chunks) cfg timescale now ps = Some (res, ps') \<and>
    db_inv (tables (ps_store ps')) \<and>
    prunes (cutoff_of now (rt_period cfg)) (cutoff_of now (rt_raw_period cfg))
      (tables (ps_store ps)) (tables (ps_store ps'))"
proof -
  have "integrity (tables (ps_store ps))" using assms(2) by (simp add: db_inv_def)
  from prune_returns [OF assms(1) this] obtain res ps' where
    p: "Prune (db_store chunks) cfg timescale now ps = Some (res, ps')" by blast
  with prune_step_prune [OF assms(1) p] assms(2) show ?thesis by (simp add: prune_step_def)
qed

lemma prune_safe_witness:
  "\<exists>res ps'. Prune (db_store day_chunks) sample_retention True sample_now sample_pruner = Some (res, ps') \<and>
    db_inv (tables (ps_store ps')) \<and>
    prunes (cutoff_of sample_now (rt_period sample_retention)) (cutoff_of sample_now (rt_raw_period sample_retention))
      (tables (ps_store sample_pruner)) (tables (ps_store ps'))"
  by (rule prune_safe) (rule drop_law_day_chunks sample_pruner_facts)+

text \<open>C20 Pruning is complete: when it reports success no poll run older than the retention period and
  no raw payload older than the raw retention period is left, however many batches that took.\<close>

theorem prune_leaves_nothing_expired:
  assumes "drop_law chunks" and "db_inv (tables (ps_store ps))"
    and "Prune (db_store chunks) cfg timescale now ps = Some (Inr (), ps')"
  shows "(sint (rt_period cfg) > 0 \<longrightarrow>
      expired_runs \<lparr>wall = wall now - sint (rt_period cfg), mono = None\<rparr> (tables (ps_store ps')) = []) \<and>
    (sint (rt_raw_period cfg) > 0 \<longrightarrow>
      expired_raw \<lparr>wall = wall now - sint (rt_raw_period cfg), mono = None\<rparr> (tables (ps_store ps')) = [])"
  using prune_complete [OF assms] by (simp add: cutoff_at_pos)

lemma prune_leaves_nothing_expired_witness:
  "\<exists>ps'. Prune (db_store day_chunks) sample_retention True sample_now sample_pruner = Some (Inr (), ps') \<and>
     expired_runs \<lparr>wall = wall sample_now - 2592000000000000, mono = None\<rparr> (tables (ps_store ps')) = []"
proof -
  obtain ps' where p: "Prune (db_store day_chunks) sample_retention True sample_now sample_pruner = Some (Inr (), ps')"
    using prune_calm [OF drop_law_day_chunks sample_pruner_facts(3)] by blast
  have "rt_period sample_retention = 2592000000000000" by (simp add: sample_retention_def)
  with prune_leaves_nothing_expired [OF drop_law_day_chunks sample_pruner_facts(1) p] p
  show ?thesis by simp
qed

text \<open>Pruning succeeds when nothing goes wrong: with no failing call and no cancelled context it
  returns nil, whatever the number of expired rows.\<close>

theorem prune_succeeds:
  assumes "drop_law chunks" and "healthy (ps_store ps)" and "integrity (tables (ps_store ps))"
    and "ps_ctx ps = (\<lambda>_. None)"
  shows "\<exists>ps'. Prune (db_store chunks) cfg timescale now ps = Some (Inr (), ps')"
  using prune_calm [OF assms(1), of ps cfg timescale now] assms(2-4) by (auto simp: calm_def whole_def)

lemma prune_succeeds_witness:
  "\<exists>ps'. Prune (db_store day_chunks) sample_retention True sample_now sample_pruner = Some (Inr (), ps')"
  by (rule prune_succeeds [OF drop_law_day_chunks _ sample_pruner_facts(2)])
     (use sample_pruner_facts(3) in \<open>auto simp: calm_def sample_pruner_def\<close>)

text \<open>C23 The pruner loop never panics on a configuration that Parse accepts and keeps the database
  invariant over any sequence of ticks; it is a no-op exactly when both periods are zero.\<close>

theorem retention_run_safe:
  assumes "Parse kong_new kong_parse = Inr cfg" and "drop_law chunks" and "db_inv (tables (ps_store ps))"
  shows "\<exists>fin. Run (db_store chunks) (cli_retention (cfg_cli cfg)) timescale now wakes ps = Some fin \<and>
    fin \<noteq> TickerPanic \<and>
    (fin = Disabled \<longleftrightarrow> rt_period (cli_retention (cfg_cli cfg)) = 0 \<and> rt_raw_period (cli_retention (cfg_cli cfg)) = 0) \<and>
    (\<forall>errs ps'. fin \<in> {Stopped (errs, ps'), Waiting (errs, ps')} \<longrightarrow>
       db_inv (tables (ps_store ps')) \<and> shrinks (tables (ps_store ps)) (tables (ps_store ps')))"
proof -
  let ?rc = "cli_retention (cfg_cli cfg)"
  from assms(1) have v: "validateRetention ?rc = None" by (rule Parse_passed)
  then have p: "0 \<le> sint (rt_period ?rc)" "0 \<le> sint (rt_raw_period ?rc)"
    and i: "Enabled ?rc \<Longrightarrow> 0 < sint (rt_interval ?rc)"
    by (auto simp: validateRetention_def Enabled_def split: if_splits)
  have "Enabled ?rc \<longleftrightarrow> \<not> (rt_period ?rc = 0 \<and> rt_raw_period ?rc = 0)"
    using p word_eq_iff_signed [of "rt_period ?rc" 0] word_eq_iff_signed [of "rt_raw_period ?rc" 0]
    by (auto simp: Enabled_def order.order_iff_strict)
  then show ?thesis
    using run_loop_returns [OF assms(2,3), of ?rc timescale now wakes "[]"] i
    by (cases "Enabled ?rc") (auto simp: Run_def)
qed

lemma retention_run_safe_witness:
  "\<exists>fin. Run (db_store day_chunks) (cli_retention sample_cli) True sample_now [Tick sample_now, CtxDone] sample_pruner
     = Some fin \<and> fin \<noteq> TickerPanic \<and> fin \<noteq> Disabled"
  using retention_run_safe [OF sample_Parse drop_law_day_chunks sample_pruner_facts(1), of True sample_now
    "[Tick sample_now, CtxDone]"]
  by (auto simp: sample_cli_def)

end
