(* ===== verification/Views.thy ===== *)
theory Views
  imports Present_Peers
begin

text \<open>
  The materialized views of \<open>db/migrations/views/001_grafana_views.sql\<close> and
  \<open>Store.RefreshGrafanaViews\<close>. Each view is a function on the tables; the disagreement
  view reads the materialized rows of the address map view, so the order of the refreshes
  matters. \<open>array_text\<close> is PostgreSQL's text form of a text array, a parameter. Rows that
  tie in a ranking are taken in the order of the table.
\<close>

datatype view = CurrentPeers | CurrentAddrmap | PollHealth | CertInventory | Disagreement

fun view_name :: "view \<Rightarrow> string" where
  "view_name CurrentPeers = ''mnemo_current_peers''"
| "view_name CurrentAddrmap = ''mnemo_current_lighthouse_addrmap''"
| "view_name PollHealth = ''mnemo_poll_health_5m''"
| "view_name CertInventory = ''mnemo_peer_cert_inventory''"
| "view_name Disagreement = ''mnemo_lighthouse_disagreement''"

section \<open>Current peers\<close>

definition newest_first :: "('a \<Rightarrow> int option) \<Rightarrow> 'a \<Rightarrow> 'a \<Rightarrow> bool" where
  "newest_first observed x y \<longleftrightarrow> ts_le (observed y) (observed x)"

definition entry_order :: "poll_run \<times> HostmapParams \<Rightarrow> poll_run \<times> HostmapParams \<Rightarrow> bool" where
  "entry_order x y \<longleftrightarrow>
     (let h = snd x; k = snd y in
      if ho_observed_at h \<noteq> ho_observed_at k then newest_first ho_observed_at h k
      else sint (ho_entry_index h) \<le> sint (ho_entry_index k))"

definition hostmap_join :: "database \<Rightarrow> (poll_run \<times> HostmapParams) list" where
  "hostmap_join d = [(p, cols h). h \<leftarrow> filter (\<lambda>h. ho_source (cols h) = ''hostmap'') (t_hostmap d),
                       p \<leftarrow> filter (\<lambda>p. po_id p = ho_poll_run_id (cols h)) (t_runs d)]"

definition to_current_peer :: "poll_run \<times> HostmapParams \<Rightarrow> current_peer" where
  "to_current_peer x = (let h = snd x in
     \<lparr>cu_observed_at = ho_observed_at h, cu_lighthouse_name = ho_lighthouse_name h,
      cu_peer_key = Some (peer_key h), cu_primary_vpn_addr = ho_primary_vpn_addr h,
      cu_vpn_addrs = ho_vpn_addrs h, cu_cert_name = ho_cert_name h,
      cu_cert_fingerprint = ho_cert_fingerprint h, cu_cert_groups = ho_cert_groups h,
      cu_cert_networks = ho_cert_networks h, cu_cert_unsafe_networks = ho_cert_unsafe_networks h,
      cu_cert_not_before = ho_cert_not_before h, cu_cert_not_after = ho_cert_not_after h,
      cu_current_remote = ho_current_remote h, cu_remote_addrs = ho_remote_addrs h,
      cu_message_counter = ho_message_counter h, cu_local_index = ho_local_index h,
      cu_remote_index = ho_remote_index h, cu_nebula_version = po_nebula_version (fst x)\<rparr>)"

definition peer_partition :: "poll_run \<times> HostmapParams \<Rightarrow> string \<times> string" where
  "peer_partition x = (ho_lighthouse_name (snd x), peer_key (snd x))"

definition mnemo_current_peers :: "database \<Rightarrow> current_peer list" where
  "mnemo_current_peers d = map to_current_peer (rank1 peer_partition entry_order (hostmap_join d))"

section \<open>Current address map\<close>

definition addrmap_partition :: "AddrmapParams \<Rightarrow> string \<times> string \<times> string" where
  "addrmap_partition a = (ad_lighthouse_name a, ad_vpn_addr a, coalesce (ad_reporter_vpn_addr a) [])"

definition to_current_addrmap :: "AddrmapParams \<Rightarrow> current_addrmap" where
  "to_current_addrmap a = \<lparr>la_observed_at = ad_observed_at a, la_lighthouse_name = ad_lighthouse_name a,
     la_vpn_addr = ad_vpn_addr a, la_reporter_vpn_addr = ad_reporter_vpn_addr a,
     la_learned_addrs = ad_learned_addrs a, la_reported_addrs = ad_reported_addrs a,
     la_relay_vpn_addrs = ad_relay_vpn_addrs a\<rparr>"

definition mnemo_current_lighthouse_addrmap :: "database \<Rightarrow> current_addrmap list" where
  "mnemo_current_lighthouse_addrmap d =
     map to_current_addrmap (rank1 addrmap_partition (newest_first ad_observed_at) (map cols (t_addrmap d)))"

section \<open>Poll health\<close>

text \<open>\<open>GROUP BY\<close>: the keys in order of appearance, each with its rows.\<close>

definition group_by :: "('a \<Rightarrow> 'k) \<Rightarrow> 'a list \<Rightarrow> ('k \<times> 'a list) list" where
  "group_by key xs = map (\<lambda>k. (k, filter (\<lambda>x. key x = k) xs)) (remdups (map key xs))"

text \<open>\<open>date_bin('5 minutes', t, '2000-01-01')\<close>, in nanoseconds since the year 1.\<close>

definition bin_origin :: int where "bin_origin = 63082281600 * 1000000000"
definition bin_width :: int where "bin_width = 300 * 1000000000"

definition date_bin :: "int \<Rightarrow> int" where
  "date_bin t = bin_origin + (t - bin_origin) div bin_width * bin_width"

text \<open>\<open>percentile_cont(0.95)\<close>: linear interpolation in the sorted values.\<close>

definition percentile95 :: "int list \<Rightarrow> rat" where
  "percentile95 xs =
     (let ys = sort xs; pos = 95 / 100 * of_nat (length ys - 1);
          lo = rat_of_int (ys ! nat \<lfloor>pos\<rfloor>); hi = rat_of_int (ys ! nat \<lceil>pos\<rceil>)
      in lo + (pos - of_int \<lfloor>pos\<rfloor>) * (hi - lo))"

definition ts_max :: "int option list \<Rightarrow> int option" where
  "ts_max ts = (case concat (map (\<lambda>t. case t of None \<Rightarrow> [] | Some x \<Rightarrow> [x]) ts) of
     [] \<Rightarrow> None | x # xs \<Rightarrow> Some (fold max xs x))"

definition health_row :: "(int option \<times> string) \<times> poll_run list \<Rightarrow> poll_health" where
  "health_row g = (case g of ((bucket, lighthouse), ps) \<Rightarrow>
     \<lparr>hl_bucket = bucket, hl_lighthouse_name = lighthouse, hl_polls = length ps,
      hl_successful_polls = length (filter po_success ps),
      hl_failed_polls = length (filter (\<lambda>p. \<not> po_success p) ps),
      hl_p95_duration_ms = percentile95 (map (\<lambda>p. sint (po_duration_ms p)) ps),
      hl_latest_poll_at = ts_max (map po_started_at ps)\<rparr>)"

definition mnemo_poll_health_5m :: "database \<Rightarrow> poll_health list" where
  "mnemo_poll_health_5m d = map health_row
     (group_by (\<lambda>p. (map_option date_bin (po_started_at p), po_lighthouse_name p)) (t_runs d))"

section \<open>Certificate inventory\<close>

definition cert_key :: "HostmapParams \<Rightarrow> string option" where
  "cert_key h = (case ho_cert_fingerprint h of Some f \<Rightarrow> Some f | None \<Rightarrow> ho_primary_vpn_addr h)"

definition to_cert_inventory :: "HostmapParams \<Rightarrow> cert_inventory" where
  "to_cert_inventory h = \<lparr>ci_observed_at = ho_observed_at h, ci_peer_key = cert_key h,
     ci_primary_vpn_addr = ho_primary_vpn_addr h, ci_vpn_addrs = ho_vpn_addrs h,
     ci_cert_name = ho_cert_name h, ci_cert_fingerprint = ho_cert_fingerprint h,
     ci_cert_public_key = ho_cert_public_key h, ci_cert_groups = ho_cert_groups h,
     ci_cert_networks = ho_cert_networks h, ci_cert_unsafe_networks = ho_cert_unsafe_networks h,
     ci_cert_not_before = ho_cert_not_before h, ci_cert_not_after = ho_cert_not_after h\<rparr>"

definition mnemo_peer_cert_inventory :: "database \<Rightarrow> cert_inventory list" where
  "mnemo_peer_cert_inventory d = map to_cert_inventory (rank1 cert_key (newest_first ho_observed_at)
     (filter (\<lambda>h. ho_source h = ''hostmap'') (map cols (t_hostmap d))))"

section \<open>Disagreement of lighthouses\<close>

type_synonym array_text = "string list \<Rightarrow> string"

definition learned_text :: "array_text \<Rightarrow> current_addrmap \<Rightarrow> string" where
  "learned_text array_text a = array_text (elems (la_learned_addrs a))"

definition disagreement_row ::
  "array_text \<Rightarrow> (string \<Rightarrow> string \<Rightarrow> bool) \<Rightarrow> string \<times> current_addrmap list \<Rightarrow> lighthouse_disagreement" where
  "disagreement_row array_text coll g = (case g of (vpn_addr, rs) \<Rightarrow>
     \<lparr>ld_vpn_addr = vpn_addr,
      ld_lighthouses_reporting = length (remdups (map la_lighthouse_name rs)),
      ld_distinct_learned_sets = length (remdups (map (learned_text array_text) rs)),
      ld_learned_by_lighthouse = order_by coll
        (remdups (map (\<lambda>r. la_lighthouse_name r @ ''='' @ learned_text array_text r) rs)),
      ld_latest_observed_at = ts_max (map la_observed_at rs)\<rparr>)"

definition mnemo_lighthouse_disagreement ::
  "array_text \<Rightarrow> (string \<Rightarrow> string \<Rightarrow> bool) \<Rightarrow> current_addrmap list \<Rightarrow> lighthouse_disagreement list" where
  "mnemo_lighthouse_disagreement array_text coll rows =
     filter (\<lambda>r. ld_lighthouses_reporting r > 1 \<and> ld_distinct_learned_sets r > 1)
       (map (disagreement_row array_text coll) (group_by la_vpn_addr rows))"

section \<open>RefreshGrafanaViews\<close>

fun refresh_view :: "array_text \<Rightarrow> (string \<Rightarrow> string \<Rightarrow> bool) \<Rightarrow> view \<Rightarrow> database \<Rightarrow> matviews \<Rightarrow> matviews" where
  "refresh_view arr coll CurrentPeers d v = v\<lparr>v_peers := mnemo_current_peers d\<rparr>"
| "refresh_view arr coll CurrentAddrmap d v = v\<lparr>v_addrmap := mnemo_current_lighthouse_addrmap d\<rparr>"
| "refresh_view arr coll PollHealth d v = v\<lparr>v_health := mnemo_poll_health_5m d\<rparr>"
| "refresh_view arr coll CertInventory d v = v\<lparr>v_certs := mnemo_peer_cert_inventory d\<rparr>"
| "refresh_view arr coll Disagreement d v =
     v\<lparr>v_disagreement := mnemo_lighthouse_disagreement arr coll (v_addrmap v)\<rparr>"

definition sql_refresh :: "array_text \<Rightarrow> (string \<Rightarrow> string \<Rightarrow> bool) \<Rightarrow> view \<Rightarrow> (database, unit) act" where
  "sql_refresh arr coll v d = (Inr (), d\<lparr>t_views := refresh_view arr coll v d (t_views d)\<rparr>)"

definition grafana_views :: "view list" where
  "grafana_views = [CurrentPeers, CurrentAddrmap, PollHealth, CertInventory, Disagreement]"

text \<open>The list names every view, once.\<close>

lemma grafana_views_UNIV: "distinct grafana_views" "set grafana_views = UNIV"
proof -
  have "v \<in> set grafana_views" for v by (cases v) (simp_all add: grafana_views_def)
  then show "set grafana_views = UNIV" by blast
qed (simp add: grafana_views_def)

instantiation view :: enum
begin

definition "enum_view = grafana_views"

definition "enum_all_view P \<longleftrightarrow> list_all P grafana_views"

definition "enum_ex_view P \<longleftrightarrow> list_ex P grafana_views"

instance
  by standard (simp_all add: enum_view_def enum_all_view_def enum_ex_view_def grafana_views_UNIV list_all_iff list_ex_iff)

end

definition RefreshGrafanaViews ::
  "array_text \<Rightarrow> (string \<Rightarrow> string \<Rightarrow> bool) \<Rightarrow> (world, unit) act" where
  "RefreshGrafanaViews arr coll =
     foreach (\<lambda>v. wrapE (''refresh materialized view '' @ view_name v) (exec (sql_refresh arr coll v)))
       grafana_views"

text \<open>\<open>IsNotFound\<close>; the driver's sentinel \<open>pgx.ErrNoRows\<close> is a parameter.\<close>

definition IsNotFound :: "go_error \<Rightarrow> go_error option \<Rightarrow> bool" where
  "IsNotFound ErrNoRows err = (case err of None \<Rightarrow> False | Some e \<Rightarrow> errors_is e ErrNoRows)"

section \<open>Laws\<close>

text \<open>The orders of the rankings are total preorders.\<close>

interpretation newest: row_order "newest_first f" for f :: "'a \<Rightarrow> int option"
  by unfold_locales (use ts_le_order in \<open>auto simp: newest_first_def\<close>)

interpretation entries: row_order entry_order
proof -
  have "entry_order = then_by (ho_observed_at \<circ> snd) (\<lambda>a b. ts_le b a)
      (\<lambda>x y. sint (ho_entry_index (snd x)) \<le> sint (ho_entry_index (snd y)))"
    by (intro ext) (auto simp: entry_order_def then_by_def Let_def newest_first_def)
  then show "row_order entry_order"
    by (rule ssubst) (rule row_order_ts_desc, rule row_order_int)
qed

lemma entry_order_newest: "entry_order x y \<Longrightarrow> ts_le (ho_observed_at (snd y)) (ho_observed_at (snd x))"
  by (auto simp: entry_order_def Let_def newest_first_def split: if_splits)

lemma group_by_keys: "map fst (group_by key xs) = remdups (map key xs)"
  by (simp add: group_by_def comp_def)

lemma group_by_rows: "(k, ys) \<in> set (group_by key xs) \<longleftrightarrow> k \<in> key ` set xs \<and> ys = filter (\<lambda>x. key x = k) xs"
  by (auto simp: group_by_def)

lemma sum_group_sizes:
  "finite K \<Longrightarrow> key ` set xs \<subseteq> K \<Longrightarrow> (\<Sum>k\<in>K. length (filter (\<lambda>x. key x = k) xs)) = length xs"
proof (induction xs)
  case (Cons x xs)
  have "(\<Sum>k\<in>K. length (filter (\<lambda>y. key y = k) (x # xs))) =
      (\<Sum>k\<in>K. (if key x = k then 1 else 0) + length (filter (\<lambda>y. key y = k) xs))"
    by (rule sum.cong) auto
  also have "\<dots> = Suc (length xs)" using Cons by (simp add: sum.distrib)
  finally show ?case by simp
qed simp

lemma group_sizes: "sum_list (map (length \<circ> snd) (group_by key xs)) = length xs"
proof -
  have "sum_list (map (length \<circ> snd) (group_by key xs)) =
      (\<Sum>k\<in>set (remdups (map key xs)). length (filter (\<lambda>x. key x = k) xs))"
    by (subst sum_list_distinct_conv_sum_set [symmetric]) (simp_all add: group_by_def comp_def)
  then show ?thesis by (simp add: sum_group_sizes)
qed

lemma date_bin_bounds: "date_bin t \<le> t" "t < date_bin t + bin_width"
proof -
  have "t - bin_origin = (t - bin_origin) div bin_width * bin_width + (t - bin_origin) mod bin_width"
    by simp
  moreover have "0 \<le> (t - bin_origin) mod bin_width" "(t - bin_origin) mod bin_width < bin_width"
    by (simp_all add: bin_width_def)
  ultimately show "date_bin t \<le> t" "t < date_bin t + bin_width"
    unfolding date_bin_def by linarith+
qed

text \<open>The percentile lies between two of the values.\<close>

lemma percentile95_bounds:
  assumes "xs \<noteq> []"
  shows "rat_of_int (Min (set xs)) \<le> percentile95 xs" "percentile95 xs \<le> rat_of_int (Max (set xs))"
proof -
  define ys where "ys = sort xs"
  define pos where "pos = (95 / 100 * of_nat (length ys - 1) :: rat)"
  define lo where "lo = rat_of_int (ys ! nat \<lfloor>pos\<rfloor>)"
  define hi where "hi = rat_of_int (ys ! nat \<lceil>pos\<rceil>)"
  define w where "w = pos - of_int \<lfloor>pos\<rfloor>"
  have eq: "percentile95 xs = lo + w * (hi - lo)"
    by (simp add: percentile95_def Let_def ys_def pos_def lo_def hi_def w_def)
  have ys: "ys \<noteq> []" "set ys = set xs"
    using assms by (simp_all add: ys_def) (metis set_empty set_sort)
  have pos: "0 \<le> pos" "pos \<le> of_nat (length ys - 1)" by (simp_all add: pos_def)
  then have "\<lceil>pos\<rceil> \<le> int (length ys - 1)" by (simp add: ceiling_le_iff)
  moreover have "\<lfloor>pos\<rfloor> \<le> \<lceil>pos\<rceil>" by linarith
  ultimately have "nat \<lceil>pos\<rceil> < length ys" "nat \<lfloor>pos\<rfloor> < length ys"
    using ys(1) pos(1) by (cases ys; simp; linarith)+
  then have "ys ! nat \<lfloor>pos\<rfloor> \<in> set xs" "ys ! nat \<lceil>pos\<rceil> \<in> set xs" using ys(2) nth_mem by metis+
  then have b: "rat_of_int (Min (set xs)) \<le> lo" "rat_of_int (Min (set xs)) \<le> hi"
    "lo \<le> rat_of_int (Max (set xs))" "hi \<le> rat_of_int (Max (set xs))"
    by (simp_all add: lo_def hi_def)
  have w: "0 \<le> w" "w \<le> 1" by (simp_all add: w_def) linarith+
  have conv: "lo + w * (hi - lo) = (1 - w) * lo + w * hi" by (simp add: algebra_simps)
  show "percentile95 xs \<le> rat_of_int (Max (set xs))"
    unfolding eq conv by (rule convex_bound_le) (use w b in simp_all)
  have "(1 - w) * (- lo) + w * (- hi) \<le> - rat_of_int (Min (set xs))"
    by (rule convex_bound_le) (use w b in simp_all)
  then show "rat_of_int (Min (set xs)) \<le> percentile95 xs"
    unfolding eq conv by simp
qed

text \<open>A loop of statements that cannot fail on the tables stops only at a fault.\<close>

lemma foreach_exec:
  assumes "\<And>v d. stmt v d = (Inr (), g v d)"
  shows "foreach (\<lambda>v. wrapE (p v) (exec (stmt v))) vs w = (res, w') \<Longrightarrow>
    (res = Inr () \<and> tables w' = fold g vs (tables w)) \<or>
    (\<exists>before v after e. vs = before @ v # after \<and> res = Inl (Wrap (p v) e) \<and>
       tables w' \<in> {fold g before (tables w), fold g (before @ [v]) (tables w)})"
proof (induction vs arbitrary: w)
  case Nil
  then show ?case by simp
next
  case (Cons v vs)
  obtain r w1 where e: "exec (stmt v) w = (r, w1)" by fastforce
  show ?case
  proof (cases r)
    case (Inl err)
    with Cons.prems e have "res = Inl (Wrap (p v) err)" "w' = w1" by (auto simp: bindE_def wrapE_def)
    moreover have "tables w1 \<in> {tables w, g v (tables w)}"
      using exec_tables [of "stmt v" w] e assms by auto
    ultimately have "v # vs = [] @ v # vs \<and> res = Inl (Wrap (p v) err) \<and>
        tables w' \<in> {fold g [] (tables w), fold g ([] @ [v]) (tables w)}" by simp
    then show ?thesis by blast
  next
    case (Inr u)
    then have "exec (stmt v) w = (Inr u, w1)" using e by simp
    from exec_ok [OF this] have t: "tables w1 = g v (tables w)" by (simp add: assms)
    from e Inr have "wrapE (p v) (exec (stmt v)) w = (Inr u, w1)" by (simp only: wrapE_Inr)
    with Cons.prems have "foreach (\<lambda>v. wrapE (p v) (exec (stmt v))) vs w1 = (res, w')"
      by (simp add: bindE_def)
    from Cons.IH [OF this] show ?thesis
    proof (elim disjE exE conjE)
      fix before x after e
      assume "vs = before @ x # after" "res = Inl (Wrap (p x) e)"
        "tables w' \<in> {fold g before (tables w1), fold g (before @ [x]) (tables w1)}"
      then have "v # vs = (v # before) @ x # after \<and> res = Inl (Wrap (p x) e) \<and>
        tables w' \<in> {fold g (v # before) (tables w), fold g ((v # before) @ [x]) (tables w)}"
        by (simp add: t)
      then show ?thesis by blast
    qed (simp add: t)
  qed
qed

definition refreshed :: "array_text \<Rightarrow> (string \<Rightarrow> string \<Rightarrow> bool) \<Rightarrow> view list \<Rightarrow> database \<Rightarrow> matviews" where
  "refreshed arr coll vs d = fold (\<lambda>v. refresh_view arr coll v d) vs (t_views d)"

lemma refresh_view_rows: "refresh_view arr coll v (d\<lparr>t_views := x\<rparr>) u = refresh_view arr coll v d u"
  by (cases v) (simp_all add: mnemo_current_peers_def hostmap_join_def mnemo_current_lighthouse_addrmap_def
      mnemo_poll_health_5m_def mnemo_peer_cert_inventory_def)

lemma fold_refresh:
  "fold (\<lambda>v d. d\<lparr>t_views := refresh_view arr coll v d (t_views d)\<rparr>) vs d =
     d\<lparr>t_views := refreshed arr coll vs d\<rparr>"
proof -
  have "fold (\<lambda>v d. d\<lparr>t_views := refresh_view arr coll v d (t_views d)\<rparr>) vs (d\<lparr>t_views := x\<rparr>) =
      d\<lparr>t_views := fold (\<lambda>v. refresh_view arr coll v d) vs x\<rparr>" for x
    by (induction vs arbitrary: x) (simp_all add: refresh_view_rows)
  from this [of "t_views d"] show ?thesis by (simp add: refreshed_def)
qed

lemma refresh_outcome:
  assumes "RefreshGrafanaViews arr coll w = (res, w')"
  shows "(res = Inr () \<and> tables w' = (tables w)\<lparr>t_views := refreshed arr coll grafana_views (tables w)\<rparr>) \<or>
    (\<exists>before v after e. grafana_views = before @ v # after \<and>
       res = Inl (Wrap (''refresh materialized view '' @ view_name v) e) \<and>
       (tables w' = (tables w)\<lparr>t_views := refreshed arr coll before (tables w)\<rparr> \<or>
        tables w' = (tables w)\<lparr>t_views := refreshed arr coll (before @ [v]) (tables w)\<rparr>))"
  using foreach_exec [OF sql_refresh_def assms [unfolded RefreshGrafanaViews_def]]
  unfolding fold_refresh insert_iff empty_iff by simp

text \<open>What every view shows of the tables.\<close>

definition snapshot :: "array_text \<Rightarrow> (string \<Rightarrow> string \<Rightarrow> bool) \<Rightarrow> database \<Rightarrow> matviews" where
  "snapshot arr coll d = \<lparr>v_peers = mnemo_current_peers d, v_addrmap = mnemo_current_lighthouse_addrmap d,
     v_health = mnemo_poll_health_5m d, v_certs = mnemo_peer_cert_inventory d,
     v_disagreement = mnemo_lighthouse_disagreement arr coll (mnemo_current_lighthouse_addrmap d)\<rparr>"

lemma refreshed_all: "refreshed arr coll grafana_views d = snapshot arr coll d"
  by (simp add: refreshed_def grafana_views_def snapshot_def)

lemma refresh_succeeds:
  assumes "healthy w"
  shows "\<exists>w'. RefreshGrafanaViews arr coll w = (Inr (), w') \<and> healthy w'"
proof -
  have "succeeds healthy (RefreshGrafanaViews arr coll)"
    unfolding RefreshGrafanaViews_def
    by (intro succeeds_intros) (simp add: succeeds_def exec_def healthy_def sql_refresh_def)
  with assms show ?thesis by (auto simp: succeeds_def)
qed

lemma db_inv_views [simp]: "db_inv (d\<lparr>t_views := v\<rparr>) = db_inv d"
  by (simp add: db_inv_def integrity_defs run_ids_def aligned_def completed_def)

lemma refresh_keeps_rows:
  assumes "RefreshGrafanaViews arr coll w = (res, w')"
  shows "tables w' = (tables w)\<lparr>t_views := t_views (tables w')\<rparr>"
  using refresh_outcome [OF assms] by auto

section \<open>A sample\<close>

definition sample_db :: database where
  "sample_db = saved_db no_marshal sample_result empty_db"

lemmas sample_db_eval = sample_db_def saved_db_def sample_result_def zero_defs empty_db_def hostmap_rows_def
  sample_entry_def elems_def hostmap_params_def hostmap_base_def with_cert_def Let_def run_row_def
  complete_run_def complete_params_def new_run_def

lemma sample_db_inv: "db_inv sample_db"
proof -
  obtain w' where s: "SavePollResult no_marshal sample_result sample_world = (Inr (), w')"
    by (rule sample_save)
  have "tables w' = sample_db"
    using save_ok_saved [OF s sample_facts(8)] sample_facts(9) by (simp add: sample_db_def)
  with save_db_inv [OF s sample_facts(7,2)] show ?thesis by simp
qed

lemma sample_peers: "map cu_lighthouse_name (mnemo_current_peers sample_db) = [''eu1'']"
  "map cu_peer_key (mnemo_current_peers sample_db) = [Some ''fp'']"
  by (simp_all add: mnemo_current_peers_def hostmap_join_def rank1_def order_by_def to_current_peer_def
      peer_key_def coalesce_def nullableString_def sample_db_eval)

section \<open>Properties\<close>

text \<open>C19 After a successful RefreshGrafanaViews every view shows the rows of the tables, the disagreement
  view included, whose source is itself a view and is refreshed first; a failed one names the view
  that failed, has refreshed those before it, and no refresh changes a row of a table.\<close>

theorem refresh_exact:
  assumes "RefreshGrafanaViews arr coll w = (res, w')"
  shows "case res of
      Inr _ \<Rightarrow> tables w' = (tables w)\<lparr>t_views := snapshot arr coll (tables w)\<rparr>
    | Inl err \<Rightarrow> \<exists>before v after e. grafana_views = before @ v # after \<and>
        err = Wrap (''refresh materialized view '' @ view_name v) e \<and>
        (tables w' = (tables w)\<lparr>t_views := refreshed arr coll before (tables w)\<rparr> \<or>
         tables w' = (tables w)\<lparr>t_views := refreshed arr coll (before @ [v]) (tables w)\<rparr>)"
  using refresh_outcome [OF assms] unfolding refreshed_all
proof (elim disjE exE conjE)
  fix before v after e
  assume "grafana_views = before @ v # after" "res = Inl (Wrap (''refresh materialized view '' @ view_name v) e)"
    "tables w' = (tables w)\<lparr>t_views := refreshed arr coll before (tables w)\<rparr>"
  then show ?thesis by (simp only: sum.case) blast
next
  fix before v after e
  assume "grafana_views = before @ v # after" "res = Inl (Wrap (''refresh materialized view '' @ view_name v) e)"
    "tables w' = (tables w)\<lparr>t_views := refreshed arr coll (before @ [v]) (tables w)\<rparr>"
  then show ?thesis by (simp only: sum.case) blast
qed simp

lemma refresh_exact_witness:
  "\<exists>w'. RefreshGrafanaViews concat (\<le>) (sample_world\<lparr>tables := sample_db\<rparr>) = (Inr (), w') \<and>
     map cu_lighthouse_name (v_peers (t_views (tables w'))) = [''eu1'']"
proof -
  let ?w = "sample_world\<lparr>tables := sample_db\<rparr>"
  have "healthy ?w" using sample_facts(6) by (simp add: healthy_def)
  then obtain w' where r: "RefreshGrafanaViews concat (\<le>) ?w = (Inr (), w')"
    using refresh_succeeds by blast
  have "tables w' = sample_db\<lparr>t_views := snapshot concat (\<le>) sample_db\<rparr>" using refresh_exact [OF r] by simp
  then show ?thesis using r by (simp add: snapshot_def sample_peers)
qed

text \<open>C35 No refresh can violate a unique index of a view: the columns each index covers are distinct in
  what the view's query returns, for all tables.\<close>

theorem view_indexes_unique:
  "distinct (map (\<lambda>r. (cu_lighthouse_name r, cu_peer_key r)) (mnemo_current_peers d)) \<and>
   distinct (map (\<lambda>r. (la_lighthouse_name r, la_vpn_addr r, coalesce (la_reporter_vpn_addr r) []))
     (mnemo_current_lighthouse_addrmap d)) \<and>
   distinct (map (\<lambda>r. (hl_bucket r, hl_lighthouse_name r)) (mnemo_poll_health_5m d)) \<and>
   distinct (map ci_peer_key (mnemo_peer_cert_inventory d)) \<and>
   distinct (map ld_vpn_addr (mnemo_lighthouse_disagreement arr coll rows))"
proof (intro conjI)
  have "map (\<lambda>r. (cu_lighthouse_name r, cu_peer_key r)) (mnemo_current_peers d) =
      map (\<lambda>(l, k). (l, Some k)) (map peer_partition (rank1 peer_partition entry_order (hostmap_join d)))"
    by (simp add: mnemo_current_peers_def to_current_peer_def peer_partition_def Let_def)
  then show "distinct (map (\<lambda>r. (cu_lighthouse_name r, cu_peer_key r)) (mnemo_current_peers d))"
    by (simp only: distinct_map [of "\<lambda>(l, k). (l, Some k)"] distinct_rank1) (auto intro: inj_onI)
  show "distinct (map (\<lambda>r. (la_lighthouse_name r, la_vpn_addr r, coalesce (la_reporter_vpn_addr r) []))
     (mnemo_current_lighthouse_addrmap d))"
    using distinct_rank1 [of addrmap_partition "newest_first ad_observed_at" "map cols (t_addrmap d)"]
    by (simp add: mnemo_current_lighthouse_addrmap_def to_current_addrmap_def addrmap_partition_def [abs_def] comp_def)
  have "map (\<lambda>r. (hl_bucket r, hl_lighthouse_name r)) (mnemo_poll_health_5m d) =
      map fst (group_by (\<lambda>p. (map_option date_bin (po_started_at p), po_lighthouse_name p)) (t_runs d))"
    by (simp add: mnemo_poll_health_5m_def health_row_def split: prod.splits)
  then show "distinct (map (\<lambda>r. (hl_bucket r, hl_lighthouse_name r)) (mnemo_poll_health_5m d))"
    by (simp add: group_by_keys)
  show "distinct (map ci_peer_key (mnemo_peer_cert_inventory d))"
    using distinct_rank1 [of cert_key "newest_first ho_observed_at"
        "filter (\<lambda>h. ho_source h = ''hostmap'') (map cols (t_hostmap d))"]
    by (simp add: mnemo_peer_cert_inventory_def to_cert_inventory_def comp_def)
  have "map ld_vpn_addr (map (disagreement_row arr coll) (group_by la_vpn_addr rows)) =
      map fst (group_by la_vpn_addr rows)"
    by (simp add: disagreement_row_def split: prod.splits)
  then show "distinct (map ld_vpn_addr (mnemo_lighthouse_disagreement arr coll rows))"
    unfolding mnemo_lighthouse_disagreement_def
    by (intro distinct_map_filter) (simp add: group_by_keys)
qed

text \<open>The current-peers view is exact: its rows are hostmap sightings joined with their run, each at
  least as new as every other sighting of the same peer by the same lighthouse, and every peer a
  lighthouse has ever reported is there.\<close>

theorem current_peers_latest:
  assumes "r \<in> set (mnemo_current_peers d)"
  shows "\<exists>x \<in> set (hostmap_join d). r = to_current_peer x \<and>
    {y \<in> set (hostmap_join d). peer_partition y = peer_partition x \<and>
       \<not> ts_le (ho_observed_at (snd y)) (ho_observed_at (snd x))} = {} \<and>
    (\<lambda>r. (cu_lighthouse_name r, the (cu_peer_key r))) ` set (mnemo_current_peers d) =
      peer_partition ` set (hostmap_join d)"
proof -
  let ?ranked = "rank1 peer_partition entry_order (hostmap_join d)"
  from assms obtain x where x: "x \<in> set ?ranked" "r = to_current_peer x"
    by (auto simp: mnemo_current_peers_def)
  have "x \<in> set (hostmap_join d)" using x(1) rank1_subset by fast
  moreover have "{y \<in> set (hostmap_join d). peer_partition y = peer_partition x \<and>
      \<not> ts_le (ho_observed_at (snd y)) (ho_observed_at (snd x))} = {}"
    using entries.rank1_least [OF x(1), of _ ] entry_order_newest by blast
  moreover have "(\<lambda>r. (cu_lighthouse_name r, the (cu_peer_key r))) ` set (mnemo_current_peers d) =
      peer_partition ` set ?ranked"
    by (simp add: mnemo_current_peers_def image_image to_current_peer_def peer_partition_def [abs_def] Let_def)
  ultimately show ?thesis using x(2) rank1_keys [of peer_partition entry_order "hostmap_join d"] by auto
qed

lemma current_peers_latest_witness:
  "\<exists>x \<in> set (hostmap_join sample_db). peer_partition x = (''eu1'', ''fp'')"
proof -
  obtain r where r: "r \<in> set (mnemo_current_peers sample_db)" "cu_lighthouse_name r = ''eu1''" "cu_peer_key r = Some ''fp''"
    using sample_peers by (cases "mnemo_current_peers sample_db") auto
  from current_peers_latest [OF r(1)] obtain x where "x \<in> set (hostmap_join sample_db)" "r = to_current_peer x"
    by blast
  with r(2,3) have "peer_partition x = (''eu1'', ''fp'')"
    by (simp add: to_current_peer_def peer_partition_def Let_def)
  with \<open>x \<in> set (hostmap_join sample_db)\<close> show ?thesis by blast
qed

lemma two_values: "length (remdups xs) > 1 \<longleftrightarrow> (\<exists>a \<in> set xs. \<exists>b \<in> set xs. a \<noteq> b)"
proof -
  have "length (remdups xs) = card (set xs)" by (simp add: length_remdups_card_conv)
  moreover have "card (set xs) > 1 \<longleftrightarrow> (\<exists>a \<in> set xs. \<exists>b \<in> set xs. a \<noteq> b)"
    using card_le_Suc0_iff_eq [of "set xs"] by (auto simp: not_le [symmetric])
  ultimately show ?thesis by simp
qed


text \<open>C34 Poll health counts every run exactly once: over all rows the polls add up to the number of runs,
  in each row successes and failures add up to its polls, all of its runs started within the five
  minutes from its bucket, and its 95th percentile lies between two of their durations.\<close>

theorem poll_health_exact:
  assumes "h \<in> set (mnemo_poll_health_5m d)" and "columns_ok d"
  shows "sum_list (map hl_polls (mnemo_poll_health_5m d)) = length (t_runs d) \<and>
    hl_polls h = hl_successful_polls h + hl_failed_polls h \<and>
    (\<exists>ps b. ps \<noteq> [] \<and> hl_bucket h = Some b \<and> hl_polls h = length ps \<and>
       set ps = {p \<in> set (t_runs d). po_lighthouse_name p = hl_lighthouse_name h \<and>
                  (\<exists>t. po_started_at p = Some t \<and> date_bin t = b)} \<and>
       {p \<in> set ps. \<exists>t. po_started_at p = Some t \<and> \<not> (b \<le> t \<and> t < b + 300 * 1000000000)} = {} \<and>
       rat_of_int (Min ((\<lambda>p. sint (po_duration_ms p)) ` set ps)) \<le> hl_p95_duration_ms h \<and>
       hl_p95_duration_ms h \<le> rat_of_int (Max ((\<lambda>p. sint (po_duration_ms p)) ` set ps)))"
proof (intro conjI)
  let ?key = "\<lambda>p. (map_option date_bin (po_started_at p), po_lighthouse_name p)"
  have "hl_polls (health_row g) = (length \<circ> snd) g" for g
    by (simp add: health_row_def split: prod.splits)
  then show "sum_list (map hl_polls (mnemo_poll_health_5m d)) = length (t_runs d)"
    using group_sizes [of ?key "t_runs d"] by (simp add: mnemo_poll_health_5m_def comp_def)
  from assms(1) obtain k ps where g: "(k, ps) \<in> set (group_by ?key (t_runs d))" and h: "h = health_row (k, ps)"
    unfolding mnemo_poll_health_5m_def set_map by (metis (no_types, lifting) imageE surj_pair)
  have ps: "ps = filter (\<lambda>p. ?key p = k) (t_runs d)" and k: "k \<in> ?key ` set (t_runs d)"
    using g unfolding group_by_rows by blast+
  show "hl_polls h = hl_successful_polls h + hl_failed_polls h"
    by (simp add: h health_row_def sum_length_filter_compl split: prod.splits)
  from k obtain q where q: "q \<in> set (t_runs d)" "k = ?key q" by blast
  with assms(2) obtain t where t: "po_started_at q = Some t" by (auto simp: columns_ok_def)
  have ne: "ps \<noteq> []" using q by (auto simp: ps filter_empty_conv)
  have "set ps = {p \<in> set (t_runs d). po_lighthouse_name p = hl_lighthouse_name h \<and>
      (\<exists>u. po_started_at p = Some u \<and> date_bin u = date_bin t)}"
    using q(2) t by (auto simp: ps h health_row_def)
  moreover have "{p \<in> set ps. \<exists>u. po_started_at p = Some u \<and>
      \<not> (date_bin t \<le> u \<and> u < date_bin t + 300 * 1000000000)} = {}"
  proof -
    have "date_bin t \<le> u \<and> u < date_bin t + 300 * 1000000000"
      if "p \<in> set ps" "po_started_at p = Some u" for p u
      using that q(2) t date_bin_bounds [of u] by (auto simp: ps bin_width_def)
    then show ?thesis by blast
  qed
  moreover have "hl_bucket h = Some (date_bin t)" "hl_polls h = length ps"
    "hl_p95_duration_ms h = percentile95 (map (\<lambda>p. sint (po_duration_ms p)) ps)"
    using q(2) t by (simp_all add: h health_row_def)
  ultimately show "\<exists>ps b. ps \<noteq> [] \<and> hl_bucket h = Some b \<and> hl_polls h = length ps \<and>
       set ps = {p \<in> set (t_runs d). po_lighthouse_name p = hl_lighthouse_name h \<and>
                  (\<exists>t. po_started_at p = Some t \<and> date_bin t = b)} \<and>
       {p \<in> set ps. \<exists>t. po_started_at p = Some t \<and> \<not> (b \<le> t \<and> t < b + 300 * 1000000000)} = {} \<and>
       rat_of_int (Min ((\<lambda>p. sint (po_duration_ms p)) ` set ps)) \<le> hl_p95_duration_ms h \<and>
       hl_p95_duration_ms h \<le> rat_of_int (Max ((\<lambda>p. sint (po_duration_ms p)) ` set ps))"
    using ne percentile95_bounds [of "map (\<lambda>p. sint (po_duration_ms p)) ps", unfolded list.map_disc_iff set_map, OF ne]
    by - (intro exI [of _ ps] exI [of _ "date_bin t"] conjI, (assumption | simp only:)+)
qed

lemma poll_health_exact_witness:
  "\<exists>h. mnemo_poll_health_5m sample_db = [h] \<and> hl_polls h = hl_successful_polls h + hl_failed_polls h"
proof -
  obtain h where h: "mnemo_poll_health_5m sample_db = [h]"
    by (simp add: mnemo_poll_health_5m_def group_by_def sample_db_eval)
  have "columns_ok sample_db" using sample_db_inv by (simp add: db_inv_def integrity_def)
  with poll_health_exact [of h sample_db] h show ?thesis by simp
qed

end
