(* ===== verification/Json.thy ===== *)
theory Json
  imports Go_Strings
begin

text \<open>
  The part of package encoding/json that \<open>Unmarshal\<close> checks first: the grammar of RFC 8259
  as Go's scanner accepts it, with its limit of 10000 nested values. A parsed value keeps what
  decoding needs: numbers and strings as their text (strings without the quotes, escapes
  unresolved) and every array element with its exact text, the \<open>json.RawMessage\<close> of it.
  The theory shows that a value takes a prefix of the input and that this prefix, cut out,
  parses to the same value.
\<close>

datatype json =
    JNull
  | JBool bool
  | JNumber string
  | JString string
  | JArray "(string \<times> json) list"
  | JObject "(string \<times> json) list"

section \<open>Tokens\<close>

definition is_ws :: "char \<Rightarrow> bool" where
  "is_ws c \<longleftrightarrow> c \<in> {CHR 0x20, CHR 0x09, CHR 0x0A, CHR 0x0D}"

definition skip_ws :: "string \<Rightarrow> string" where
  "skip_ws s = dropWhile is_ws s"

definition is_digit :: "char \<Rightarrow> bool" where
  "is_digit c \<longleftrightarrow> c \<in> set dec_digits"

definition is_hex :: "char \<Rightarrow> bool" where
  "is_hex c \<longleftrightarrow> c \<in> set ''0123456789abcdefABCDEF''"

definition push :: "string \<Rightarrow> (string \<times> string) option \<Rightarrow> (string \<times> string) option" where
  "push p r = (case r of None \<Rightarrow> None | Some (w, rest) \<Rightarrow> Some (p @ w, rest))"

text \<open>The text of a string after its opening quote, up to and without the closing one.\<close>

fun scan_string :: "string \<Rightarrow> (string \<times> string) option" where
  "scan_string [] = None"
| "scan_string (c # s) =
     (if c = CHR 0x22 then Some ([], s)
      else if c = CHR 0x5C then
        (case s of
           [] \<Rightarrow> None
         | e # t \<Rightarrow>
             (if e = CHR ''u'' then
                (case t of
                   a # b # x # y # t' \<Rightarrow>
                     (if is_hex a \<and> is_hex b \<and> is_hex x \<and> is_hex y
                      then push [c, e, a, b, x, y] (scan_string t') else None)
                 | _ \<Rightarrow> None)
              else if e \<in> {CHR 0x22, CHR 0x5C, CHR ''/'', CHR ''b'', CHR ''f'', CHR ''n'', CHR ''r'', CHR ''t''}
              then push [c, e] (scan_string t)
              else None))
      else if (of_char c :: nat) < 0x20 then None
      else push [c] (scan_string s))"

definition scan_digits :: "string \<Rightarrow> string \<times> string" where
  "scan_digits s = (takeWhile is_digit s, dropWhile is_digit s)"

definition scan_sign :: "string \<Rightarrow> string \<Rightarrow> string \<times> string" where
  "scan_sign signs s = (case s of c # t \<Rightarrow> (if c \<in> set signs then ([c], t) else ([], s)) | [] \<Rightarrow> ([], s))"

text \<open>Integer part: a single 0, or digits that do not start with 0.\<close>

definition scan_int :: "string \<Rightarrow> (string \<times> string) option" where
  "scan_int s = (case s of
       [] \<Rightarrow> None
     | c # t \<Rightarrow> (if c = CHR ''0'' then Some ([c], t)
                else if is_digit c then Some (scan_digits s) else None))"

definition scan_frac :: "string \<Rightarrow> (string \<times> string) option" where
  "scan_frac s = (case s of
       c # t \<Rightarrow> (if c = CHR ''.'' then
                   (case scan_digits t of (ds, r) \<Rightarrow> if ds = [] then None else Some (c # ds, r))
                 else Some ([], s))
     | [] \<Rightarrow> Some ([], s))"

definition scan_exp :: "string \<Rightarrow> (string \<times> string) option" where
  "scan_exp s = (case s of
       c # t \<Rightarrow> (if c \<in> {CHR ''e'', CHR ''E''} then
                   (case scan_sign ''+-'' t of (sg, t1) \<Rightarrow>
                    case scan_digits t1 of (ds, r) \<Rightarrow> if ds = [] then None else Some (c # sg @ ds, r))
                 else Some ([], s))
     | [] \<Rightarrow> Some ([], s))"

definition scan_number :: "string \<Rightarrow> (string \<times> string) option" where
  "scan_number s = (case scan_sign ''-'' s of (sg, s1) \<Rightarrow>
     case scan_int s1 of None \<Rightarrow> None | Some (i, s2) \<Rightarrow>
     case scan_frac s2 of None \<Rightarrow> None | Some (f, s3) \<Rightarrow>
     case scan_exp s3 of None \<Rightarrow> None | Some (x, s4) \<Rightarrow> Some (sg @ i @ f @ x, s4))"

definition scan_literal :: "string \<Rightarrow> json \<Rightarrow> string \<Rightarrow> (json \<times> string) option" where
  "scan_literal w v s = (if has_prefix s w then Some (v, drop (length w) s) else None)"

section \<open>Values\<close>

text \<open>
  \<open>parse_elements\<close> and \<open>parse_members\<close> stand at the first character of an element or of a
  member's key; the comparison of lengths before the loop continues always holds and makes the
  recursion visibly terminate.
\<close>

lemma length_skip_ws: "length (skip_ws s) \<le> length s"
  by (simp add: skip_ws_def length_dropWhile_le)

function (sequential)
  parse_value :: "nat \<Rightarrow> string \<Rightarrow> (json \<times> string) option" and
  parse_elements :: "nat \<Rightarrow> string \<Rightarrow> ((string \<times> json) list \<times> string) option" and
  parse_members :: "nat \<Rightarrow> string \<Rightarrow> ((string \<times> json) list \<times> string) option"
where
  "parse_value d [] = None"
| "parse_value d (c # t) =
     (if c = CHR ''{'' then
        (if d = 0 then None
         else let u = skip_ws t in
           if u \<noteq> [] \<and> hd u = CHR ''}'' then Some (JObject [], tl u)
           else (case parse_members (d - 1) u of None \<Rightarrow> None | Some (ms, r) \<Rightarrow> Some (JObject ms, r)))
      else if c = CHR ''['' then
        (if d = 0 then None
         else let u = skip_ws t in
           if u \<noteq> [] \<and> hd u = CHR '']'' then Some (JArray [], tl u)
           else (case parse_elements (d - 1) u of None \<Rightarrow> None | Some (es, r) \<Rightarrow> Some (JArray es, r)))
      else if c = CHR 0x22 then
        (case scan_string t of None \<Rightarrow> None | Some (w, r) \<Rightarrow> Some (JString w, r))
      else if c = CHR ''t'' then scan_literal ''true'' (JBool True) (c # t)
      else if c = CHR ''f'' then scan_literal ''false'' (JBool False) (c # t)
      else if c = CHR ''n'' then scan_literal ''null'' JNull (c # t)
      else (case scan_number (c # t) of None \<Rightarrow> None | Some (w, r) \<Rightarrow> Some (JNumber w, r)))"
| "parse_elements d s =
     (case parse_value d s of
        None \<Rightarrow> None
      | Some (v, r) \<Rightarrow>
          (let raw = take (length s - length r) s; u = skip_ws r in
           if u = [] then None
           else if hd u = CHR '']'' then Some ([(raw, v)], tl u)
           else if hd u = CHR '','' \<and> length (skip_ws (tl u)) < length s then
             (case parse_elements d (skip_ws (tl u)) of
                None \<Rightarrow> None | Some (es, r') \<Rightarrow> Some ((raw, v) # es, r'))
           else None))"
| "parse_members d [] = None"
| "parse_members d (c # t) =
     (if c \<noteq> CHR 0x22 then None
      else case scan_string t of
        None \<Rightarrow> None
      | Some (key, r) \<Rightarrow>
          (let u = skip_ws r in
           if u = [] \<or> hd u \<noteq> CHR '':'' \<or> \<not> length (skip_ws (tl u)) \<le> length t then None
           else case parse_value d (skip_ws (tl u)) of
             None \<Rightarrow> None
           | Some (v, r1) \<Rightarrow>
               (let u1 = skip_ws r1 in
                if u1 = [] then None
                else if hd u1 = CHR ''}'' then Some ([(key, v)], tl u1)
                else if hd u1 = CHR '','' \<and> length (skip_ws (tl u1)) \<le> length t then
                  (case parse_members d (skip_ws (tl u1)) of
                     None \<Rightarrow> None | Some (ms, r') \<Rightarrow> Some ((key, v) # ms, r'))
                else None)))"
  by pat_completeness auto

termination
  by (relation "measure (\<lambda>x. case x of Inl (d, s) \<Rightarrow> 2 * length s
        | Inr (Inl (d, s)) \<Rightarrow> 2 * length s + 1 | Inr (Inr (d, s)) \<Rightarrow> 2 * length s + 1)")
     (auto simp: less_Suc_eq_le intro: le_trans [OF length_skip_ws])

declare parse_value.simps [simp del] parse_elements.simps [simp del] parse_members.simps [simp del]

text \<open>\<open>checkValid\<close>: one value between white space.\<close>

definition parse_document :: "string \<Rightarrow> json option" where
  "parse_document s = (case parse_value 10000 (skip_ws s) of
       Some (v, r) \<Rightarrow> (if skip_ws r = [] then Some v else None)
     | None \<Rightarrow> None)"

section \<open>A token takes a prefix\<close>

lemma push_Some: "push p r = Some (w, rest) \<longleftrightarrow> (\<exists>v. r = Some (v, rest) \<and> w = p @ v)"
  by (auto simp: push_def split: option.splits)

lemma scan_string_prefix:
  "scan_string s = Some (w, r) \<Longrightarrow> s = w @ CHR 0x22 # r \<and> scan_string (w @ CHR 0x22 # r') = Some (w, r')"
proof (induction s arbitrary: w rule: scan_string.induct)
  case 1
  then show ?case by simp
next
  case (2 c s)
  consider "c = CHR 0x22" | (esc) e t where "c = CHR 0x5C" "s = e # t" | "c \<noteq> CHR 0x22" "c \<noteq> CHR 0x5C"
    using 2(4) by (cases s) (auto split: if_splits)
  then show ?case
  proof cases
    case 1
    with 2(4) show ?thesis by simp
  next
    case esc
    show ?thesis
    proof (cases "e = CHR ''u''")
      case True
      with esc 2(4) obtain a b x y t' v where t: "t = a # b # x # y # t'" "is_hex a \<and> is_hex b \<and> is_hex x \<and> is_hex y"
        "scan_string t' = Some (v, r)" "w = [c, e, a, b, x, y] @ v"
        by (auto simp: push_Some split: list.splits if_splits)
      from 2(1) [OF _ esc(1,2) True t(1)] t esc True show ?thesis by (auto simp: push_def)
    next
      case False
      with esc 2(4) obtain v where t: "scan_string t = Some (v, r)" "w = [c, e] @ v"
        "e \<in> {CHR 0x22, CHR 0x5C, CHR ''/'', CHR ''b'', CHR ''f'', CHR ''n'', CHR ''r'', CHR ''t''}"
        by (auto simp: push_Some split: if_splits)
      from 2(2) [OF _ esc(1,2) False t(3) t(1)] t esc False show ?thesis by (auto simp: push_def)
    qed
  next
    case 3
    with 2(4) obtain v where t: "scan_string s = Some (v, r)" "w = c # v" "\<not> (of_char c :: nat) < 0x20"
      by (auto simp: push_Some split: if_splits)
    from 2(3) [OF 3 t(3) t(1)] t 3 show ?thesis by (auto simp: push_def)
  qed
qed

definition ends_number :: "string \<Rightarrow> bool" where
  "ends_number r \<longleftrightarrow> r = [] \<or> \<not> is_digit (hd r) \<and> hd r \<notin> {CHR ''.'', CHR ''e'', CHR ''E''}"

lemma scan_digits_append:
  "scan_digits s = (ds, r) \<Longrightarrow> s = ds @ r \<and> (r' = [] \<or> \<not> is_digit (hd r') \<longrightarrow> scan_digits (ds @ r') = (ds, r'))"
proof -
  assume eq: "scan_digits s = (ds, r)"
  then have d: "\<forall>x \<in> set ds. is_digit x" by (auto simp: scan_digits_def dest: set_takeWhileD)
  have "takeWhile is_digit (ds @ r') = ds \<and> dropWhile is_digit (ds @ r') = r'" if "r' = [] \<or> \<not> is_digit (hd r')"
    using that d by (cases r') simp_all
  with eq show ?thesis by (auto simp: scan_digits_def)
qed

lemma scan_digits_set: "scan_digits s = (ds, r) \<Longrightarrow> set ds \<subseteq> {c. is_digit c}"
  by (auto simp: scan_digits_def dest: set_takeWhileD)

lemma scan_exp_prefix:
  assumes "scan_exp s = Some (x, r)"
  shows "s = x @ r \<and> (x = [] \<or> hd x \<in> {CHR ''e'', CHR ''E''}) \<and> (ends_number r' \<longrightarrow> scan_exp (x @ r') = Some (x, r'))"
proof (cases "x = []")
  case True
  with assms show ?thesis
    by (cases r') (auto simp: scan_exp_def ends_number_def split: list.splits if_splits prod.splits)
next
  case False
  with assms obtain c t sg t1 ds where s: "s = c # t" "c \<in> {CHR ''e'', CHR ''E''}"
    "scan_sign ''+-'' t = (sg, t1)" "scan_digits t1 = (ds, r)" "ds \<noteq> []" "x = c # sg @ ds"
    by (auto simp: scan_exp_def split: list.splits if_splits prod.splits)
  have dig: "set ds \<subseteq> {c. is_digit c}" using s(4) by (rule scan_digits_set)
  have sg: "scan_sign ''+-'' (sg @ ds @ u) = (sg, ds @ u)" "t = sg @ t1" for u
    using s(3,5) dig by (cases ds; auto simp: scan_sign_def is_digit_def dec_digits_def split: list.splits if_splits)+
  show ?thesis
    using scan_digits_append [OF s(4), of r'] s sg by (auto simp: scan_exp_def ends_number_def)
qed

lemma scan_frac_prefix:
  assumes "scan_frac s = Some (x, r)"
  shows "s = x @ r \<and> (x = [] \<or> hd x = CHR ''.'') \<and>
    (r' = [] \<or> \<not> is_digit (hd r') \<and> hd r' \<noteq> CHR ''.'' \<longrightarrow> scan_frac (x @ r') = Some (x, r'))"
proof (cases "x = []")
  case True
  with assms show ?thesis
    by (cases r') (auto simp: scan_frac_def split: list.splits if_splits prod.splits)
next
  case False
  with assms obtain t ds where s: "s = CHR ''.'' # t" "scan_digits t = (ds, r)" "ds \<noteq> []" "x = CHR ''.'' # ds"
    by (auto simp: scan_frac_def split: list.splits if_splits prod.splits)
  show ?thesis
    using scan_digits_append [OF s(2), of r'] s by (auto simp: scan_frac_def)
qed

lemma scan_int_prefix:
  assumes "scan_int s = Some (x, r)"
  shows "s = x @ r \<and> x \<noteq> [] \<and> is_digit (hd x) \<and> (r' = [] \<or> \<not> is_digit (hd r') \<longrightarrow> scan_int (x @ r') = Some (x, r'))"
proof (cases s)
  case (Cons c t)
  show ?thesis
  proof (cases "c = CHR ''0''")
    case True
    with Cons assms show ?thesis by (auto simp: scan_int_def is_digit_def dec_digits_def)
  next
    case False
    with Cons assms have d: "is_digit c" "scan_digits s = (x, r)" by (auto simp: scan_int_def split: if_splits)
    with Cons obtain x' where "x = c # x'" by (auto simp: scan_digits_def)
    with d False Cons scan_digits_append [OF d(2), of r'] show ?thesis by (auto simp: scan_int_def)
  qed
qed (use assms in \<open>simp add: scan_int_def\<close>)

lemma scan_number_prefix:
  assumes "scan_number s = Some (w, r)"
  shows "s = w @ r \<and> w \<noteq> [] \<and> \<not> is_ws (hd w) \<and> (ends_number r' \<longrightarrow> scan_number (w @ r') = Some (w, r'))"
proof -
  from assms obtain sg s1 i s2 f s3 x where 1: "scan_sign ''-'' s = (sg, s1)" "scan_int s1 = Some (i, s2)"
    "scan_frac s2 = Some (f, s3)" "scan_exp s3 = Some (x, r)" and w: "w = sg @ i @ f @ x"
    by (auto simp: scan_number_def split: prod.splits option.splits)
  note xp = scan_exp_prefix [OF 1(4), of r']
  note fp = scan_frac_prefix [OF 1(3), of "x @ r'"]
  note ip = scan_int_prefix [OF 1(2), of "f @ x @ r'"]
  have sg: "s = sg @ s1" "sg = [] \<or> sg = ''-''"
    using 1(1) by (auto simp: scan_sign_def split: list.splits if_splits)
  have i: "i \<noteq> []" "is_digit (hd i)" using ip by auto
  then have sign: "scan_sign ''-'' (sg @ i @ u) = (sg, i @ u)" for u
    using sg(2) by (cases i) (auto simp: scan_sign_def is_digit_def dec_digits_def)
  have nodig: "\<not> is_digit (CHR ''.'')" "\<not> is_digit (CHR ''e'')" "\<not> is_digit (CHR ''E'')"
    by (simp_all add: is_digit_def dec_digits_def)
  have "scan_number (w @ r') = Some (w, r')" if e: "ends_number r'"
  proof -
    have x: "scan_exp (x @ r') = Some (x, r')" using xp e by blast
    have "x @ r' = [] \<or> \<not> is_digit (hd (x @ r')) \<and> hd (x @ r') \<noteq> CHR ''.''"
      using xp e nodig by (cases x) (auto simp: ends_number_def)
    then have f: "scan_frac (f @ x @ r') = Some (f, x @ r')" using fp by blast
    have "f @ x @ r' = [] \<or> \<not> is_digit (hd (f @ x @ r'))"
      using xp fp e nodig by (cases f; cases x) (auto simp: ends_number_def)
    then have "scan_int (i @ f @ x @ r') = Some (i, f @ x @ r')" using ip by blast
    with sign [of "f @ x @ r'"] f x show ?thesis by (simp add: scan_number_def w)
  qed
  moreover have "\<not> is_ws (hd w)"
    using sg(2) i by (cases i) (auto simp: w is_ws_def is_digit_def dec_digits_def)
  ultimately show ?thesis using sg(1) ip fp xp i by (auto simp: w)
qed

lemma scan_literal_prefix:
  assumes "scan_literal w v s = Some (x, r)"
  shows "x = v \<and> s = w @ r \<and> scan_literal w v (w @ r') = Some (v, r')"
proof -
  have "take (length w) s = w" "r = drop (length w) s" "x = v"
    using assms by (auto simp: scan_literal_def has_prefix_def split: if_splits)
  moreover have "s = take (length w) s @ drop (length w) s" by simp
  ultimately have "s = w @ r" by simp
  with \<open>x = v\<close> show ?thesis by (simp add: scan_literal_def has_prefix_def)
qed

section \<open>A value takes a prefix\<close>

definition prefix_of :: "(string \<Rightarrow> ('a \<times> string) option) \<Rightarrow> string \<Rightarrow> 'a \<Rightarrow> string \<Rightarrow> string \<Rightarrow> bool" where
  "prefix_of p s v r w \<longleftrightarrow> s = w @ r \<and> w \<noteq> [] \<and> \<not> is_ws (hd w) \<and>
     (\<forall>r'. ends_number r' \<longrightarrow> p (w @ r') = Some (v, r'))"

lemma skip_ws_split: "\<exists>ws. s = ws @ skip_ws s \<and> (\<forall>c \<in> set ws. is_ws c)"
  unfolding skip_ws_def by (metis takeWhile_dropWhile_id set_takeWhileD)

lemma skip_ws_append: "\<forall>c \<in> set ws. is_ws c \<Longrightarrow> skip_ws (ws @ u) = skip_ws u"
  by (simp add: skip_ws_def dropWhile_append2)

lemma skip_ws_id: "u = [] \<or> \<not> is_ws (hd u) \<Longrightarrow> skip_ws u = u"
  by (cases u) (auto simp: skip_ws_def)

lemma ends_number_ws: "\<forall>c \<in> set ws. is_ws c \<Longrightarrow> hd u \<in> {CHR '','', CHR '']'', CHR ''}''} \<Longrightarrow> ends_number (ws @ u)"
  by (cases ws) (auto simp: ends_number_def is_ws_def is_digit_def dec_digits_def)

text \<open>
  After a value: white space, then a separator or closing character, then the rest. Whatever
  follows that character may be exchanged.
\<close>

lemma after_value:
  assumes "skip_ws r = c # t" and "c \<in> {CHR '','', CHR '']'', CHR ''}''}"
  obtains ws where "r = ws @ c # t" and "\<forall>c \<in> set ws. is_ws c"
    and "\<And>t'. skip_ws (ws @ c # t') = c # t'" and "\<And>t'. ends_number (ws @ c # t')"
proof -
  from skip_ws_split [of r] obtain ws where ws: "r = ws @ c # t" "\<forall>c \<in> set ws. is_ws c"
    using assms(1) by metis
  have "\<not> is_ws c" using assms(2) by (auto simp: is_ws_def)
  then have "skip_ws (ws @ c # t') = c # t'" for t'
    using skip_ws_append [OF ws(2)] by (simp add: skip_ws_id)
  with ws assms(2) ends_number_ws [OF ws(2)] show thesis by (intro that) auto
qed

lemma skip_ws_shorter: "skip_ws r = c # t \<Longrightarrow> length (skip_ws t) < length r"
  using length_skip_ws [of t] length_skip_ws [of r] by simp

lemma elements_close:
  "parse_value d (w @ r1) = Some (v, r1) \<Longrightarrow> skip_ws r1 = CHR '']'' # t \<Longrightarrow>
   parse_elements d (w @ r1) = Some ([(w, v)], t)"
  by (subst parse_elements.simps) (simp add: Let_def)

lemma elements_comma:
  "parse_value d (w @ r1) = Some (v, r1) \<Longrightarrow> skip_ws r1 = CHR '','' # t \<Longrightarrow>
   parse_elements d (skip_ws t) = Some (es, r) \<Longrightarrow> parse_elements d (w @ r1) = Some ((w, v) # es, r)"
  using skip_ws_shorter [of r1 "CHR '',''" t] by (subst parse_elements.simps) (simp add: Let_def)

lemma elements_cases:
  assumes "parse_elements d s = Some (es, r)"
  obtains (close) v r1 where "parse_value d s = Some (v, r1)" and "skip_ws r1 = CHR '']'' # r"
      and "es = [(take (length s - length r1) s, v)]"
  | (comma) v r1 t es' where "parse_value d s = Some (v, r1)" and "skip_ws r1 = CHR '','' # t"
      and "length (skip_ws t) < length s"
      and "parse_elements d (skip_ws t) = Some (es', r)" and "es = (take (length s - length r1) s, v) # es'"
proof -
  from assms obtain v r1 where v: "parse_value d s = Some (v, r1)"
    by (subst (asm) parse_elements.simps) (auto split: option.splits)
  show thesis
  proof (cases "skip_ws r1")
    case Nil
    with assms v show ?thesis by (subst (asm) parse_elements.simps) (simp add: Let_def)
  next
    case (Cons c t)
    with assms v close comma show ?thesis
      by (subst (asm) parse_elements.simps) (auto simp: Let_def split: if_splits option.splits)
  qed
qed

lemma members_close:
  "scan_string (k @ CHR 0x22 # r) = Some (k, r) \<Longrightarrow> skip_ws r = CHR '':'' # u \<Longrightarrow>
   parse_value d (skip_ws u) = Some (v, r1) \<Longrightarrow> skip_ws r1 = CHR ''}'' # t \<Longrightarrow>
   parse_members d (CHR 0x22 # k @ CHR 0x22 # r) = Some ([(k, v)], t)"
  using skip_ws_shorter [of r "CHR '':''" u] by (subst parse_members.simps) (simp add: Let_def)

lemma members_comma:
  "scan_string (k @ CHR 0x22 # r) = Some (k, r) \<Longrightarrow> skip_ws r = CHR '':'' # u \<Longrightarrow>
   parse_value d (skip_ws u) = Some (v, r1) \<Longrightarrow> skip_ws r1 = CHR '','' # t \<Longrightarrow>
   length (skip_ws t) \<le> length k + length r \<Longrightarrow>
   parse_members d (skip_ws t) = Some (ms, r') \<Longrightarrow>
   parse_members d (CHR 0x22 # k @ CHR 0x22 # r) = Some ((k, v) # ms, r')"
  using skip_ws_shorter [of r "CHR '':''" u] by (subst parse_members.simps) (simp add: Let_def)

lemma members_cases:
  assumes "parse_members d s = Some (ms, r)"
  obtains (close) s' k r0 u v r1 where "s = CHR 0x22 # s'" and "scan_string s' = Some (k, r0)"
      and "skip_ws r0 = CHR '':'' # u" and "parse_value d (skip_ws u) = Some (v, r1)"
      and "length (skip_ws u) \<le> length s'"
      and "skip_ws r1 = CHR ''}'' # r" and "ms = [(k, v)]"
  | (comma) s' k r0 u v r1 t ms' where "s = CHR 0x22 # s'" and "scan_string s' = Some (k, r0)"
      and "skip_ws r0 = CHR '':'' # u" and "parse_value d (skip_ws u) = Some (v, r1)"
      and "length (skip_ws u) \<le> length s'" and "length (skip_ws t) \<le> length s'"
      and "skip_ws r1 = CHR '','' # t" and "parse_members d (skip_ws t) = Some (ms', r)"
      and "ms = (k, v) # ms'"
proof (cases s)
  case Nil
  with assms show ?thesis by (simp add: parse_members.simps)
next
  case (Cons q s')
  with assms obtain k r0 u where s: "q = CHR 0x22" "scan_string s' = Some (k, r0)" "skip_ws r0 = CHR '':'' # u"
    "length (skip_ws u) \<le> length s'"
    by (cases "skip_ws (snd (the (scan_string s')))")
       (auto simp: parse_members.simps Let_def split: if_splits option.splits)
  with assms Cons obtain v r1 where v: "parse_value d (skip_ws u) = Some (v, r1)"
    by (auto simp: parse_members.simps Let_def split: option.splits)
  show ?thesis
  proof (cases "skip_ws r1")
    case Nil
    with assms Cons s v show ?thesis by (simp add: parse_members.simps Let_def)
  next
    case (Cons c t)
    with assms \<open>s = q # s'\<close> s v close comma show ?thesis
      by (auto simp: parse_members.simps Let_def split: if_splits option.splits)
  qed
qed

definition elements_prefix :: "nat \<Rightarrow> string \<Rightarrow> (string \<times> json) list \<Rightarrow> string \<Rightarrow> string \<Rightarrow> bool" where
  "elements_prefix d s es r w \<longleftrightarrow> s = w @ r \<and> w \<noteq> [] \<and> \<not> is_ws (hd w) \<and>
     (\<forall>r'. parse_elements d (w @ r') = Some (es, r')) \<and>
     (\<forall>(raw, x) \<in> set es. raw \<noteq> [] \<and> \<not> is_ws (hd raw) \<and> parse_value d raw = Some (x, []) \<and> sublist raw w)"

definition members_prefix :: "nat \<Rightarrow> string \<Rightarrow> (string \<times> json) list \<Rightarrow> string \<Rightarrow> string \<Rightarrow> bool" where
  "members_prefix d s ms r w \<longleftrightarrow> s = w @ r \<and> w \<noteq> [] \<and> \<not> is_ws (hd w) \<and>
     (\<forall>r'. parse_members d (w @ r') = Some (ms, r'))"

lemma ends_number_Nil [simp]: "ends_number []"
  by (simp add: ends_number_def)

lemma take_append_length: "take (length (w @ r) - length r) (w @ r) = w"
  by simp

text \<open>A parsed value followed by a separator, in general position.\<close>

lemma value_then:
  assumes "prefix_of (parse_value d) s v r w" and "skip_ws r = c # t"
    and "c \<in> {CHR '','', CHR '']'', CHR ''}''}"
  obtains ws where "r = ws @ c # t" and "\<And>t'. skip_ws (ws @ c # t') = c # t'"
    and "\<And>t'. parse_value d (w @ ws @ c # t') = Some (v, ws @ c # t')"
proof -
  obtain ws where ws: "r = ws @ c # t" "\<And>t'. skip_ws (ws @ c # t') = c # t'" "\<And>t'. ends_number (ws @ c # t')"
    by (rule after_value [OF assms(2,3)]) blast
  with assms(1) show thesis by (intro that) (auto simp: prefix_of_def)
qed

lemma skip_to:
  assumes "skip_ws t = w @ r" and "w \<noteq> []" and "\<not> is_ws (hd w)"
  obtains ws where "t = ws @ w @ r" and "\<And>r'. skip_ws (ws @ w @ r') = w @ r'"
proof -
  obtain ws where ws: "t = ws @ skip_ws t" "\<forall>c \<in> set ws. is_ws c" using skip_ws_split by blast
  have "skip_ws (ws @ w @ r') = w @ r'" for r'
    using skip_ws_append [OF ws(2)] assms(2,3) by (cases w) (simp_all add: skip_ws_id)
  with ws(1) assms(1) show thesis by (intro that [of ws]) simp_all
qed

lemma elements_prefix_close:
  assumes "prefix_of (parse_value d) s v r1 w" and "skip_ws r1 = CHR '']'' # r"
  shows "\<exists>w'. elements_prefix d s [(take (length s - length r1) s, v)] r w'"
proof -
  obtain ws where ws: "r1 = ws @ CHR '']'' # r" "\<And>t'. skip_ws (ws @ CHR '']'' # t') = CHR '']'' # t'"
    "\<And>t'. parse_value d (w @ ws @ CHR '']'' # t') = Some (v, ws @ CHR '']'' # t')"
    by (rule value_then [OF assms]) auto
  have s: "s = w @ r1" "w \<noteq> []" "\<not> is_ws (hd w)" and raw: "parse_value d w = Some (v, [])"
    using assms(1) by (auto simp: prefix_of_def dest: spec [of _ "[]"])
  have "elements_prefix d s [(w, v)] r (w @ ws @ [CHR '']''])"
    using s raw elements_close [OF ws(3) ws(2)] by (simp add: elements_prefix_def ws(1) prefix_imp_sublist)
  with s show ?thesis by auto
qed

lemma elements_prefix_comma:
  assumes "prefix_of (parse_value d) s v r1 w" and "skip_ws r1 = CHR '','' # t"
    and "elements_prefix d (skip_ws t) es r w2"
  shows "\<exists>w'. elements_prefix d s ((take (length s - length r1) s, v) # es) r w'"
proof -
  obtain ws where ws: "r1 = ws @ CHR '','' # t" "\<And>t'. skip_ws (ws @ CHR '','' # t') = CHR '','' # t'"
    "\<And>t'. parse_value d (w @ ws @ CHR '','' # t') = Some (v, ws @ CHR '','' # t')"
    by (rule value_then [OF assms(1,2)]) auto
  from assms(3) have e: "skip_ws t = w2 @ r" "w2 \<noteq> []" "\<not> is_ws (hd w2)" "\<And>r'. parse_elements d (w2 @ r') = Some (es, r')"
    and el: "\<forall>(raw, x) \<in> set es. raw \<noteq> [] \<and> \<not> is_ws (hd raw) \<and> parse_value d raw = Some (x, []) \<and> sublist raw w2"
    unfolding elements_prefix_def by blast+
  obtain ws2 where ws2: "t = ws2 @ w2 @ r" "\<And>r'. skip_ws (ws2 @ w2 @ r') = w2 @ r'"
    by (rule skip_to [OF e(1-3)]) blast
  have s: "s = w @ r1" "w \<noteq> []" "\<not> is_ws (hd w)" and raw: "parse_value d w = Some (v, [])"
    using assms(1) by (auto simp: prefix_of_def dest: spec [of _ "[]"])
  let ?w = "w @ ws @ CHR '','' # ws2 @ w2"
  have "parse_elements d (?w @ r') = Some ((w, v) # es, r')" for r'
    using elements_comma [OF ws(3) ws(2)] ws2(2) e(4) by simp
  moreover have "sublist w2 ?w" "sublist w ?w"
    by (auto simp: sublist_def intro: exI [of _ "w @ ws @ CHR '','' # ws2"])
  moreover have "sublist x ?w" if "sublist x w2" for x
    using that calculation(2) sublist_order.order_trans by blast
  ultimately have "elements_prefix d s ((w, v) # es) r ?w"
    using s raw el by (fastforce simp: elements_prefix_def ws(1) ws2(1))
  with s show ?thesis by auto
qed

lemma key_then:
  assumes "scan_string s' = Some (k, r0)" and "skip_ws r0 = CHR '':'' # u"
    and "prefix_of (parse_value d) (skip_ws u) v r1 w"
  obtains ws wt where "s' = k @ CHR 0x22 # ws @ CHR '':'' # wt @ w @ r1"
    and "\<And>r'. scan_string (k @ CHR 0x22 # r') = Some (k, r')"
    and "\<And>u'. skip_ws (ws @ CHR '':'' # u') = CHR '':'' # u'"
    and "\<And>r'. skip_ws (wt @ w @ r') = w @ r'"
proof -
  have k: "s' = k @ CHR 0x22 # r0" "\<And>r'. scan_string (k @ CHR 0x22 # r') = Some (k, r')"
    using scan_string_prefix [OF assms(1)] by blast+
  obtain ws where ws: "r0 = ws @ CHR '':'' # u" "\<forall>c \<in> set ws. is_ws c"
    using skip_ws_split [of r0] assms(2) by metis
  have "skip_ws (ws @ CHR '':'' # u') = CHR '':'' # u'" for u'
    using skip_ws_append [OF ws(2)] by (simp add: skip_ws_id is_ws_def)
  moreover have w: "skip_ws u = w @ r1" "w \<noteq> []" "\<not> is_ws (hd w)"
    using assms(3) by (auto simp: prefix_of_def)
  moreover obtain wt where "u = wt @ w @ r1" "\<And>r'. skip_ws (wt @ w @ r') = w @ r'"
    by (rule skip_to [OF w]) blast
  ultimately show thesis using k ws(1) by (intro that [of ws wt]) simp_all
qed

lemma members_prefix_close:
  assumes "scan_string s' = Some (k, r0)" and "skip_ws r0 = CHR '':'' # u"
    and "prefix_of (parse_value d) (skip_ws u) v r1 w" and "skip_ws r1 = CHR ''}'' # r"
  shows "\<exists>w'. members_prefix d (CHR 0x22 # s') [(k, v)] r w'"
proof -
  obtain ws wt where k: "s' = k @ CHR 0x22 # ws @ CHR '':'' # wt @ w @ r1"
    "\<And>r'. scan_string (k @ CHR 0x22 # r') = Some (k, r')"
    "\<And>u'. skip_ws (ws @ CHR '':'' # u') = CHR '':'' # u'" "\<And>r'. skip_ws (wt @ w @ r') = w @ r'"
    by (rule key_then [OF assms(1-3)]) blast
  obtain wz where z: "r1 = wz @ CHR ''}'' # r" "\<And>t'. skip_ws (wz @ CHR ''}'' # t') = CHR ''}'' # t'"
    "\<And>t'. parse_value d (w @ wz @ CHR ''}'' # t') = Some (v, wz @ CHR ''}'' # t')"
    by (rule value_then [OF assms(3,4)]) auto
  let ?w = "CHR 0x22 # k @ CHR 0x22 # ws @ CHR '':'' # wt @ w @ wz @ [CHR ''}'']"
  have "parse_members d (?w @ r') = Some ([(k, v)], r')" for r'
    using members_close [OF k(2) k(3) _ z(2), of d "wt @ w @ wz @ CHR ''}'' # r'" v r'] k(4) z(3) by simp
  then have "members_prefix d (CHR 0x22 # s') [(k, v)] r ?w"
    by (simp add: members_prefix_def k(1) z(1) is_ws_def)
  then show ?thesis by blast
qed

lemma members_prefix_comma:
  assumes "scan_string s' = Some (k, r0)" and "skip_ws r0 = CHR '':'' # u"
    and "prefix_of (parse_value d) (skip_ws u) v r1 w" and "skip_ws r1 = CHR '','' # t"
    and "members_prefix d (skip_ws t) ms r w2"
  shows "\<exists>w'. members_prefix d (CHR 0x22 # s') ((k, v) # ms) r w'"
proof -
  obtain ws wt where k: "s' = k @ CHR 0x22 # ws @ CHR '':'' # wt @ w @ r1"
    "\<And>r'. scan_string (k @ CHR 0x22 # r') = Some (k, r')"
    "\<And>u'. skip_ws (ws @ CHR '':'' # u') = CHR '':'' # u'" "\<And>r'. skip_ws (wt @ w @ r') = w @ r'"
    by (rule key_then [OF assms(1-3)]) blast
  obtain wz where z: "r1 = wz @ CHR '','' # t" "\<And>t'. skip_ws (wz @ CHR '','' # t') = CHR '','' # t'"
    "\<And>t'. parse_value d (w @ wz @ CHR '','' # t') = Some (v, wz @ CHR '','' # t')"
    by (rule value_then [OF assms(3,4)]) auto
  from assms(5) have e: "skip_ws t = w2 @ r" "w2 \<noteq> []" "\<not> is_ws (hd w2)" "\<And>r'. parse_members d (w2 @ r') = Some (ms, r')"
    unfolding members_prefix_def by blast+
  obtain w3 where w3: "t = w3 @ w2 @ r" "\<And>r'. skip_ws (w3 @ w2 @ r') = w2 @ r'"
    by (rule skip_to [OF e(1-3)]) blast
  let ?w = "CHR 0x22 # k @ CHR 0x22 # ws @ CHR '':'' # wt @ w @ wz @ CHR '','' # w3 @ w2"
  have "parse_members d (?w @ r') = Some ((k, v) # ms, r')" for r'
    using members_comma [OF k(2) k(3) _ z(2), of d "wt @ w @ wz @ CHR '','' # w3 @ w2 @ r'" v "w3 @ w2 @ r'" ms r']
      k(4) z(3) w3(2) e(4) by simp
  then have "members_prefix d (CHR 0x22 # s') ((k, v) # ms) r ?w"
    by (simp add: members_prefix_def k(1) z(1) w3(1) is_ws_def)
  then show ?thesis by blast
qed

text \<open>Opening a composite value: the rest after white space is exchanged for another one.\<close>

lemma value_object:
  "parse_members d (skip_ws t) = Some (ms, r) \<Longrightarrow> parse_value (Suc d) (CHR ''{'' # t) = Some (JObject ms, r)"
  by (cases "skip_ws t") (auto simp: parse_value.simps parse_members.simps Let_def split: if_splits)

lemma not_number_close: "scan_number (CHR '']'' # t) = None"
  by (simp add: scan_number_def scan_sign_def scan_int_def is_digit_def dec_digits_def)

lemma value_array:
  "parse_elements d (skip_ws t) = Some (es, r) \<Longrightarrow> parse_value (Suc d) (CHR ''['' # t) = Some (JArray es, r)"
proof -
  assume e: "parse_elements d (skip_ws t) = Some (es, r)"
  have "parse_value d (CHR '']'' # u) = None" for u
    by (simp add: parse_value.simps not_number_close)
  with e have "\<not> (skip_ws t \<noteq> [] \<and> hd (skip_ws t) = CHR '']'')"
    by (cases "skip_ws t") (auto simp: parse_elements.simps)
  with e show ?thesis by (auto simp: parse_value.simps Let_def)
qed

lemma composite_prefix:
  assumes "skip_ws t = w @ r" and "w \<noteq> []" and "\<not> is_ws (hd w)" and "\<not> is_ws c"
    and "\<And>t r'. skip_ws t = w @ r' \<Longrightarrow> p (c # t) = Some (v, r')"
  shows "\<exists>w'. prefix_of p (c # t) v r w'"
proof -
  obtain ws where "t = ws @ w @ r" "\<And>r'. skip_ws (ws @ w @ r') = w @ r'"
    by (rule skip_to [OF assms(1-3)]) blast
  then have "prefix_of p (c # t) v r (c # ws @ w)"
    using assms(4,5) by (simp add: prefix_of_def)
  then show ?thesis by blast
qed

lemma token_prefix:
  assumes "p s = Some (v, r)" and "s = w @ r" and "w \<noteq> []" and "\<not> is_ws (hd w)"
    and "\<And>r'. ends_number r' \<Longrightarrow> p (w @ r') = Some (v, r')"
  shows "\<exists>w'. prefix_of p s v r w'"
  using assms by (auto simp: prefix_of_def)

lemma object_prefix:
  assumes "members_prefix d (skip_ws t) ms r w"
  shows "\<exists>w'. prefix_of (parse_value (Suc d)) (CHR ''{'' # t) (JObject ms) r w'"
  using assms value_object by (intro composite_prefix [of t w]) (auto simp: members_prefix_def is_ws_def)

lemma array_prefix:
  assumes "elements_prefix d (skip_ws t) es r w"
  shows "\<exists>w'. prefix_of (parse_value (Suc d)) (CHR ''['' # t) (JArray es) r w'"
  using assms value_array by (intro composite_prefix [of t w]) (auto simp: elements_prefix_def is_ws_def)

lemma empty_prefix:
  assumes "skip_ws t = c # r" and "(b, c, v) \<in> {(CHR ''{'', CHR ''}'', JObject []), (CHR ''['', CHR '']'', JArray [])}"
  shows "\<exists>w'. prefix_of (parse_value (Suc d)) (b # t) v r w'"
  using assms
  by (intro composite_prefix [of t "[c]"]) (auto simp: is_ws_def parse_value.simps Let_def)

lemma string_prefix:
  assumes "scan_string t = Some (w, r)"
  shows "\<exists>w'. prefix_of (parse_value d) (CHR 0x22 # t) (JString w) r w'"
  using scan_string_prefix [OF assms]
  by (intro token_prefix [where w = "CHR 0x22 # w @ [CHR 0x22]"]) (auto simp: is_ws_def parse_value.simps)

lemma literal_prefix:
  assumes "scan_literal w v (c # t) = Some (x, r)"
    and "(w, v) \<in> {(''true'', JBool True), (''false'', JBool False), (''null'', JNull)}"
  shows "\<exists>w'. prefix_of (parse_value d) (c # t) x r w'"
proof -
  have p: "x = v" "c # t = w @ r" "\<And>r'. scan_literal w v (w @ r') = Some (v, r')"
    using scan_literal_prefix [OF assms(1)] by blast+
  have "parse_value d (w @ r') = scan_literal w v (w @ r')" for r'
    using assms(2) by (auto simp: parse_value.simps)
  moreover have "w \<noteq> [] \<and> \<not> is_ws (hd w)" using assms(2) by (auto simp: is_ws_def)
  ultimately show ?thesis using p by (intro token_prefix [where w = w]) simp_all
qed

definition plain_start :: "char \<Rightarrow> bool" where
  "plain_start c \<longleftrightarrow> c \<notin> {CHR ''{'', CHR ''['', CHR 0x22, CHR ''t'', CHR ''f'', CHR ''n''}"

lemma value_number: "plain_start c \<Longrightarrow> parse_value d (c # t) =
    (case scan_number (c # t) of None \<Rightarrow> None | Some (w, r) \<Rightarrow> Some (JNumber w, r))"
  by (simp add: parse_value.simps plain_start_def)

lemma number_prefix:
  assumes "plain_start c" and "scan_number (c # t) = Some (w, r)"
  shows "\<exists>w'. prefix_of (parse_value d) (c # t) (JNumber w) r w'"
proof -
  have p: "c # t = w @ r" "w \<noteq> []" "\<not> is_ws (hd w)" "\<And>r'. ends_number r' \<Longrightarrow> scan_number (w @ r') = Some (w, r')"
    using scan_number_prefix [OF assms(2)] by blast+
  then obtain w0 where w: "w = c # w0" by (cases w) auto
  show ?thesis
    by (rule token_prefix [where w = w]) (use p assms w value_number in auto)
qed

text \<open>
  A value takes a prefix of its input, and the prefix parses alone, or before anything that
  cannot continue a number, to the same value.
\<close>

lemma parse_prefix:
  "parse_value d s = Some (v, r) \<Longrightarrow> \<exists>w. prefix_of (parse_value d) s v r w"
  "parse_elements d s = Some (es, r) \<Longrightarrow> \<exists>w. elements_prefix d s es r w"
  "parse_members d s = Some (es, r) \<Longrightarrow> \<exists>w. members_prefix d s es r w"
proof (induction d s and d s and d s arbitrary: v r and es r and es r
    rule: parse_value_parse_elements_parse_members.induct)
  case (1 d)
  then show ?case by (simp add: parse_value.simps)
next
  case (2 d c t)
  show ?case
  proof (cases "plain_start c")
    case True
    with 2(3) number_prefix show ?thesis by (fastforce simp: value_number split: option.splits)
  next
    case False
    then consider "c = CHR ''{''" | "c = CHR ''[''" | "c \<in> {CHR 0x22, CHR ''t'', CHR ''f'', CHR ''n''}"
      by (auto simp: plain_start_def)
    then show ?thesis
    proof cases
      case c: 1
      show ?thesis
      proof (cases "skip_ws t \<noteq> [] \<and> hd (skip_ws t) = CHR ''}''")
        case True
        with 2(3) c obtain d' where "d = Suc d'" "v = JObject []" "skip_ws t = CHR ''}'' # r"
          by (cases d; cases "skip_ws t") (auto simp: parse_value.simps Let_def)
        with empty_prefix c show ?thesis by blast
      next
        case False
        with 2(3) c obtain d' ms where "d = Suc d'" "v = JObject ms" "parse_members d' (skip_ws t) = Some (ms, r)"
          by (cases d) (auto simp: parse_value.simps Let_def split: option.splits)
        with 2(1) [OF c _ refl False] object_prefix c show ?thesis by fastforce
      qed
    next
      case c: 2
      show ?thesis
      proof (cases "skip_ws t \<noteq> [] \<and> hd (skip_ws t) = CHR '']''")
        case True
        with 2(3) c obtain d' where "d = Suc d'" "v = JArray []" "skip_ws t = CHR '']'' # r"
          by (cases d; cases "skip_ws t") (auto simp: parse_value.simps Let_def)
        with empty_prefix c show ?thesis by blast
      next
        case False
        with 2(3) c obtain d' es where "d = Suc d'" "v = JArray es" "parse_elements d' (skip_ws t) = Some (es, r)"
          by (cases d) (auto simp: parse_value.simps Let_def split: option.splits)
        with 2(2) [OF _ c _ refl False] array_prefix c show ?thesis by fastforce
      qed
    next
      case 3
      with 2(3) string_prefix literal_prefix show ?thesis
        by (fastforce simp: parse_value.simps split: option.splits)
    qed
  qed
next
  case (3 d s)
  from "3.prems" show ?case
  proof (cases rule: elements_cases)
    case (close v r1)
    with 3(1) elements_prefix_close show ?thesis by blast
  next
    case (comma v r1 t es')
    from 3(1) [OF comma(1)] obtain w where w: "prefix_of (parse_value d) s v r1 w" by blast
    have "\<exists>w. elements_prefix d (skip_ws t) es' r w"
      using 3(2) [OF comma(1) refl refl refl] comma(2,3,4) by simp
    with elements_prefix_comma [OF w comma(2)] comma(5) show ?thesis by blast
  qed
next
  case (4 d)
  then show ?case by (simp add: parse_members.simps)
next
  case (5 d c t)
  from "5.prems" show ?case
  proof (cases rule: members_cases)
    case (close s' k r0 u v r1)
    then have "\<exists>w. prefix_of (parse_value d) (skip_ws u) v r1 w"
      using 5(1) [OF _ _ refl refl] by auto
    with members_prefix_close [OF close(2,3)] close show ?thesis by blast
  next
    case (comma s' k r0 u v r1 t' ms')
    then have "\<exists>w. prefix_of (parse_value d) (skip_ws u) v r1 w"
      using 5(1) [OF _ _ refl refl] by auto
    moreover have "\<exists>w. members_prefix d (skip_ws t') ms' r w"
      using 5(2) [OF _ _ refl refl] comma by auto
    ultimately show ?thesis using members_prefix_comma [OF comma(2,3)] comma by blast
  qed
qed

text \<open>A greater depth budget accepts the same values.\<close>

lemma parse_deeper:
  "parse_value d s = Some p \<Longrightarrow> d \<le> e \<Longrightarrow> parse_value e s = Some p"
  "parse_elements d s = Some q \<Longrightarrow> d \<le> e \<Longrightarrow> parse_elements e s = Some q"
  "parse_members d s = Some q \<Longrightarrow> d \<le> e \<Longrightarrow> parse_members e s = Some q"
proof (induction d s and d s and d s arbitrary: p e and q e and q e
    rule: parse_value_parse_elements_parse_members.induct)
  case (1 d)
  then show ?case by (simp add: parse_value.simps)
next
  case (2 d c t)
  consider "c = CHR ''{''" | "c = CHR ''[''" | "c \<notin> {CHR ''{'', CHR ''[''}" by auto
  then show ?case
  proof cases
    case c: 1
    with 2(3,4) have "d \<noteq> 0" "e \<noteq> 0" "d - 1 \<le> e - 1" by (auto simp: parse_value.simps split: if_splits)
    with 2(1) [OF c _ refl, of _ "e - 1"] 2(3) c show ?thesis
      by (auto simp: parse_value.simps Let_def split: option.splits if_splits)
  next
    case c: 2
    with 2(3,4) have "d \<noteq> 0" "e \<noteq> 0" "d - 1 \<le> e - 1" by (auto simp: parse_value.simps split: if_splits)
    with 2(2) [OF _ c _ refl, of _ "e - 1"] 2(3) c show ?thesis
      by (auto simp: parse_value.simps Let_def split: option.splits if_splits)
  next
    case 3
    with 2(3) show ?thesis by (simp add: parse_value.simps)
  qed
next
  case (3 d s)
  obtain es r where q: "q = (es, r)" by fastforce
  from "3.prems"(1) [unfolded q] show ?case
  proof (cases rule: elements_cases)
    case (close v r1)
    with 3(1) "3.prems"(2) q show ?thesis by (subst parse_elements.simps) (simp add: Let_def)
  next
    case (comma v r1 t es')
    from 3(1) [OF comma(1) "3.prems"(2)] 3(2) [OF comma(1) refl refl refl] comma "3.prems"(2) q
    show ?thesis by (subst parse_elements.simps) (simp add: Let_def)
  qed
next
  case (4 d)
  then show ?case by (simp add: parse_members.simps)
next
  case (5 d c t)
  obtain ms r where q: "q = (ms, r)" by fastforce
  from "5.prems"(1) [unfolded q] show ?case
  proof (cases rule: members_cases)
    case (close s' k r0 u v r1)
    with 5(1) [OF _ _ refl refl] "5.prems"(2) have "parse_value e (skip_ws u) = Some (v, r1)" by auto
    with close q show ?thesis by (simp add: parse_members.simps Let_def)
  next
    case (comma s' k r0 u v r1 t' ms')
    have "parse_value e (skip_ws u) = Some (v, r1)" using 5(1) [OF _ _ refl refl] "5.prems"(2) comma by auto
    moreover have "parse_members e (skip_ws t') = Some (ms', r)"
      using 5(2) [OF _ _ refl refl] "5.prems"(2) comma by auto
    ultimately show ?thesis using comma q by (simp add: parse_members.simps Let_def)
  qed
qed

section \<open>Documents\<close>

lemma document_value:
  assumes "raw \<noteq> []" and "\<not> is_ws (hd raw)" and "parse_value d raw = Some (v, [])" and "d \<le> 10000"
  shows "parse_document raw = Some v"
  using parse_deeper(1) [OF assms(3,4)] assms(1,2) by (simp add: parse_document_def skip_ws_id)

lemma document_parsed:
  assumes "parse_document s = Some v"
  obtains pre w post where "s = pre @ w @ post" and "skip_ws pre = []" and "skip_ws post = []"
    and "w \<noteq> []" and "\<not> is_ws (hd w)" and "parse_value 10000 w = Some (v, [])"
proof -
  from assms obtain r where r: "parse_value 10000 (skip_ws s) = Some (v, r)" "skip_ws r = []"
    by (auto simp: parse_document_def split: option.splits if_splits)
  from parse_prefix(1) [OF r(1)] obtain w where w: "prefix_of (parse_value 10000) (skip_ws s) v r w" by blast
  obtain pre where pre: "s = pre @ skip_ws s" "\<forall>c \<in> set pre. is_ws c" using skip_ws_split by blast
  from skip_ws_append [OF pre(2), of "[]"] have "skip_ws pre = []" by (simp add: skip_ws_def)
  with w pre(1) r(2) show thesis
    by (intro that [of pre w r]) (auto simp: prefix_of_def dest: spec [of _ "[]"])
qed

text \<open>The elements of a document that is an array: their texts lie in it and are documents.\<close>

lemma document_elements:
  assumes "parse_document s = Some (JArray es)" and "(raw, v) \<in> set es"
  shows "raw \<noteq> [] \<and> \<not> is_ws (hd raw) \<and> sublist raw s \<and> parse_value 9999 raw = Some (v, [])"
proof -
  from assms(1) obtain pre w post where s: "s = pre @ w @ post"
    and w: "parse_value 10000 w = Some (JArray es, [])" by (rule document_parsed)
  from w obtain c t where c: "w = c # t" by (cases w) (auto simp: parse_value.simps)
  have "c = CHR ''[''"
    using w c by (auto simp: parse_value.simps Let_def scan_literal_def split: if_splits option.splits)
  moreover from this w c assms(2) have "parse_elements 9999 (skip_ws t) = Some (es, [])"
    by (auto simp: parse_value.simps Let_def split: if_splits option.splits)
  from parse_prefix(2) [OF this] obtain w' where w': "elements_prefix 9999 (skip_ws t) es [] w'" by blast
  then have raw: "raw \<noteq> []" "\<not> is_ws (hd raw)" "parse_value 9999 raw = Some (v, [])" "sublist raw w'"
    using assms(2) unfolding elements_prefix_def by auto
  obtain ws where "t = ws @ skip_ws t" using skip_ws_split by blast
  with w' c s have "s = (pre @ c # ws) @ w' @ post" by (simp add: elements_prefix_def)
  then have "sublist w' s" unfolding sublist_def by blast
  with raw(4) have "sublist raw s" by (rule sublist_order.order_trans)
  with raw show ?thesis by simp
qed

text \<open>The array with one given document as its element.\<close>

lemma document_singleton:
  assumes "raw \<noteq> []" and "\<not> is_ws (hd raw)" and "parse_value 9999 raw = Some (v, [])"
  shows "parse_document (CHR ''['' # raw @ [CHR '']'']) = Some (JArray [(raw, v)])"
proof -
  from parse_prefix(1) [OF assms(3)] have "\<And>r'. ends_number r' \<Longrightarrow> parse_value 9999 (raw @ r') = Some (v, r')"
    by (auto simp: prefix_of_def)
  moreover have "ends_number [CHR '']'']" by (simp add: ends_number_def is_digit_def dec_digits_def)
  ultimately have "parse_value 9999 (raw @ [CHR '']'']) = Some (v, [CHR '']''])" by blast
  from elements_close [OF this, of "[]"] have "parse_elements 9999 (raw @ [CHR '']'']) = Some ([(raw, v)], [])"
    by (simp add: skip_ws_def is_ws_def)
  moreover have "skip_ws (raw @ u) = raw @ u" for u using assms(1,2) by (cases raw) (simp_all add: skip_ws_id)
  ultimately have "parse_value (Suc 9999) (CHR ''['' # raw @ [CHR '']'']) = Some (JArray [(raw, v)], [])"
    by (intro value_array) simp
  moreover have "skip_ws (CHR ''['' # x) = CHR ''['' # x" for x by (simp add: skip_ws_id is_ws_def)
  ultimately show ?thesis by (simp add: parse_document_def skip_ws_id)
qed

end
