(* ===== verification/Json_Decode.thy ===== *)
theory Json_Decode
  imports Json Data_Model "HOL-Library.Char_ord"
begin

text \<open>
  Decoding of parsed JSON into Go values, as \<open>json.Unmarshal\<close> documents it: resolution of
  string escapes with U+FFFD for what is not UTF-8, integers checked against their width,
  RFC 3339 times (\<open>time.UnmarshalJSON\<close>), slices, pointers, maps and structs. Every decoder
  takes the value it decodes into, because null and absent members leave it as it is. None is
  a type error. Two parts of a document are outside the model: what an error message says, and
  elements of a slice beyond its length that only a member repeated several times could show.
\<close>

section \<open>UTF-8\<close>

definition code_in :: "char \<Rightarrow> nat \<Rightarrow> nat \<Rightarrow> bool" where
  "code_in c lo hi \<longleftrightarrow> lo \<le> of_char c \<and> of_char c \<le> hi"

text \<open>The length of the encoded rune a string starts with; 0 when it is not valid.\<close>

definition rune_len :: "string \<Rightarrow> nat" where
  "rune_len s = (case s of
       [] \<Rightarrow> 0
     | c # t \<Rightarrow>
         if code_in c 0 0x7F then 1
         else case t of
           [] \<Rightarrow> 0
         | c1 # t1 \<Rightarrow>
             if code_in c 0xC2 0xDF \<and> code_in c1 0x80 0xBF then 2
             else case t1 of
               [] \<Rightarrow> 0
             | c2 # t2 \<Rightarrow>
                 if (c = CHR 0xE0 \<and> code_in c1 0xA0 0xBF \<or> code_in c 0xE1 0xEC \<and> code_in c1 0x80 0xBF \<or>
                     c = CHR 0xED \<and> code_in c1 0x80 0x9F \<or> code_in c 0xEE 0xEF \<and> code_in c1 0x80 0xBF) \<and>
                    code_in c2 0x80 0xBF then 3
                 else case t2 of
                   [] \<Rightarrow> 0
                 | c3 # _ \<Rightarrow>
                     if (c = CHR 0xF0 \<and> code_in c1 0x90 0xBF \<or> code_in c 0xF1 0xF3 \<and> code_in c1 0x80 0xBF \<or>
                         c = CHR 0xF4 \<and> code_in c1 0x80 0x8F) \<and>
                        code_in c2 0x80 0xBF \<and> code_in c3 0x80 0xBF then 4 else 0)"

definition byte :: "nat \<Rightarrow> char" where
  "byte n = char_of n"

definition encode_rune :: "nat \<Rightarrow> string" where
  "encode_rune r =
     (if r < 0x80 then [byte r]
      else if r < 0x800 then [byte (0xC0 + r div 0x40), byte (0x80 + r mod 0x40)]
      else if r < 0x10000 then
        [byte (0xE0 + r div 0x1000), byte (0x80 + r div 0x40 mod 0x40), byte (0x80 + r mod 0x40)]
      else [byte (0xF0 + r div 0x40000), byte (0x80 + r div 0x1000 mod 0x40),
            byte (0x80 + r div 0x40 mod 0x40), byte (0x80 + r mod 0x40)])"

definition replacement :: nat where "replacement = 0xFFFD"

section \<open>Strings\<close>

definition hex_val :: "char \<Rightarrow> nat" where
  "hex_val c = (let n = of_char c in
     if code_in c 0x30 0x39 then n - 0x30 else if code_in c 0x61 0x66 then n - 0x57 else n - 0x37)"

text \<open>\<open>getu4\<close>: the code of an escape \<open>uXXXX\<close> at the start of a string.\<close>

definition getu4 :: "string \<Rightarrow> nat option" where
  "getu4 s = (case s of
       b # u # a1 # a2 # a3 # a4 # _ \<Rightarrow>
         (if b = CHR 0x5C \<and> u = CHR ''u'' \<and> is_hex a1 \<and> is_hex a2 \<and> is_hex a3 \<and> is_hex a4
          then Some (((hex_val a1 * 16 + hex_val a2) * 16 + hex_val a3) * 16 + hex_val a4) else None)
     | _ \<Rightarrow> None)"

definition surrogate_pair :: "nat \<Rightarrow> nat option \<Rightarrow> nat option" where
  "surrogate_pair r1 r2 = (case r2 of
       None \<Rightarrow> None
     | Some x \<Rightarrow> (if 0xD800 \<le> r1 \<and> r1 < 0xDC00 \<and> 0xDC00 \<le> x \<and> x < 0xE000
                 then Some ((r1 - 0xD800) * 0x400 + (x - 0xDC00) + 0x10000) else None))"

definition simple_escape :: "char \<Rightarrow> char" where
  "simple_escape e =
     (if e = CHR ''b'' then CHR 0x08 else if e = CHR ''f'' then CHR 0x0C
      else if e = CHR ''n'' then CHR 0x0A else if e = CHR ''r'' then CHR 0x0D
      else if e = CHR ''t'' then CHR 0x09 else e)"

text \<open>What one step of the loop writes and how many bytes it reads.\<close>

definition unquote_step :: "string \<Rightarrow> string \<times> nat" where
  "unquote_step s =
     (case getu4 s of
        Some r \<Rightarrow>
          (if 0xD800 \<le> r \<and> r < 0xE000 then
             (case surrogate_pair r (getu4 (drop 6 s)) of
                Some x \<Rightarrow> (encode_rune x, 12)
              | None \<Rightarrow> (encode_rune replacement, 6))
           else (encode_rune r, 6))
      | None \<Rightarrow>
          (if hd s = CHR 0x5C \<and> tl s \<noteq> [] then ([simple_escape (s ! 1)], 2)
           else if rune_len s = 0 then (encode_rune replacement, 1)
           else (take (rune_len s) s, rune_len s)))"

lemma unquote_step_pos: "snd (unquote_step s) > 0"
  by (auto simp: unquote_step_def split: option.splits)

function unquote :: "string \<Rightarrow> string" where
  "unquote s = (if s = [] then [] else
     (case unquote_step s of (out, n) \<Rightarrow> out @ unquote (drop n s)))"
  by pat_completeness auto
termination
proof (relation "measure length")
  fix s x y
  assume "s \<noteq> []" and "(x, y) = unquote_step s"
  then show "(drop y s, s) \<in> measure length"
    using unquote_step_pos [of s] by (simp flip: \<open>(x, y) = unquote_step s\<close>)
qed simp

declare unquote.simps [simp del]

lemma unquote_Nil [simp]: "unquote [] = []"
  by (subst unquote.simps) simp

text \<open>ASCII text without escapes is itself.\<close>

lemma unquote_plain: "list_all (\<lambda>c. c \<noteq> CHR 0x5C \<and> code_in c 0 0x7F) s \<Longrightarrow> unquote s = s"
proof (induction s)
  case (Cons c s)
  then have "unquote_step (c # s) = ([c], 1)"
    by (simp add: unquote_step_def getu4_def rune_len_def split: list.split)
  with Cons show ?case by (subst unquote.simps) simp
qed simp

section \<open>Numbers and times\<close>

definition digits_val :: "string \<Rightarrow> nat" where
  "digits_val s = foldl (\<lambda>n c. n * 10 + (of_char c - 0x30)) 0 s"

definition all_digits :: "string \<Rightarrow> bool" where
  "all_digits s \<longleftrightarrow> s \<noteq> [] \<and> list_all is_digit s"

definition parse_uint :: "nat \<Rightarrow> string \<Rightarrow> nat option" where
  "parse_uint w s = (if all_digits s \<and> digits_val s < 2 ^ w then Some (digits_val s) else None)"

definition parse_int :: "nat \<Rightarrow> string \<Rightarrow> int option" where
  "parse_int w s =
     (case scan_sign ''-'' s of (sg, ds) \<Rightarrow>
        if \<not> all_digits ds then None
        else if sg = [] then (if digits_val ds < 2 ^ (w - 1) then Some (int (digits_val ds)) else None)
        else (if digits_val ds \<le> 2 ^ (w - 1) then Some (- int (digits_val ds)) else None))"

text \<open>\<open>getnum\<close>: two digits, or one when the layout does not fix the width.\<close>

definition getnum :: "bool \<Rightarrow> string \<Rightarrow> (nat \<times> string) option" where
  "getnum fixed s = (case s of
       [] \<Rightarrow> None
     | a # t \<Rightarrow>
         if \<not> is_digit a then None
         else if t \<noteq> [] \<and> is_digit (hd t) then Some (digits_val [a, hd t], tl t)
         else if fixed then None else Some (digits_val [a], t))"

definition expect :: "char \<Rightarrow> string \<Rightarrow> string option" where
  "expect c s = (case s of [] \<Rightarrow> None | x # t \<Rightarrow> if x = c then Some t else None)"

definition num_then :: "bool \<Rightarrow> nat \<Rightarrow> nat \<Rightarrow> char option \<Rightarrow> string \<Rightarrow> (nat \<times> string) option" where
  "num_then fixed lo hi sep s = (case getnum fixed s of
       None \<Rightarrow> None
     | Some (n, r) \<Rightarrow>
         if \<not> (lo \<le> n \<and> n \<le> hi) then None
         else (case sep of None \<Rightarrow> Some (n, r)
               | Some c \<Rightarrow> (case expect c r of None \<Rightarrow> None | Some r' \<Rightarrow> Some (n, r'))))"

definition leap :: "int \<Rightarrow> bool" where
  "leap y \<longleftrightarrow> 4 dvd y \<and> (\<not> 100 dvd y \<or> 400 dvd y)"

definition month_days :: "int \<Rightarrow> nat \<Rightarrow> nat" where
  "month_days y m = (if m = 2 then (if leap y then 29 else 28) else if m \<in> {4, 6, 9, 11} then 30 else 31)"

text \<open>Days since January 1 of year 1.\<close>

definition day_number :: "int \<Rightarrow> nat \<Rightarrow> nat \<Rightarrow> int" where
  "day_number y m d =
     365 * (y - 1) + (y - 1) div 4 - (y - 1) div 100 + (y - 1) div 400 +
     int (sum_list (map (month_days y) [1..<m])) + int d - 1"

text \<open>A fraction of a second, cut after nine digits.\<close>

definition fraction :: "string \<Rightarrow> nat \<times> string" where
  "fraction s =
     (if length s \<ge> 2 \<and> hd s \<in> {CHR ''.'', CHR '',''} \<and> is_digit (s ! 1) then
        (case scan_digits (tl s) of (ds, r) \<Rightarrow>
           (digits_val (take 9 ds) * 10 ^ (9 - length (take 9 ds)), r))
      else (0, s))"

text \<open>\<open>Z\<close>, or a signed offset in seconds.\<close>

definition zone :: "string \<Rightarrow> int option" where
  "zone s =
     (if s = ''Z'' then Some 0
      else if length s = 6 \<and> hd s \<in> {CHR ''+'', CHR ''-''} then
        (case num_then True 0 24 (Some (CHR '':'')) (tl s) of
           None \<Rightarrow> None
         | Some (h, r) \<Rightarrow>
             (case num_then True 0 60 None r of
                Some (m, []) \<Rightarrow> Some ((if hd s = CHR ''-'' then -1 else 1) * int ((h * 60 + m) * 60))
              | _ \<Rightarrow> None))
      else None)"

definition parse_time :: "string \<Rightarrow> gotime option" where
  "parse_time s =
     (if \<not> (all_digits (take 4 s) \<and> length s \<ge> 4) then None
      else case expect (CHR ''-'') (drop 4 s) of None \<Rightarrow> None | Some s1 \<Rightarrow>
      case num_then True 1 12 (Some (CHR ''-'')) s1 of None \<Rightarrow> None | Some (mon, s2) \<Rightarrow>
      (let y = int (digits_val (take 4 s)) in
       case num_then True 1 (month_days y mon) (Some (CHR ''T'')) s2 of None \<Rightarrow> None | Some (d, s3) \<Rightarrow>
       case num_then False 0 23 (Some (CHR '':'')) s3 of None \<Rightarrow> None | Some (h, s4) \<Rightarrow>
       case num_then True 0 59 (Some (CHR '':'')) s4 of None \<Rightarrow> None | Some (mi, s5) \<Rightarrow>
       case num_then True 0 59 None s5 of None \<Rightarrow> None | Some (sec, s6) \<Rightarrow>
       case fraction s6 of (ns, s7) \<Rightarrow>
       case zone s7 of None \<Rightarrow> None | Some off \<Rightarrow>
         Some \<lparr>wall = (day_number y mon d * 86400 + int (h * 3600 + mi * 60 + sec) - off) * 1000000000 + int ns,
               mono = None\<rparr>))"

section \<open>Decoders\<close>

type_synonym 'a decoder = "json \<Rightarrow> 'a \<Rightarrow> 'a option"

definition dec_string :: "string decoder" where
  "dec_string j old = (case j of JString raw \<Rightarrow> Some (unquote raw) | JNull \<Rightarrow> Some old | _ \<Rightarrow> None)"

definition dec_bool :: "bool decoder" where
  "dec_bool j old = (case j of JBool b \<Rightarrow> Some b | JNull \<Rightarrow> Some old | _ \<Rightarrow> None)"

definition dec_uint :: "nat \<Rightarrow> 'w::len word decoder" where
  "dec_uint w j old = (case j of
       JNumber t \<Rightarrow> map_option word_of_nat (parse_uint w t) | JNull \<Rightarrow> Some old | _ \<Rightarrow> None)"

definition dec_int :: "nat \<Rightarrow> 'w::len word decoder" where
  "dec_int w j old = (case j of
       JNumber t \<Rightarrow> map_option word_of_int (parse_int w t) | JNull \<Rightarrow> Some old | _ \<Rightarrow> None)"

definition dec_time :: "gotime decoder" where
  "dec_time j old = (case j of JString raw \<Rightarrow> parse_time raw | JNull \<Rightarrow> Some old | _ \<Rightarrow> None)"

fun dec_elements :: "'a decoder \<Rightarrow> 'a \<Rightarrow> json list \<Rightarrow> 'a list \<Rightarrow> 'a list option" where
  "dec_elements dec zero [] olds = Some []"
| "dec_elements dec zero (j # js) olds =
     (case dec j (case olds of [] \<Rightarrow> zero | x # _ \<Rightarrow> x) of
        None \<Rightarrow> None
      | Some v \<Rightarrow> map_option (\<lambda>vs. v # vs) (dec_elements dec zero js (case olds of [] \<Rightarrow> [] | _ # xs \<Rightarrow> xs)))"

definition dec_slice :: "'a decoder \<Rightarrow> 'a \<Rightarrow> 'a slice decoder" where
  "dec_slice dec zero j old = (case j of
       JNull \<Rightarrow> Some None
     | JArray es \<Rightarrow> map_option Some (dec_elements dec zero (map snd es) (elems old))
     | _ \<Rightarrow> None)"

definition dec_pointer :: "'a decoder \<Rightarrow> 'a \<Rightarrow> 'a option decoder" where
  "dec_pointer dec zero j old = (case j of
       JNull \<Rightarrow> Some None
     | _ \<Rightarrow> map_option Some (dec j (case old of None \<Rightarrow> zero | Some v \<Rightarrow> v)))"

text \<open>A map is filled member by member; a repeated key replaces its value.\<close>

fun map_put :: "'k \<Rightarrow> 'v \<Rightarrow> ('k \<times> 'v) list \<Rightarrow> ('k \<times> 'v) list" where
  "map_put k v [] = [(k, v)]"
| "map_put k v ((k', v') # m) = (if k' = k then (k, v) # m else (k', v') # map_put k v m)"

fun dec_entries_of_map :: "'a decoder \<Rightarrow> 'a \<Rightarrow> (string \<times> json) list \<Rightarrow> (string \<times> 'a) list \<Rightarrow>
    (string \<times> 'a) list option" where
  "dec_entries_of_map dec zero [] m = Some m"
| "dec_entries_of_map dec zero ((k, j) # ms) m =
     (case dec j zero of None \<Rightarrow> None
      | Some v \<Rightarrow> dec_entries_of_map dec zero ms (map_put (unquote k) v m))"

definition dec_map :: "'a decoder \<Rightarrow> 'a \<Rightarrow> (string \<times> 'a) list decoder" where
  "dec_map dec zero j old = (case j of
       JNull \<Rightarrow> Some []
     | JObject ms \<Rightarrow> dec_entries_of_map dec zero ms old
     | _ \<Rightarrow> None)"

text \<open>
  Members of an object find the field of their name, exactly or else up to case; others are
  ignored. Besides ASCII case, U+017F folds to S and U+212A to K.
\<close>

fun fold_name :: "string \<Rightarrow> string" where
  "fold_name [] = []"
| "fold_name (c # s) =
     (if code_in c 0x61 0x7A then byte (of_char c - 0x20) # fold_name s
      else if c = CHR 0xC5 \<and> s \<noteq> [] \<and> hd s = CHR 0xBF then CHR ''S'' # fold_name (tl s)
      else if c = CHR 0xE2 \<and> take 2 s = [CHR 0x84, CHR 0xAA] then CHR ''K'' # fold_name (drop 2 s)
      else c # fold_name s)"

type_synonym 'r fields = "(string \<times> 'r decoder) list"

definition find_field :: "'r fields \<Rightarrow> string \<Rightarrow> 'r decoder option" where
  "find_field fs key =
     (case map_of fs key of
        Some d \<Rightarrow> Some d
      | None \<Rightarrow> map_of (map (\<lambda>(n, d). (fold_name n, d)) fs) (fold_name key))"

fun dec_members :: "'r fields \<Rightarrow> (string \<times> json) list \<Rightarrow> 'r \<Rightarrow> 'r option" where
  "dec_members fs [] r = Some r"
| "dec_members fs ((k, j) # ms) r =
     (case find_field fs (unquote k) of
        None \<Rightarrow> dec_members fs ms r
      | Some d \<Rightarrow> (case d j r of None \<Rightarrow> None | Some r' \<Rightarrow> dec_members fs ms r'))"

definition dec_struct :: "'r fields \<Rightarrow> 'r decoder" where
  "dec_struct fs j old = (case j of JNull \<Rightarrow> Some old | JObject ms \<Rightarrow> dec_members fs ms old | _ \<Rightarrow> None)"

text \<open>A field of a struct: its name, how to read it and how to set it.\<close>

definition field :: "string \<Rightarrow> 'a decoder \<Rightarrow> ('r \<Rightarrow> 'a) \<Rightarrow> (('a \<Rightarrow> 'a) \<Rightarrow> 'r \<Rightarrow> 'r) \<Rightarrow> string \<times> 'r decoder" where
  "field name dec get upd = (name, \<lambda>j r. map_option (\<lambda>v. upd (\<lambda>_. v) r) (dec j (get r)))"

section \<open>Times written in UTC\<close>

definition pad2 :: "nat \<Rightarrow> string" where
  "pad2 n = [digit (n div 10), digit (n mod 10)]"

definition pad4 :: "nat \<Rightarrow> string" where
  "pad4 n = pad2 (n div 100) @ pad2 (n mod 100)"

definition rfc3339 :: "nat \<Rightarrow> nat \<Rightarrow> nat \<Rightarrow> nat \<Rightarrow> nat \<Rightarrow> nat \<Rightarrow> string" where
  "rfc3339 y m d h mi s = pad4 y @ ''-'' @ pad2 m @ ''-'' @ pad2 d @ ''T'' @ pad2 h @ '':'' @ pad2 mi @ '':'' @ pad2 s @ ''Z''"

lemma of_char_digit: "k < 10 \<Longrightarrow> of_char (digit k) = (0x30 + k :: nat)"
proof -
  have "\<forall>k < 10. of_char (digit k) = (0x30 + k :: nat)"
    by (simp add: eval_nat_numeral All_less_Suc digit_def dec_digits_def)
  then show "k < 10 \<Longrightarrow> of_char (digit k) = (0x30 + k :: nat)" by blast
qed

lemma is_digit_digit [simp]: "k < 10 \<Longrightarrow> is_digit (digit k)"
  by (simp add: is_digit_def digit_in)

lemma pad2_val: "n < 100 \<Longrightarrow> digits_val (pad2 n) = n"
  by (simp add: pad2_def digits_val_def of_char_digit)

lemma pad4_val: "n < 10000 \<Longrightarrow> digits_val (pad4 n) = n"
  by (simp add: pad4_def pad2_def digits_val_def of_char_digit)

lemma getnum_pad2: "n < 100 \<Longrightarrow> getnum fixed (pad2 n @ s) = Some (n, s)"
  using pad2_val [of n] by (simp add: getnum_def pad2_def)

lemma num_then_pad2:
  "n < 100 \<Longrightarrow> lo \<le> n \<Longrightarrow> n \<le> hi \<Longrightarrow> num_then fixed lo hi (Some c) (pad2 n @ c # s) = Some (n, s)"
  "n < 100 \<Longrightarrow> lo \<le> n \<Longrightarrow> n \<le> hi \<Longrightarrow> num_then fixed lo hi None (pad2 n @ s) = Some (n, s)"
  by (simp_all add: num_then_def getnum_pad2 expect_def)

lemma month_days_bound: "month_days y m \<le> 31"
  by (simp add: month_days_def)

lemma parse_rfc3339:
  assumes "y < 10000" and "1 \<le> m" "m \<le> 12" and "1 \<le> d" "d \<le> month_days (int y) m"
    and "h \<le> 23" and "mi \<le> 59" and "s \<le> 59"
  shows "parse_time (rfc3339 y m d h mi s) =
     Some \<lparr>wall = (day_number (int y) m d * 86400 + int (h * 3600 + mi * 60 + s)) * 1000000000, mono = None\<rparr>"
proof -
  have d: "d < 100" using assms(5) month_days_bound [of "int y" m] by simp
  have len: "length (pad4 y) = 4" "all_digits (pad4 y)"
    using assms(1) by (simp_all add: pad4_def pad2_def all_digits_def)
  note steps = num_then_pad2(1) [of m 1 12 True "CHR ''-''"] num_then_pad2(1) [of d 1 "month_days (int y) m" True "CHR ''T''"]
    num_then_pad2(1) [of h 0 23 False "CHR '':''"] num_then_pad2(1) [of mi 0 59 True "CHR '':''"]
    num_then_pad2(2) [of s 0 59 True]
  have "fraction ''Z'' = (0, ''Z'')" "zone ''Z'' = Some 0" by (simp_all add: fraction_def zone_def)
  then show ?thesis
    using len pad4_val [OF assms(1)] assms d steps
    by (simp add: rfc3339_def parse_time_def expect_def Let_def)
qed

end
