(* ===== verification/Nebula_Parser.thy ===== *)
theory Nebula_Parser
  imports Json_Decode
begin

text \<open>
  \<open>internal/nebula/parser.go\<close>: the outputs of the Nebula SSH commands as model values. The
  entries of a hostmap or address map keep the exact text they were decoded from. The text of
  encoding/json's error for a rejected document is the parameter \<open>json_error\<close>.
\<close>

section \<open>Decoders of the model types\<close>

definition string_slice :: "string slice decoder" where
  "string_slice = dec_slice dec_string []"

definition dec_device :: "DeviceInfo decoder" where
  "dec_device = dec_struct [field ''name'' dec_string di_name di_name_update,
     field ''cidr'' string_slice di_cidr di_cidr_update]"

definition dec_details :: "CertificateDetails decoder" where
  "dec_details = dec_struct
     [field ''groups'' string_slice cd_groups cd_groups_update,
      field ''isCa'' dec_bool cd_is_ca cd_is_ca_update,
      field ''issuer'' dec_string cd_issuer cd_issuer_update,
      field ''name'' dec_string cd_name cd_name_update,
      field ''networks'' string_slice cd_networks cd_networks_update,
      field ''notAfter'' dec_time cd_not_after cd_not_after_update,
      field ''notBefore'' dec_time cd_not_before cd_not_before_update,
      field ''unsafeNetworks'' string_slice cd_unsafe_networks cd_unsafe_networks_update]"

definition dec_certificate :: "Certificate decoder" where
  "dec_certificate = dec_struct
     [field ''curve'' dec_string ce_curve ce_curve_update,
      field ''details'' dec_details ce_details ce_details_update,
      field ''fingerprint'' dec_string ce_fingerprint ce_fingerprint_update,
      field ''publicKey'' dec_string ce_public_key ce_public_key_update,
      field ''signature'' dec_string ce_signature ce_signature_update,
      field ''version'' (dec_int 32) ce_version ce_version_update]"

definition dec_hostmap_entry :: "HostmapEntry decoder" where
  "dec_hostmap_entry = dec_struct
     [field ''vpnAddrs'' string_slice he_vpn_addrs he_vpn_addrs_update,
      field ''localIndex'' (dec_uint 32) he_local_index he_local_index_update,
      field ''remoteIndex'' (dec_uint 32) he_remote_index he_remote_index_update,
      field ''remoteAddrs'' string_slice he_remote_addrs he_remote_addrs_update,
      field ''cert'' (dec_pointer dec_certificate zero_certificate) he_cert he_cert_update,
      field ''messageCounter'' (dec_uint 64) he_message_counter he_message_counter_update,
      field ''currentRemote'' dec_string he_current_remote he_current_remote_update,
      field ''currentRelaysToMe'' string_slice he_relays_to_me he_relays_to_me_update,
      field ''currentRelaysThroughMe'' string_slice he_relays_through_me he_relays_through_me_update]"

definition dec_addr_entry :: "LighthouseAddrEntry decoder" where
  "dec_addr_entry = dec_struct
     [field ''learned'' string_slice ae_learned ae_learned_update,
      field ''reported'' string_slice ae_reported ae_reported_update,
      field ''relay'' string_slice ae_relay ae_relay_update]"

definition dec_addrmap_entry :: "LighthouseAddrmapEntry decoder" where
  "dec_addrmap_entry = dec_struct
     [field ''vpnAddr'' dec_string am_vpn_addr am_vpn_addr_update,
      field ''addrs'' (dec_map dec_addr_entry zero_addr_entry) am_addrs am_addrs_update]"

section \<open>The parsers\<close>

type_synonym json_error = "string \<Rightarrow> go_error"

definition Unmarshal :: "json_error \<Rightarrow> 'a decoder \<Rightarrow> string \<Rightarrow> 'a \<Rightarrow> 'a result" where
  "Unmarshal json_error dec output zero =
     (case parse_document output of
        None \<Rightarrow> Inl (json_error output)
      | Some j \<Rightarrow> (case dec j zero of None \<Rightarrow> Inl (json_error output) | Some v \<Rightarrow> Inr v))"

text \<open>Into a \<open>[]json.RawMessage\<close>: the text of each element.\<close>

definition dec_raw_slice :: "string slice decoder" where
  "dec_raw_slice j old = (case j of JNull \<Rightarrow> Some None | JArray es \<Rightarrow> Some (Some (map fst es)) | _ \<Rightarrow> None)"

text \<open>\<open>append([]byte(nil), b...)\<close> is nil when there is nothing to append.\<close>

definition clone_bytes :: "string \<Rightarrow> char slice" where
  "clone_bytes b = (if b = [] then None else Some b)"

definition attach_raws :: "(char slice \<Rightarrow> 'e \<Rightarrow> 'e) \<Rightarrow> 'e slice \<Rightarrow> string slice \<Rightarrow> 'e slice" where
  "attach_raws set_raw entries raws =
     map_option (map (\<lambda>(i, e). if i < go_len raws then set_raw (clone_bytes (elems raws ! i)) e else e) \<circ> enumerate 0)
       entries"

definition ParseVersion :: "string \<Rightarrow> string" where
  "ParseVersion output = TrimSpace output"

definition ParseDeviceInfo :: "json_error \<Rightarrow> string \<Rightarrow> DeviceInfo result" where
  "ParseDeviceInfo json_error output =
     (case Unmarshal json_error dec_device output zero_device of
        Inl err \<Rightarrow> Inl (Wrap ''parse device-info'' err)
      | Inr info \<Rightarrow> Inr info)"

definition ParseHostmap :: "json_error \<Rightarrow> string \<Rightarrow> HostmapEntry slice result" where
  "ParseHostmap json_error output =
     (case Unmarshal json_error (dec_slice dec_hostmap_entry zero_hostmap_entry) output None of
        Inl err \<Rightarrow> Inl (Wrap ''parse hostmap'' err)
      | Inr entries \<Rightarrow>
          (case Unmarshal json_error dec_raw_slice output (Some []) of
             Inl err \<Rightarrow> Inl (Wrap ''split hostmap raw records'' err)
           | Inr raws \<Rightarrow> Inr (attach_raws (\<lambda>raw e. e\<lparr>he_raw := raw\<rparr>) entries raws)))"

definition ParseLighthouseAddrmap :: "json_error \<Rightarrow> string \<Rightarrow> LighthouseAddrmapEntry slice result" where
  "ParseLighthouseAddrmap json_error output =
     (case Unmarshal json_error (dec_slice dec_addrmap_entry zero_addrmap_entry) output None of
        Inl err \<Rightarrow> Inl (Wrap ''parse lighthouse addrmap'' err)
      | Inr entries \<Rightarrow>
          (case Unmarshal json_error dec_raw_slice output (Some []) of
             Inl err \<Rightarrow> Inl (Wrap ''split lighthouse addrmap raw records'' err)
           | Inr raws \<Rightarrow> Inr (attach_raws (\<lambda>raw e. e\<lparr>am_raw := raw\<rparr>) entries raws)))"

text \<open>\<open>json.RawMessage\<close> of a document: its value without the white space around it.\<close>

definition document_text :: "string \<Rightarrow> string" where
  "document_text s = (case parse_value 10000 (skip_ws s) of
       Some (v, r) \<Rightarrow> take (length (skip_ws s) - length r) (skip_ws s) | None \<Rightarrow> [])"

definition ParseRelays :: "json_error \<Rightarrow> string \<Rightarrow> char slice result" where
  "ParseRelays json_error output =
     (case parse_document output of
        None \<Rightarrow> Inl (Wrap ''parse relays'' (json_error output))
      | Some _ \<Rightarrow> Inr (clone_bytes (document_text output)))"

section \<open>Entries and their texts\<close>

lemma dec_elements_iff:
  "dec_elements dec zero js [] = Some vs \<longleftrightarrow> map (\<lambda>j. dec j zero) js = map Some vs"
  by (induction js arbitrary: vs) (auto simp: Cons_eq_map_conv split: option.splits)

lemma attach_raws_eq:
  assumes "length vs = length raws"
  shows "attach_raws f (Some vs) (Some raws) = Some (map2 (\<lambda>raw v. f (clone_bytes raw) v) raws vs)"
  using assms by (auto simp: attach_raws_def elems_def intro!: nth_equalityI simp: nth_enumerate_eq)

lemma Unmarshal_Inr:
  "Unmarshal je dec out zero = Inr v \<longleftrightarrow> (\<exists>j. parse_document out = Some j \<and> dec j zero = Some v)"
  by (auto simp: Unmarshal_def split: option.splits)

lemma Unmarshal_Inl:
  "Unmarshal je dec out zero = Inl e \<longleftrightarrow>
     e = je out \<and> \<not> (\<exists>j v. parse_document out = Some j \<and> dec j zero = Some v)"
  by (auto simp: Unmarshal_def split: option.splits)

lemma dec_slice_cases:
  assumes "dec_slice dec zero j None = Some es"
  obtains (null) "j = JNull" and "es = None"
  | (array) xs vs where "j = JArray xs" and "es = Some vs" and "map (\<lambda>x. dec (snd x) zero) xs = map Some vs"
proof (cases j)
  case (JArray xs)
  with assms obtain vs where "dec_elements dec zero (map snd xs) [] = Some vs" "es = Some vs"
    by (auto simp: dec_slice_def elems_def)
  with JArray array show thesis by (simp add: dec_elements_iff comp_def)
qed (use assms null in \<open>auto simp: dec_slice_def\<close>)

text \<open>
  The common part of \<open>ParseHostmap\<close> and \<open>ParseLighthouseAddrmap\<close>: decoding a slice of
  structs and attaching the texts.
\<close>

definition parse_entries ::
  "json_error \<Rightarrow> 'e decoder \<Rightarrow> 'e \<Rightarrow> (char slice \<Rightarrow> 'e \<Rightarrow> 'e) \<Rightarrow> string \<Rightarrow> string \<Rightarrow> string \<Rightarrow> 'e slice result" where
  "parse_entries je dec zero set_raw what split output =
     (case Unmarshal je (dec_slice dec zero) output None of
        Inl err \<Rightarrow> Inl (Wrap what err)
      | Inr entries \<Rightarrow>
          (case Unmarshal je dec_raw_slice output (Some []) of
             Inl err \<Rightarrow> Inl (Wrap split err)
           | Inr raws \<Rightarrow> Inr (attach_raws set_raw entries raws)))"

lemma parse_entries_null:
  "parse_document out = Some JNull \<Longrightarrow> parse_entries je dec zero f what split out = Inr None"
  by (simp add: parse_entries_def Unmarshal_def dec_slice_def dec_raw_slice_def attach_raws_def)

lemma parse_entries_array:
  assumes "parse_document out = Some (JArray xs)" and "map (\<lambda>x. dec (snd x) zero) xs = map Some vs"
  shows "parse_entries je dec zero f what split out =
     Inr (Some (map2 (\<lambda>x v. f (clone_bytes (fst x)) v) xs vs))"
proof -
  have len: "length vs = length xs" using arg_cong [OF assms(2), of length] by simp
  have "dec_elements dec zero (map snd xs) [] = Some vs"
    using assms(2) by (simp add: dec_elements_iff comp_def)
  with assms(1) len have "parse_entries je dec zero f what split out = Inr (attach_raws f (Some vs) (Some (map fst xs)))"
    by (simp add: parse_entries_def Unmarshal_def dec_slice_def dec_raw_slice_def elems_def)
  with len show ?thesis by (simp add: attach_raws_eq zip_map1 comp_def case_prod_beta')
qed

text \<open>Only the first decoding can fail: the texts of an array can always be taken.\<close>

lemma parse_entries_error:
  "parse_entries je dec zero f what split out = Inl e \<longleftrightarrow>
     e = Wrap what (je out) \<and> \<not> (\<exists>j es. parse_document out = Some j \<and> dec_slice dec zero j None = Some es)"
proof (cases "Unmarshal je (dec_slice dec zero) out None")
  case (Inl err)
  then have "parse_entries je dec zero f what split out = Inl (Wrap what err)" by (simp add: parse_entries_def)
  with Inl show ?thesis unfolding Unmarshal_Inl by auto
next
  case (Inr es)
  then obtain j where j: "parse_document out = Some j" "dec_slice dec zero j None = Some es"
    by (auto simp: Unmarshal_Inr)
  from j(2) have "\<exists>r. parse_entries je dec zero f what split out = Inr r"
    by (cases rule: dec_slice_cases) (use j(1) parse_entries_null parse_entries_array in metis)+
  with j show ?thesis by auto
qed

lemma parse_entries_texts:
  assumes "parse_entries je dec zero f what split out = Inr (Some es)" and "e \<in> set es"
  shows "\<exists>raw v. e = f (Some raw) v \<and> raw \<noteq> [] \<and> sublist raw out \<and>
    parse_entries je dec zero f what split (CHR ''['' # raw @ [CHR '']'']) = Inr (Some [e])"
proof -
  from assms(1) obtain j ds where j: "parse_document out = Some j" "dec_slice dec zero j None = Some ds"
    by (auto simp: parse_entries_def Unmarshal_Inr split: sum.splits)
  from j(2) show ?thesis
  proof (cases rule: dec_slice_cases)
    case null
    with j(1) assms show ?thesis by (simp add: parse_entries_null)
  next
    case (array xs vs)
    from parse_entries_array [where dec = dec and zero = zero, OF j(1) [unfolded array(1)] array(3)] assms
    have "e \<in> set (map2 (\<lambda>x v. f (clone_bytes (fst x)) v) xs vs)" by simp
    then obtain x v where x: "(x, v) \<in> set (zip xs vs)" "e = f (clone_bytes (fst x)) v" by auto
    have "map (\<lambda>x. dec (snd x) zero) xs ! i = map Some vs ! i" for i by (simp add: array(3))
    with x(1) array(3) have v: "dec (snd x) zero = Some v"
      by (auto simp: in_set_zip) (metis length_map nth_map)
    obtain raw j' where xj: "x = (raw, j')" by (cases x)
    with x(1) have "(raw, j') \<in> set xs" by (auto dest: set_zip_leftD)
    from document_elements [OF j(1) [unfolded array(1)] this]
    have raw: "raw \<noteq> []" "\<not> is_ws (hd raw)" "sublist raw out" "parse_value 9999 raw = Some (j', [])"
      by simp_all
    from parse_entries_array [where dec = dec and zero = zero and vs = "[v]" and f = f and je = je and what = what and split = split, OF document_singleton [OF raw(1,2,4)]]
    show ?thesis using v x(2) xj raw by (auto simp: clone_bytes_def)
  qed
qed

lemma ParseHostmap_entries:
  "ParseHostmap je out = parse_entries je dec_hostmap_entry zero_hostmap_entry (\<lambda>raw e. e\<lparr>he_raw := raw\<rparr>)
     ''parse hostmap'' ''split hostmap raw records'' out"
  by (simp add: ParseHostmap_def parse_entries_def)

lemma ParseLighthouseAddrmap_entries:
  "ParseLighthouseAddrmap je out = parse_entries je dec_addrmap_entry zero_addrmap_entry (\<lambda>raw e. e\<lparr>am_raw := raw\<rparr>)
     ''parse lighthouse addrmap'' ''split lighthouse addrmap raw records'' out"
  by (simp add: ParseLighthouseAddrmap_def parse_entries_def)

lemma hostmap_raws:
  assumes "ParseHostmap je out = Inr es" and "e \<in> set (elems es)"
  shows "go_len (he_raw e) > 0"
proof -
  from assms(2) obtain xs where "es = Some xs" "e \<in> set xs" by (cases es) (auto simp: elems_def)
  with parse_entries_texts [OF assms(1) [unfolded ParseHostmap_entries \<open>es = Some xs\<close>]]
  obtain raw v where "e = v\<lparr>he_raw := Some raw\<rparr>" "raw \<noteq> []" by blast
  then show ?thesis by (simp add: elems_def)
qed

lemma addrmap_raws:
  assumes "ParseLighthouseAddrmap je out = Inr es" and "e \<in> set (elems es)"
  shows "am_raw e \<noteq> None"
proof -
  from assms(2) obtain xs where "es = Some xs" "e \<in> set xs" by (cases es) (auto simp: elems_def)
  with parse_entries_texts [OF assms(1) [unfolded ParseLighthouseAddrmap_entries \<open>es = Some xs\<close>]]
  obtain raw v where "e = v\<lparr>am_raw := Some raw\<rparr>" by blast
  then show ?thesis by simp
qed

section \<open>A sample\<close>

definition plain_json_error :: json_error where
  "plain_json_error output = Err ''json''"

definition sample_output :: string where
  "sample_output = '' [ {''@[CHR 0x22]@''localIndex''@[CHR 0x22]@'': 7} ,null]''"

definition sample_object :: string where
  "sample_object = ''{''@[CHR 0x22]@''localIndex''@[CHR 0x22]@'': 7}''"

lemmas json_eval = parse_document_def parse_value.simps parse_elements.simps parse_members.simps Let_def
  skip_ws_def is_ws_def scan_number_def scan_sign_def scan_int_def scan_frac_def scan_exp_def scan_digits_def
  is_digit_def dec_digits_def scan_literal_def has_prefix_def push_def

lemma sample_document:
  "parse_document sample_output =
     Some (JArray [(sample_object, JObject [(''localIndex'', JNumber ''7'')]), (''null'', JNull)])"
  by (simp add: sample_output_def sample_object_def json_eval)

lemma sample_decoded:
  "dec_hostmap_entry (JObject [(''localIndex'', JNumber ''7'')]) zero_hostmap_entry
     = Some (zero_hostmap_entry\<lparr>he_local_index := 7\<rparr>)"
proof -
  have "unquote ''localIndex'' = ''localIndex''" by (rule unquote_plain) (simp add: code_in_def)
  then show ?thesis
    by (simp add: dec_hostmap_entry_def dec_struct_def find_field_def field_def dec_uint_def parse_uint_def
        all_digits_def digits_val_def is_digit_def dec_digits_def)
qed

lemma sample_null: "dec_hostmap_entry JNull e = Some e"
  by (simp add: dec_hostmap_entry_def dec_struct_def)

lemma sample_hostmap:
  "ParseHostmap je sample_output = Inr (Some
     [zero_hostmap_entry\<lparr>he_local_index := 7, he_raw := Some sample_object\<rparr>,
      zero_hostmap_entry\<lparr>he_raw := Some ''null''\<rparr>])"
  unfolding ParseHostmap_entries
  by (subst parse_entries_array [OF sample_document, where vs = "[zero_hostmap_entry\<lparr>he_local_index := 7\<rparr>, zero_hostmap_entry]"])
     (simp_all add: sample_decoded clone_bytes_def sample_object_def sample_null)

section \<open>Properties\<close>

text \<open>C14 Every entry of a parsed hostmap keeps, as its raw document, a contiguous part of the command
  output, and parsing that document alone gives the same entry again: nothing of the entry is
  lost or invented between the columns and the stored document.\<close>

theorem hostmap_documents_exact:
  assumes "ParseHostmap je out = Inr (Some es)" and "e \<in> set es"
  shows "\<exists>raw. he_raw e = Some raw \<and> raw \<noteq> [] \<and> sublist raw out \<and>
    ParseHostmap je (''['' @ raw @ '']'') = Inr (Some [e])"
  using parse_entries_texts [OF assms(1) [unfolded ParseHostmap_entries] assms(2)]
  unfolding ParseHostmap_entries by auto

lemma hostmap_documents_exact_witness:
  "ParseHostmap plain_json_error (''['' @ sample_object @ '']'') =
     Inr (Some [zero_hostmap_entry\<lparr>he_local_index := 7, he_raw := Some sample_object\<rparr>])"
  using hostmap_documents_exact [OF sample_hostmap [of plain_json_error], where e = "zero_hostmap_entry\<lparr>he_local_index := 7, he_raw := Some sample_object\<rparr>"]
  by auto

text \<open>The same holds of the lighthouse address map, whose entries are stored with their document.\<close>

theorem addrmap_documents_exact:
  assumes "ParseLighthouseAddrmap je out = Inr (Some es)" and "e \<in> set es"
  shows "\<exists>raw. am_raw e = Some raw \<and> raw \<noteq> [] \<and> sublist raw out \<and>
    ParseLighthouseAddrmap je (''['' @ raw @ '']'') = Inr (Some [e])"
  using parse_entries_texts [OF assms(1) [unfolded ParseLighthouseAddrmap_entries] assms(2)]
  unfolding ParseLighthouseAddrmap_entries by auto

lemma addrmap_documents_exact_witness:
  "ParseLighthouseAddrmap plain_json_error ''[null]'' = Inr (Some [zero_addrmap_entry\<lparr>am_raw := Some ''null''\<rparr>])"
proof -
  have d: "parse_document ''[null]'' = Some (JArray [(''null'', JNull)])" by (simp add: json_eval)
  have p: "ParseLighthouseAddrmap plain_json_error ''[null]'' = Inr (Some [zero_addrmap_entry\<lparr>am_raw := Some ''null''\<rparr>])"
    unfolding ParseLighthouseAddrmap_entries
    by (subst parse_entries_array [OF d, where vs = "[zero_addrmap_entry]"])
       (simp_all add: dec_addrmap_entry_def dec_struct_def clone_bytes_def)
  from addrmap_documents_exact [OF p, of "zero_addrmap_entry\<lparr>am_raw := Some ''null''\<rparr>"] show ?thesis by auto
qed

text \<open>ParseHostmap fails exactly when the output is not one JSON document or does not decode into a
  list of entries, and then with the first of its two messages: splitting the raw records, the
  second decoding of the same output, cannot fail.\<close>

theorem hostmap_fails_iff:
  "ParseHostmap je out = Inl err \<longleftrightarrow>
     err = Wrap ''parse hostmap'' (je out) \<and>
     \<not> (\<exists>j es. parse_document out = Some j \<and> dec_slice dec_hostmap_entry zero_hostmap_entry j None = Some es)"
  unfolding ParseHostmap_entries by (rule parse_entries_error)



end
