(* ===== verification/Collector.thy ===== *)
theory Collector
  imports Nebula_Parser Metrics Config
begin

text \<open>
  \<open>internal/collector\<close>. The runner of commands and the clock are operations on an
  environment \<open>'e\<close> (record \<open>runtime\<close>), the store an operation record on \<open>'s\<close>.
  \<open>pollLighthouse\<close> runs six commands and collects what they return; \<open>runRound\<close> polls
  all lighthouses in goroutines, waits for them and saves the results. The goroutines are a
  step relation: a step runs one command of one goroutine, and a schedule, a list of choices,
  says whose turn it is and whether its jitter timer lost against a done context.
\<close>

record 'e runtime =
  op_now :: "'e \<Rightarrow> gotime \<times> 'e"
  op_run :: "Lighthouse \<Rightarrow> string \<Rightarrow> 'e \<Rightarrow> CommandResult \<times> 'e"

record 's collector_store =
  op_SavePollResult :: "PollResult \<Rightarrow> ('s, unit) act"
  op_RefreshGrafanaViews :: "('s, unit) act"

section \<open>One poll\<close>

datatype poll_command = Version | Device_Info | List_Hostmap | List_Addrmap | List_Pending | Print_Relays

fun command_text :: "poll_command \<Rightarrow> string" where
  "command_text Version = ''version''"
| "command_text Device_Info = ''device-info -json''"
| "command_text List_Hostmap = ''list-hostmap -json''"
| "command_text List_Addrmap = ''list-lighthouse-addrmap -json''"
| "command_text List_Pending = ''list-pending-hostmap -json''"
| "command_text Print_Relays = ''print-relays''"

definition poll_commands :: "poll_command list" where
  "poll_commands = [Version, Device_Info, List_Hostmap, List_Addrmap, List_Pending, Print_Relays]"

text \<open>Every command is run, once.\<close>

lemma poll_commands_UNIV: "distinct poll_commands" "set poll_commands = UNIV"
proof -
  have "c \<in> set poll_commands" for c by (cases c) (simp_all add: poll_commands_def)
  then show "set poll_commands = UNIV" by blast
qed (simp add: poll_commands_def)

instantiation poll_command :: enum
begin

definition "enum_poll_command = poll_commands"

definition "enum_all_poll_command P \<longleftrightarrow> list_all P poll_commands"

definition "enum_ex_poll_command P \<longleftrightarrow> list_ex P poll_commands"

instance
  by standard (simp_all add: enum_poll_command_def enum_all_poll_command_def enum_ex_poll_command_def
      poll_commands_UNIV list_all_iff list_ex_iff)

end

lemma inj_command_text: "inj command_text"
proof (rule injI)
  fix x y
  assume "command_text x = command_text y"
  then show "x = y" by (cases x; cases y) simp_all
qed

text \<open>The variables of the function: the named result and the list of errors.\<close>

record poll_vars =
  pv_result :: PollResult
  pv_errs :: "go_error list"

text \<open>What the closure \<open>run\<close> does with a command result.\<close>

definition record_command :: "CommandResult \<Rightarrow> poll_vars \<Rightarrow> poll_vars \<times> bool" where
  "record_command c v =
     (let v1 = v\<lparr>pv_result := (pv_result v)\<lparr>pr_commands := pr_commands (pv_result v) @ [c]\<rparr>\<rparr>
      in case cr_err c of
           Some err \<Rightarrow> (v1\<lparr>pv_errs := pv_errs v1 @ [err]\<rparr>, False)
         | None \<Rightarrow> (v1, True))"

definition keep_parsed :: "('a \<Rightarrow> PollResult \<Rightarrow> PollResult) \<Rightarrow> 'a result \<Rightarrow> poll_vars \<Rightarrow> poll_vars" where
  "keep_parsed assign parsed v =
     (case parsed of
        Inl err \<Rightarrow> v\<lparr>pv_errs := pv_errs v @ [err]\<rparr>
      | Inr x \<Rightarrow> v\<lparr>pv_result := assign x (pv_result v)\<rparr>)"

text \<open>The body of the \<open>if\<close> of each command.\<close>

fun use_output :: "json_error \<Rightarrow> poll_command \<Rightarrow> string \<Rightarrow> poll_vars \<Rightarrow> poll_vars" where
  "use_output je Version out v =
     v\<lparr>pv_result := (pv_result v)\<lparr>pr_nebula_version := ParseVersion out\<rparr>\<rparr>"
| "use_output je Device_Info out v = keep_parsed (\<lambda>d r. r\<lparr>pr_device := d\<rparr>) (ParseDeviceInfo je out) v"
| "use_output je List_Hostmap out v = keep_parsed (\<lambda>h r. r\<lparr>pr_hostmap := h\<rparr>) (ParseHostmap je out) v"
| "use_output je List_Addrmap out v =
     keep_parsed (\<lambda>a r. r\<lparr>pr_addrmap := a\<rparr>) (ParseLighthouseAddrmap je out) v"
| "use_output je List_Pending out v = keep_parsed (\<lambda>h r. r\<lparr>pr_pending := h\<rparr>) (ParseHostmap je out) v"
| "use_output je Print_Relays out v = keep_parsed (\<lambda>s r. r\<lparr>pr_relays := s\<rparr>) (ParseRelays je out) v"

definition command_done :: "json_error \<Rightarrow> poll_command \<Rightarrow> CommandResult \<Rightarrow> poll_vars \<Rightarrow> poll_vars" where
  "command_done je cmd c v =
     (case record_command c v of (v1, ok) \<Rightarrow> if ok then use_output je cmd (cr_output c) v1 else v1)"

definition initial_vars :: "Lighthouse \<Rightarrow> gotime \<Rightarrow> poll_vars" where
  "initial_vars lighthouse now = \<lparr>pv_result = zero_poll_result\<lparr>pr_lighthouse := lighthouse, pr_started := now\<rparr>,
     pv_errs = []\<rparr>"

definition poll_begin :: "'e runtime \<Rightarrow> Lighthouse \<Rightarrow> 'e \<Rightarrow> poll_vars \<times> 'e" where
  "poll_begin rt lighthouse e = (case op_now rt e of (now, e1) \<Rightarrow> (initial_vars lighthouse now, e1))"

definition final_result :: "poll_vars \<Rightarrow> gotime \<Rightarrow> PollResult" where
  "final_result v now =
     (let result = (if length (pv_errs v) > 0 then (pv_result v)\<lparr>pr_err := errors_join (pv_errs v)\<rparr>
                    else pv_result v)
      in result\<lparr>pr_finished := now\<rparr>)"

definition poll_finish :: "'e runtime \<Rightarrow> poll_vars \<Rightarrow> 'e \<Rightarrow> PollResult \<times> 'e" where
  "poll_finish rt v e = (case op_now rt e of (now, e1) \<Rightarrow> (final_result v now, e1))"

fun poll_loop ::
  "'e runtime \<Rightarrow> json_error \<Rightarrow> Lighthouse \<Rightarrow> poll_command list \<Rightarrow> poll_vars \<Rightarrow> 'e \<Rightarrow> poll_vars \<times> 'e" where
  "poll_loop rt je lighthouse [] v e = (v, e)"
| "poll_loop rt je lighthouse (cmd # cmds) v e =
     (case op_run rt lighthouse (command_text cmd) e of
        (c, e1) \<Rightarrow> poll_loop rt je lighthouse cmds (command_done je cmd c v) e1)"

definition pollLighthouse :: "'e runtime \<Rightarrow> json_error \<Rightarrow> Lighthouse \<Rightarrow> 'e \<Rightarrow> PollResult \<times> 'e" where
  "pollLighthouse rt je lighthouse e =
     (case poll_begin rt lighthouse e of (v, e1) \<Rightarrow>
      case poll_loop rt je lighthouse poll_commands v e1 of (v2, e2) \<Rightarrow> poll_finish rt v2 e2)"

section \<open>The goroutines of a round\<close>

text \<open>
  A goroutine waits for its jitter, polls (with the commands still to run), or has ended,
  either because the context was done first or after sending its result.
\<close>

datatype goroutine = Starting | Polling poll_vars "poll_command list" | Skipped | Sent

fun ended :: "goroutine \<Rightarrow> bool" where
  "ended Skipped = True"
| "ended Sent = True"
| "ended g = False"

record 'e round =
  rd_gos :: "(Lighthouse \<times> goroutine) list"
  rd_chan :: "PollResult list"
  rd_env :: 'e

definition start_round :: "Lighthouse list \<Rightarrow> 'e \<Rightarrow> 'e round" where
  "start_round lighthouses e = \<lparr>rd_gos = map (\<lambda>l. (l, Starting)) lighthouses, rd_chan = [], rd_env = e\<rparr>"

fun goroutine_step ::
  "'e runtime \<Rightarrow> json_error \<Rightarrow> i64 \<Rightarrow> bool \<Rightarrow> Lighthouse \<Rightarrow> goroutine \<Rightarrow> 'e \<Rightarrow>
   goroutine \<times> PollResult list \<times> 'e" where
  "goroutine_step rt je jitter cancelled lighthouse Starting e =
     (if sint jitter > 0 \<and> cancelled then (Skipped, [], e)
      else case poll_begin rt lighthouse e of (v, e1) \<Rightarrow> (Polling v poll_commands, [], e1))"
| "goroutine_step rt je jitter cancelled lighthouse (Polling v (cmd # cmds)) e =
     (case op_run rt lighthouse (command_text cmd) e of
        (c, e1) \<Rightarrow> (Polling (command_done je cmd c v) cmds, [], e1))"
| "goroutine_step rt je jitter cancelled lighthouse (Polling v []) e =
     (case poll_finish rt v e of (r, e1) \<Rightarrow> (Sent, [r], e1))"
| "goroutine_step rt je jitter cancelled lighthouse g e = (g, [], e)"

text \<open>A send on the buffered channel waits while the channel is full.\<close>

fun sending :: "goroutine \<Rightarrow> bool" where
  "sending (Polling v []) = True"
| "sending g = False"

definition can_step :: "nat \<Rightarrow> 'e round \<Rightarrow> bool" where
  "can_step i r \<longleftrightarrow> i < length (rd_gos r) \<and> \<not> ended (snd (rd_gos r ! i)) \<and>
     (sending (snd (rd_gos r ! i)) \<longrightarrow> length (rd_chan r) < length (rd_gos r))"

definition step_at :: "'e runtime \<Rightarrow> json_error \<Rightarrow> i64 \<Rightarrow> nat \<times> bool \<Rightarrow> 'e round \<Rightarrow> 'e round" where
  "step_at rt je jitter turn r =
     (case (turn, rd_gos r ! fst turn) of ((i, cancelled), (lighthouse, g)) \<Rightarrow>
      (case goroutine_step rt je jitter cancelled lighthouse g (rd_env r) of (g1, out, e1) \<Rightarrow>
        \<lparr>rd_gos = (rd_gos r)[i := (lighthouse, g1)], rd_chan = rd_chan r @ out, rd_env = e1\<rparr>))"

inductive round_step :: "'e runtime \<Rightarrow> json_error \<Rightarrow> i64 \<Rightarrow> 'e round \<Rightarrow> 'e round \<Rightarrow> bool"
  for rt je jitter where
  turn: "can_step i r \<Longrightarrow> round_step rt je jitter r (step_at rt je jitter (i, cancelled) r)"

inductive_cases round_stepE: "round_step rt je jitter r r'"

text \<open>\<open>wg.Wait()\<close> returns when every goroutine has ended.\<close>

definition all_ended :: "'e round \<Rightarrow> bool" where
  "all_ended r \<longleftrightarrow> (\<forall>lg \<in> set (rd_gos r). ended (snd lg))"

type_synonym schedule = "(nat \<times> bool) list"

definition run_schedule :: "'e runtime \<Rightarrow> json_error \<Rightarrow> i64 \<Rightarrow> schedule \<Rightarrow> 'e round \<Rightarrow> 'e round" where
  "run_schedule rt je jitter sched =
     fold (\<lambda>turn r. if can_step (fst turn) r then step_at rt je jitter turn r else r) sched"

section \<open>Saving the results\<close>

fun save_results ::
  "'s collector_store \<Rightarrow> PollResult list \<Rightarrow> go_error list \<Rightarrow> nat \<Rightarrow> 's \<times> metrics \<Rightarrow>
   go_error list \<times> nat \<times> 's \<times> metrics" where
  "save_results st [] errs saved (s, m) = (errs, saved, s, m)"
| "save_results st (result # results) errs saved (s, m) =
     (let m1 = ObservePoll result m in
      case op_SavePollResult st result s of
        (Inl err, s1) \<Rightarrow>
          save_results st results
            (errs @ [Wrap (''save '' @ lh_name (pr_lighthouse result) @ '' poll'') err]) saved (s1, m1)
      | (Inr _, s1) \<Rightarrow> save_results st results errs (saved + 1) (s1, m1))"

definition refresh_views :: "'s collector_store \<Rightarrow> CLI \<Rightarrow> nat \<Rightarrow> go_error list \<Rightarrow> 's \<Rightarrow> go_error list \<times> 's" where
  "refresh_views st cli saved errs s =
     (if saved > 0 \<and> cli_refresh_views cli then
        (case op_RefreshGrafanaViews st s of
           (Inl err, s1) \<Rightarrow> (errs @ [Wrap ''refresh grafana views'' err], s1)
         | (Inr _, s1) \<Rightarrow> (errs, s1))
      else (errs, s))"

definition save_round ::
  "'s collector_store \<Rightarrow> CLI \<Rightarrow> PollResult list \<Rightarrow> 's \<times> metrics \<Rightarrow> go_error option \<times> 's \<times> metrics" where
  "save_round st cli results sm =
     (case save_results st results [] 0 sm of (errs, saved, s1, m1) \<Rightarrow>
      case refresh_views st cli saved errs s1 of (errs2, s2) \<Rightarrow>
        ((if length errs2 > 0 then errors_join errs2 else None), s2, m1))"

record ('e, 's) collector_state =
  kl_env :: 'e
  kl_store :: 's
  kl_metrics :: metrics

text \<open>
  \<open>runRound\<close>; the result is None while the schedule leaves a goroutine running.
\<close>

definition runRound ::
  "'e runtime \<Rightarrow> json_error \<Rightarrow> 's collector_store \<Rightarrow> Config \<Rightarrow> schedule \<Rightarrow> ('e, 's) collector_state \<Rightarrow>
   (go_error option \<times> ('e, 's) collector_state) option" where
  "runRound rt je st cfg sched k =
     (let r = run_schedule rt je (cli_poll_jitter (cfg_cli cfg)) sched
                (start_round (cfg_targets cfg) (kl_env k))
      in if all_ended r then
           (case save_round st (cfg_cli cfg) (rd_chan r) (kl_store k, kl_metrics k) of
              (err, s, m) \<Rightarrow> Some (err, \<lparr>kl_env = rd_env r, kl_store = s, kl_metrics = m\<rparr>))
         else None)"

section \<open>The loop of rounds\<close>

text \<open>
  What \<open>select\<close> receives: the done context with its error, or a tick, with the schedule of the
  round it starts. \<open>time.NewTicker\<close> panics unless the interval is positive.
\<close>

datatype round_wake = RoundDone go_error | RoundTick schedule

datatype 'a collector_end = Returned "go_error option" 'a | NewTicker_panic 'a | Selecting 'a

fun rounds_loop ::
  "'e runtime \<Rightarrow> json_error \<Rightarrow> 's collector_store \<Rightarrow> Config \<Rightarrow> round_wake list \<Rightarrow> ('e, 's) collector_state \<Rightarrow>
   ('e, 's) collector_state collector_end option" where
  "rounds_loop rt je st cfg [] k = Some (Selecting k)"
| "rounds_loop rt je st cfg (RoundDone err # wakes) k = Some (Returned (Some err) k)"
| "rounds_loop rt je st cfg (RoundTick sched # wakes) k =
     (case runRound rt je st cfg sched k of
        None \<Rightarrow> None
      | Some (_, k1) \<Rightarrow> rounds_loop rt je st cfg wakes k1)"

definition Run_collector ::
  "'e runtime \<Rightarrow> json_error \<Rightarrow> 's collector_store \<Rightarrow> Config \<Rightarrow> schedule \<Rightarrow> round_wake list \<Rightarrow>
   ('e, 's) collector_state \<Rightarrow> ('e, 's) collector_state collector_end option" where
  "Run_collector rt je st cfg sched wakes k =
     (case runRound rt je st cfg sched k of
        None \<Rightarrow> None
      | Some (err, k1) \<Rightarrow>
          if cli_once (cfg_cli cfg) then Some (Returned err k1)
          else if sint (cli_poll_interval (cfg_cli cfg)) \<le> 0 then Some (NewTicker_panic k1)
          else rounds_loop rt je st cfg wakes k1)"

end
