(* ===== verification/Collector_Laws.thy ===== *)
theory Collector_Laws
  imports Collector Views
begin

text \<open>
  What the collector guarantees. A poll is its six observations read by the declarative
  \<open>poll_summary\<close>; the goroutines reach, under every schedule, the end of the round with one
  result per lighthouse that was polled; saving treats the results one by one. The locales
  \<open>result_store\<close> and \<open>poll_clock\<close> are the contracts of the store and of the runner.
\<close>

section \<open>A poll as a function of what it observed\<close>

text \<open>The observations: the start, the six command results and the end.\<close>

fun run_all :: "'e runtime \<Rightarrow> Lighthouse \<Rightarrow> poll_command list \<Rightarrow> 'e \<Rightarrow> CommandResult list \<times> 'e" where
  "run_all rt lighthouse [] e = ([], e)"
| "run_all rt lighthouse (cmd # cmds) e =
     (case op_run rt lighthouse (command_text cmd) e of (c, e1) \<Rightarrow>
      case run_all rt lighthouse cmds e1 of (cs, e2) \<Rightarrow> (c # cs, e2))"

definition observe :: "'e runtime \<Rightarrow> Lighthouse \<Rightarrow> 'e \<Rightarrow> gotime \<times> CommandResult list \<times> gotime \<times> 'e" where
  "observe rt lighthouse e =
     (case op_now rt e of (t0, e1) \<Rightarrow>
      case run_all rt lighthouse poll_commands e1 of (cs, e2) \<Rightarrow>
      case op_now rt e2 of (t1, e3) \<Rightarrow> (t0, cs, t1, e3))"

text \<open>What a command contributes: a value when it and its parser succeed, else one error.\<close>

definition parsed_or :: "'a \<Rightarrow> (string \<Rightarrow> 'a result) \<Rightarrow> CommandResult \<Rightarrow> 'a" where
  "parsed_or z parse c = (if cr_err c = None then (case parse (cr_output c) of Inr x \<Rightarrow> x | Inl _ \<Rightarrow> z) else z)"

fun parse_error :: "json_error \<Rightarrow> poll_command \<Rightarrow> string \<Rightarrow> go_error option" where
  "parse_error je Version out = None"
| "parse_error je Device_Info out = (case ParseDeviceInfo je out of Inl err \<Rightarrow> Some err | Inr _ \<Rightarrow> None)"
| "parse_error je List_Hostmap out = (case ParseHostmap je out of Inl err \<Rightarrow> Some err | Inr _ \<Rightarrow> None)"
| "parse_error je List_Addrmap out = (case ParseLighthouseAddrmap je out of Inl err \<Rightarrow> Some err | Inr _ \<Rightarrow> None)"
| "parse_error je List_Pending out = (case ParseHostmap je out of Inl err \<Rightarrow> Some err | Inr _ \<Rightarrow> None)"
| "parse_error je Print_Relays out = (case ParseRelays je out of Inl err \<Rightarrow> Some err | Inr _ \<Rightarrow> None)"

definition command_error :: "json_error \<Rightarrow> poll_command \<times> CommandResult \<Rightarrow> go_error option" where
  "command_error je x = (case cr_err (snd x) of Some err \<Rightarrow> Some err | None \<Rightarrow> parse_error je (fst x) (cr_output (snd x)))"

definition poll_errors :: "json_error \<Rightarrow> CommandResult list \<Rightarrow> go_error list" where
  "poll_errors je cs = concat (map (\<lambda>x. case command_error je x of None \<Rightarrow> [] | Some e \<Rightarrow> [e]) (zip poll_commands cs))"

definition poll_summary :: "json_error \<Rightarrow> Lighthouse \<Rightarrow> gotime \<Rightarrow> CommandResult list \<Rightarrow> gotime \<Rightarrow> PollResult" where
  "poll_summary je lighthouse t0 cs t1 = \<lparr>pr_lighthouse = lighthouse, pr_started = t0, pr_finished = t1,
     pr_commands = cs,
     pr_nebula_version = parsed_or [] (Inr \<circ> ParseVersion) (cs ! 0),
     pr_device = parsed_or zero_device (ParseDeviceInfo je) (cs ! 1),
     pr_hostmap = parsed_or None (ParseHostmap je) (cs ! 2),
     pr_pending = parsed_or None (ParseHostmap je) (cs ! 4),
     pr_addrmap = parsed_or None (ParseLighthouseAddrmap je) (cs ! 3),
     pr_relays = parsed_or None (ParseRelays je) (cs ! 5),
     pr_err = errors_join (poll_errors je cs)\<rparr>"

lemma run_all_length: "run_all rt lh cmds e = (cs, e') \<Longrightarrow> length cs = length cmds"
  by (induction cmds arbitrary: cs e) (auto split: prod.splits)

definition replay :: "json_error \<Rightarrow> (poll_command \<times> CommandResult) list \<Rightarrow> poll_vars \<Rightarrow> poll_vars" where
  "replay je = fold (\<lambda>(cmd, c). command_done je cmd c)"

lemma poll_loop_replay:
  "poll_loop rt je lh cmds v e = (case run_all rt lh cmds e of (cs, e') \<Rightarrow> (replay je (zip cmds cs) v, e'))"
  by (induction cmds arbitrary: v e) (auto simp: replay_def split: prod.splits)

text \<open>The result after each command.\<close>

definition ran :: "CommandResult \<Rightarrow> PollResult \<Rightarrow> PollResult" where
  "ran c r = r\<lparr>pr_commands := pr_commands r @ [c]\<rparr>"

lemma ran_sel [simp]:
  "pr_lighthouse (ran c r) = pr_lighthouse r" "pr_started (ran c r) = pr_started r"
  "pr_finished (ran c r) = pr_finished r" "pr_commands (ran c r) = pr_commands r @ [c]"
  "pr_nebula_version (ran c r) = pr_nebula_version r" "pr_device (ran c r) = pr_device r"
  "pr_hostmap (ran c r) = pr_hostmap r" "pr_pending (ran c r) = pr_pending r"
  "pr_addrmap (ran c r) = pr_addrmap r" "pr_relays (ran c r) = pr_relays r" "pr_err (ran c r) = pr_err r"
  by (simp_all add: ran_def)

lemma keep_parsed_result:
  "pv_result (keep_parsed assign p v) = (case p of Inl _ \<Rightarrow> pv_result v | Inr x \<Rightarrow> assign x (pv_result v))"
  by (simp add: keep_parsed_def split: sum.splits)

lemma command_done_result:
  "pv_result (command_done je cmd c v) =
     (if cr_err c = None then pv_result (use_output je cmd (cr_output c) (v\<lparr>pv_result := ran c (pv_result v)\<rparr>))
      else ran c (pv_result v))"
  by (simp add: command_done_def record_command_def ran_def Let_def split: option.splits)

lemma command_done_results:
  fixes v c
  defines "r \<equiv> ran c (pv_result v)"
  shows "pv_result (command_done je Version c v) =
      r\<lparr>pr_nebula_version := parsed_or (pr_nebula_version r) (Inr \<circ> ParseVersion) c\<rparr>"
    and "pv_result (command_done je Device_Info c v) =
      r\<lparr>pr_device := parsed_or (pr_device r) (ParseDeviceInfo je) c\<rparr>"
    and "pv_result (command_done je List_Hostmap c v) =
      r\<lparr>pr_hostmap := parsed_or (pr_hostmap r) (ParseHostmap je) c\<rparr>"
    and "pv_result (command_done je List_Addrmap c v) =
      r\<lparr>pr_addrmap := parsed_or (pr_addrmap r) (ParseLighthouseAddrmap je) c\<rparr>"
    and "pv_result (command_done je List_Pending c v) =
      r\<lparr>pr_pending := parsed_or (pr_pending r) (ParseHostmap je) c\<rparr>"
    and "pv_result (command_done je Print_Relays c v) =
      r\<lparr>pr_relays := parsed_or (pr_relays r) (ParseRelays je) c\<rparr>"
  by (simp_all add: command_done_result r_def parsed_or_def keep_parsed_result split: sum.splits)

text \<open>The poll so far, as a function of the commands that have returned.\<close>

lemma replay_fields:
  "pv_errs (replay je xs v) = pv_errs v @
     concat (map (\<lambda>x. case command_error je x of None \<Rightarrow> [] | Some e \<Rightarrow> [e]) xs)"
proof (induction xs arbitrary: v)
  case Nil
  then show ?case by (simp add: replay_def)
next
  case (Cons x xs)
  have "pv_errs (command_done je (fst x) (snd x) v) = pv_errs v @ (case command_error je x of None \<Rightarrow> [] | Some e \<Rightarrow> [e])"
    by (cases "fst x") (auto simp: command_done_def record_command_def command_error_def keep_parsed_def
        Let_def split: option.splits sum.splits)
  with Cons show ?case by (simp add: replay_def split_beta)
qed

lemma six: "length cs = length poll_commands \<longleftrightarrow> (\<exists>a b c d e f. cs = [a, b, c, d, e, f])"
  by (auto simp: poll_commands_def length_Suc_conv)

lemma replay_summary:
  assumes "length cs = length poll_commands"
  shows "final_result (replay je (zip poll_commands cs) (initial_vars lh t0)) t1 = poll_summary je lh t0 cs t1"
proof -
  let ?v = "replay je (zip poll_commands cs) (initial_vars lh t0)"
  have errs: "pv_errs ?v = poll_errors je cs"
    by (simp add: replay_fields poll_errors_def initial_vars_def)
  have res: "pv_result ?v = (poll_summary je lh t0 cs t1)\<lparr>pr_finished := zero_time, pr_err := None\<rparr>"
  proof -
    from assms obtain a b c d e f where cs: "cs = [a, b, c, d, e, f]" unfolding six by blast
    show ?thesis
      unfolding cs by (rule PollResult.equality)
        (simp_all add: replay_def poll_commands_def command_done_results initial_vars_def poll_summary_def zero_defs)
  qed
  show ?thesis
    by (rule PollResult.equality) (simp_all add: final_result_def errs res Let_def poll_summary_def errors_join_def)
qed

lemma pollLighthouse_observe:
  "pollLighthouse rt je lh e =
     (case observe rt lh e of (t0, cs, t1, e') \<Rightarrow> (poll_summary je lh t0 cs t1, e'))"
proof -
  obtain t0 e1 where 0: "op_now rt e = (t0, e1)" by fastforce
  obtain cs e2 where c: "run_all rt lh poll_commands e1 = (cs, e2)" by fastforce
  obtain t1 e3 where 1: "op_now rt e2 = (t1, e3)" by fastforce
  from replay_summary [OF run_all_length [OF c]] show ?thesis
    by (simp add: pollLighthouse_def poll_begin_def poll_finish_def observe_def poll_loop_replay 0 c 1)
qed

section \<open>Goroutines under every schedule\<close>

fun go_ok :: "json_error \<Rightarrow> Lighthouse \<Rightarrow> goroutine \<Rightarrow> bool" where
  "go_ok je lh (Polling v cmds) \<longleftrightarrow> (\<exists>t0 before cs. poll_commands = before @ cmds \<and>
     length cs = length before \<and> v = replay je (zip before cs) (initial_vars lh t0))"
| "go_ok je lh g \<longleftrightarrow> True"

definition summarised :: "json_error \<Rightarrow> PollResult \<Rightarrow> bool" where
  "summarised je r \<longleftrightarrow> (\<exists>t0 cs t1. length cs = length poll_commands \<and>
     r = poll_summary je (pr_lighthouse r) t0 cs t1)"

lemma goroutine_step_ok:
  assumes "goroutine_step rt je jitter cancelled lh g e = (g', out, e')" and "go_ok je lh g"
    and "\<not> ended g"
  shows "go_ok je lh g' \<and> (g' = Sent \<longleftrightarrow> out \<noteq> []) \<and> (g' \<noteq> Sent \<longrightarrow> out = []) \<and> length out \<le> 1 \<and>
    (\<forall>r \<in> set out. pr_lighthouse r = lh \<and> summarised je r)"
proof (cases g)
  case Starting
  with assms show ?thesis
    by (auto simp: poll_begin_def replay_def split: if_splits prod.splits intro!: exI [of _ "[]"])
next
  case (Polling v cmds)
  with assms(2) obtain t0 before cs where *: "poll_commands = before @ cmds" "length cs = length before"
    "v = replay je (zip before cs) (initial_vars lh t0)" by auto
  show ?thesis
  proof (cases cmds)
    case Nil
    obtain t1 e1 where now: "op_now rt e = (t1, e1)" by fastforce
    have "final_result v t1 = poll_summary je lh t0 cs t1"
      using * Nil replay_summary [of cs je lh t0 t1] by simp
    then have out: "out = [poll_summary je lh t0 cs t1]" "g' = Sent"
      using assms(1) Polling Nil now by (auto simp: poll_finish_def)
    have "pr_lighthouse (poll_summary je lh t0 cs t1) = lh" by (simp add: poll_summary_def)
    moreover have "length cs = length poll_commands" using * Nil by simp
    ultimately show ?thesis unfolding out summarised_def by auto
  next
    case (Cons cmd rest)
    obtain c e1 where run: "op_run rt lh (command_text cmd) e = (c, e1)" by fastforce
    have "g' = Polling (command_done je cmd c v) rest" "out = []"
      using assms(1) Polling Cons run by auto
    moreover have "command_done je cmd c v = replay je (zip (before @ [cmd]) (cs @ [c])) (initial_vars lh t0)"
      using * by (simp add: replay_def)
    moreover have "poll_commands = (before @ [cmd]) @ rest" "length (cs @ [c]) = length (before @ [cmd])"
      using * Cons by simp_all
    ultimately have "go_ok je lh g'" "out = []" "g' \<noteq> Sent" by (simp_all only: go_ok.simps) blast+
    then show ?thesis by simp
  qed
qed (use assms in auto)

definition sent_by :: "(Lighthouse \<times> goroutine) list \<Rightarrow> Lighthouse list" where
  "sent_by gos = map fst (filter (\<lambda>lg. snd lg = Sent) gos)"

definition round_inv :: "json_error \<Rightarrow> i64 \<Rightarrow> Lighthouse list \<Rightarrow> 'e round \<Rightarrow> bool" where
  "round_inv je jitter lhs r \<longleftrightarrow> map fst (rd_gos r) = lhs \<and>
     (\<forall>lg \<in> set (rd_gos r). go_ok je (fst lg) (snd lg)) \<and>
     (sint jitter \<le> 0 \<longrightarrow> (\<forall>lg \<in> set (rd_gos r). snd lg \<noteq> Skipped)) \<and>
     mset (map pr_lighthouse (rd_chan r)) = mset (sent_by (rd_gos r)) \<and>
     (\<forall>res \<in> set (rd_chan r). summarised je res)"

lemma sent_by_update:
  assumes "i < length gos" and "gos ! i = (lh, g)" and "g \<noteq> Sent"
  shows "mset (sent_by (gos[i := (lh, g')])) =
    mset (sent_by gos) + (if g' = Sent then {#lh#} else {#})"
proof -
  have eq: "gos = take i gos @ (lh, g) # drop (Suc i) gos"
    using assms(1,2) by (metis id_take_nth_drop)
  have "gos[i := (lh, g')] = take i gos @ (lh, g') # drop (Suc i) gos"
    using assms(1) by (rule upd_conv_take_nth_drop)
  moreover have "sent_by (xs @ ys) = sent_by xs @ sent_by ys" for xs ys by (simp add: sent_by_def)
  moreover have "sent_by ((lh, x) # xs) = (if x = Sent then [lh] else []) @ sent_by xs" for x xs
    by (simp add: sent_by_def)
  ultimately show ?thesis using assms(3) by (subst eq) simp
qed

lemma round_inv_start: "round_inv je jitter lhs (start_round lhs e)"
  by (auto simp: round_inv_def start_round_def sent_by_def filter_empty_conv comp_def)

lemma step_at_sel:
  assumes "goroutine_step rt je jitter cancelled lh g (rd_env r) = (g', out, e')" and "rd_gos r ! i = (lh, g)"
  shows "step_at rt je jitter (i, cancelled) r =
    \<lparr>rd_gos = (rd_gos r)[i := (lh, g')], rd_chan = rd_chan r @ out, rd_env = e'\<rparr>"
  using assms by (simp add: step_at_def)

lemma not_skipped: "goroutine_step rt je jitter cancelled lh g e = (g', out, e') \<Longrightarrow>
    sint jitter \<le> 0 \<Longrightarrow> \<not> ended g \<Longrightarrow> g' \<noteq> Skipped"
  by (cases "(rt, je, jitter, cancelled, lh, g, e)" rule: goroutine_step.cases)
     (auto split: prod.splits if_splits)

lemma round_inv_step:
  assumes "round_inv je jitter lhs r" and "round_step rt je jitter r r'"
  shows "round_inv je jitter lhs r'"
  using assms(2)
proof (cases rule: round_step.cases)
  case (turn i cancelled)
  obtain lh g where lg: "rd_gos r ! i = (lh, g)" by fastforce
  obtain g' out e' where st: "goroutine_step rt je jitter cancelled lh g (rd_env r) = (g', out, e')"
    by (metis surj_pair)
  have i: "i < length (rd_gos r)" "\<not> ended g" using turn(2) lg by (simp_all add: can_step_def)
  then have mem: "(lh, g) \<in> set (rd_gos r)" using lg by (metis nth_mem)
  then have "go_ok je lh g" using assms(1) by (fastforce simp: round_inv_def)
  note ok = goroutine_step_ok [OF st this i(2)]
  have r': "r' = \<lparr>rd_gos = (rd_gos r)[i := (lh, g')], rd_chan = rd_chan r @ out, rd_env = e'\<rparr>"
    using turn(1) step_at_sel [OF st lg] by simp
  have "map fst ((rd_gos r)[i := (lh, g')]) = (map fst (rd_gos r))[i := fst (rd_gos r ! i)]"
    by (simp add: map_update lg)
  also have "\<dots> = map fst (rd_gos r)" using i(1) by (metis list_update_id nth_map)
  finally have "map fst ((rd_gos r)[i := (lh, g')]) = map fst (rd_gos r)" .
  then have "map fst ((rd_gos r)[i := (lh, g')]) = lhs" using assms(1) by (simp add: round_inv_def)
  moreover have sub: "lg \<in> set ((rd_gos r)[i := (lh, g')]) \<Longrightarrow> lg = (lh, g') \<or> lg \<in> set (rd_gos r)" for lg
    using set_update_subset_insert by fast
  have g'_ok: "go_ok je lh g'" using ok by blast
  have old: "lg \<in> set (rd_gos r) \<Longrightarrow> go_ok je (fst lg) (snd lg)"
    "sint jitter \<le> 0 \<Longrightarrow> lg \<in> set (rd_gos r) \<Longrightarrow> snd lg \<noteq> Skipped" for lg
    using assms(1) unfolding round_inv_def by blast+
  have "go_ok je (fst lg) (snd lg)" if "lg \<in> set ((rd_gos r)[i := (lh, g')])" for lg
    using sub [OF that] by (elim disjE) (simp only: fst_conv snd_conv g'_ok, rule old(1))
  moreover have "snd lg \<noteq> Skipped" if "lg \<in> set ((rd_gos r)[i := (lh, g')])" "sint jitter \<le> 0" for lg
    using sub [OF that(1)]
    by (elim disjE) (simp only: snd_conv not_skipped [OF st that(2) i(2)] not_False_eq_True, rule old(2) [OF that(2)])
  moreover have "mset (map pr_lighthouse (rd_chan r @ out)) = mset (sent_by ((rd_gos r)[i := (lh, g')]))"
  proof -
    have "mset (map pr_lighthouse out) = (if g' = Sent then {#lh#} else {#})"
      using ok by (cases out) auto
    moreover have "g \<noteq> Sent" using i(2) by auto
    moreover have "mset (map pr_lighthouse (rd_chan r)) = mset (sent_by (rd_gos r))"
      using assms(1) by (simp add: round_inv_def)
    ultimately show ?thesis
      by (simp only: map_append mset_append sent_by_update [OF i(1) lg \<open>g \<noteq> Sent\<close>])
  qed
  moreover have "\<forall>res \<in> set (rd_chan r @ out). summarised je res"
  proof -
    have "\<forall>res \<in> set out. summarised je res" using ok by blast
    moreover have "\<forall>res \<in> set (rd_chan r). summarised je res" using assms(1) by (simp add: round_inv_def)
    ultimately show ?thesis by (simp only: set_append ball_Un)
  qed
  ultimately show ?thesis
    unfolding r' round_inv_def round.simps by blast
qed

lemma round_inv_reachable:
  "(round_step rt je jitter)\<^sup>*\<^sup>* (start_round lhs e) r \<Longrightarrow> round_inv je jitter lhs r"
  by (induction rule: rtranclp_induct) (auto intro: round_inv_start round_inv_step)

section \<open>Every round ends\<close>

fun steps_left :: "goroutine \<Rightarrow> nat" where
  "steps_left Starting = 8"
| "steps_left (Polling v cmds) = Suc (length cmds)"
| "steps_left g = 0"

definition round_left :: "'e round \<Rightarrow> nat" where
  "round_left r = sum_list (map (steps_left \<circ> snd) (rd_gos r))"

lemma steps_left_zero: "steps_left g = 0 \<longleftrightarrow> ended g"
  by (cases g) simp_all

lemma goroutine_step_left:
  "goroutine_step rt je jitter cancelled lh g e = (g', out, e') \<Longrightarrow> \<not> ended g \<Longrightarrow> steps_left g' < steps_left g"
  by (cases "(rt, je, jitter, cancelled, lh, g, e)" rule: goroutine_step.cases)
     (auto simp: poll_commands_def split: prod.splits if_splits)

lemma round_step_left:
  assumes "round_step rt je jitter r r'"
  shows "round_left r' < round_left r"
  using assms
proof (cases rule: round_step.cases)
  case (turn i cancelled)
  obtain lh g where lg: "rd_gos r ! i = (lh, g)" by fastforce
  obtain g' out e' where st: "goroutine_step rt je jitter cancelled lh g (rd_env r) = (g', out, e')"
    by (metis surj_pair)
  have i: "i < length (rd_gos r)" "\<not> ended g" using turn(2) lg by (simp_all add: can_step_def)
  have gos: "rd_gos r' = (rd_gos r)[i := (lh, g')]" using turn(1) step_at_sel [OF st lg] by simp
  let ?f = "map (steps_left \<circ> snd) (rd_gos r)"
  have "round_left r' = sum_list (?f[i := steps_left g'])"
    by (simp add: round_left_def gos map_update)
  also have "\<dots> = round_left r + steps_left g' - steps_left g"
    using sum_list_update [of i ?f "steps_left g'"] i(1) lg by (simp add: round_left_def)
  also have "\<dots> < round_left r"
  proof -
    have "steps_left g \<in> set ?f" using i(1) lg by (force simp: in_set_conv_nth)
    then have "steps_left g \<le> round_left r" unfolding round_left_def by (simp add: member_le_sum_list)
    with goroutine_step_left [OF st i(2)] show ?thesis by simp
  qed
  finally show ?thesis .
qed

lemma round_steps_left: "((round_step rt je jitter) ^^ n) r r' \<Longrightarrow> n + round_left r' \<le> round_left r"
proof (induction n arbitrary: r')
  case (Suc n)
  then obtain u where "((round_step rt je jitter) ^^ n) r u" "round_step rt je jitter u r'" by auto
  with Suc.IH [of u] round_step_left [of rt je jitter u r'] show ?case by linarith
qed simp

lemma round_left_start: "round_left (start_round lhs e) = 8 * length lhs"
  by (induction lhs) (simp_all add: round_left_def start_round_def)

text \<open>The channel is never full while a goroutine is about to send, so no goroutine is stuck.\<close>

lemma some_can_step:
  assumes "round_inv je jitter lhs r" and "\<not> all_ended r"
  shows "\<exists>i. can_step i r"
proof -
  from assms(2) obtain lg where "lg \<in> set (rd_gos r)" "\<not> ended (snd lg)"
    unfolding all_ended_def by blast
  then obtain i where i: "i < length (rd_gos r)" "\<not> ended (snd (rd_gos r ! i))"
    by (metis in_set_conv_nth)
  have "mset (map pr_lighthouse (rd_chan r)) = mset (sent_by (rd_gos r))"
    using assms(1) by (simp add: round_inv_def)
  then have "length (rd_chan r) = length (sent_by (rd_gos r))" by (metis length_map mset_eq_length)
  also have "\<dots> < length (rd_gos r)"
    unfolding sent_by_def length_map
    by (rule length_filter_less [OF nth_mem [OF i(1)]]) (use i(2) in \<open>auto dest: arg_cong [of _ _ ended]\<close>)
  finally show ?thesis using i by (auto simp: can_step_def)
qed

lemma run_schedule_reaches: "(round_step rt je jitter)\<^sup>*\<^sup>* r (run_schedule rt je jitter sched r)"
proof (induction sched arbitrary: r)
  case Nil
  then show ?case by (simp add: run_schedule_def)
next
  case (Cons x sched)
  obtain i cancelled where x: "x = (i, cancelled)" by fastforce
  show ?case
  proof (cases "can_step i r")
    case True
    with Cons.IH [of "step_at rt je jitter x r"] round_step.turn [OF True, of rt je jitter cancelled] x
    show ?thesis by (simp add: run_schedule_def converse_rtranclp_into_rtranclp)
  next
    case False
    with Cons.IH [of r] x show ?thesis by (simp add: run_schedule_def)
  qed
qed

lemma ending_schedule:
  "round_inv je jitter lhs r \<Longrightarrow> \<exists>sched. all_ended (run_schedule rt je jitter sched r)"
proof (induction "round_left r" arbitrary: r rule: less_induct)
  case less
  show ?case
  proof (cases "all_ended r")
    case True
    then have "all_ended (run_schedule rt je jitter [] r)" by (simp add: run_schedule_def)
    then show ?thesis by blast
  next
    case False
    with some_can_step [OF less.prems] obtain i where i: "can_step i r" by blast
    let ?r = "step_at rt je jitter (i, False) r"
    have st: "round_step rt je jitter r ?r" by (rule round_step.turn [OF i])
    from less.hyps [OF round_step_left [OF st] round_inv_step [OF less.prems st]]
    obtain sched where "all_ended (run_schedule rt je jitter sched ?r)" by blast
    with i have "all_ended (run_schedule rt je jitter ((i, False) # sched) r)"
      by (simp add: run_schedule_def)
    then show ?thesis by blast
  qed
qed

text \<open>A round that has ended has one result per lighthouse, less those skipped by a done context.\<close>

lemma runRound_results:
  assumes "runRound rt je st cfg sched k = Some (err, k')"
  obtains rs where "save_round st (cfg_cli cfg) rs (kl_store k, kl_metrics k) = (err, kl_store k', kl_metrics k')"
    and "mset (map pr_lighthouse rs) \<subseteq># mset (cfg_targets cfg)"
    and "sint (cli_poll_jitter (cfg_cli cfg)) \<le> 0 \<longrightarrow> mset (map pr_lighthouse rs) = mset (cfg_targets cfg)"
    and "\<forall>r \<in> set rs. summarised je r"
    and "rs = rd_chan (run_schedule rt je (cli_poll_jitter (cfg_cli cfg)) sched
           (start_round (cfg_targets cfg) (kl_env k)))"
proof -
  let ?j = "cli_poll_jitter (cfg_cli cfg)"
  let ?r = "run_schedule rt je ?j sched (start_round (cfg_targets cfg) (kl_env k))"
  have inv: "round_inv je ?j (cfg_targets cfg) ?r" by (rule round_inv_reachable [OF run_schedule_reaches])
  have ended: "all_ended ?r" using assms by (simp add: runRound_def Let_def split: if_splits)
  have save: "save_round st (cfg_cli cfg) (rd_chan ?r) (kl_store k, kl_metrics k) = (err, kl_store k', kl_metrics k')"
    using assms by (auto simp: runRound_def Let_def split: if_splits prod.splits)
  have sent: "mset (map pr_lighthouse (rd_chan ?r)) = mset (sent_by (rd_gos ?r))"
    and gos: "map fst (rd_gos ?r) = cfg_targets cfg"
    using inv by (simp_all add: round_inv_def)
  have "mset (sent_by (rd_gos ?r)) \<subseteq># mset (map fst (rd_gos ?r))"
    by (simp add: sent_by_def image_mset_subseteq_mono)
  with sent gos have sub: "mset (map pr_lighthouse (rd_chan ?r)) \<subseteq># mset (cfg_targets cfg)" by simp
  have all: "mset (map pr_lighthouse (rd_chan ?r)) = mset (cfg_targets cfg)" if "sint ?j \<le> 0"
  proof -
    have "snd lg = Sent" if "lg \<in> set (rd_gos ?r)" for lg
      using inv ended that \<open>sint ?j \<le> 0\<close> by (cases "snd lg") (auto simp: round_inv_def all_ended_def)
    then have "sent_by (rd_gos ?r) = map fst (rd_gos ?r)" by (simp add: sent_by_def)
    with sent gos show ?thesis by simp
  qed
  have "\<forall>r \<in> set (rd_chan ?r). summarised je r" using inv by (simp add: round_inv_def)
  from that [OF save sub _ this refl] all show thesis by blast
qed

section \<open>Saving\<close>

fun save_failures :: "'s collector_store \<Rightarrow> PollResult list \<Rightarrow> 's \<Rightarrow> go_error list" where
  "save_failures st [] s = []"
| "save_failures st (r # rs) s =
     (case op_SavePollResult st r s of
        (Inl err, s1) \<Rightarrow> Wrap (''save '' @ lh_name (pr_lighthouse r) @ '' poll'') err # save_failures st rs s1
      | (Inr _, s1) \<Rightarrow> save_failures st rs s1)"

definition save_all :: "'s collector_store \<Rightarrow> PollResult list \<Rightarrow> 's \<Rightarrow> 's" where
  "save_all st = fold (\<lambda>r s. snd (op_SavePollResult st r s))"

lemma save_failures_le: "length (save_failures st rs s) \<le> length rs"
  by (induction rs arbitrary: s) (auto split: prod.splits sum.splits intro: le_SucI)

lemma save_results_eq:
  "save_results st rs errs n (s, m) =
     (errs @ save_failures st rs s, n + (length rs - length (save_failures st rs s)), save_all st rs s,
      fold ObservePoll rs m)"
proof (induction rs arbitrary: errs n s m)
  case Nil
  then show ?case by (simp add: save_all_def)
next
  case (Cons r rs)
  then show ?case
    using save_failures_le [of st rs "snd (op_SavePollResult st r s)"]
    by (auto simp: save_all_def Let_def Suc_diff_le split: prod.splits sum.splits)
qed

lemma save_round_eq:
  "save_round st cli rs (s, m) =
     (let errs = save_failures st rs s; s1 = save_all st rs s in
      if length errs < length rs \<and> cli_refresh_views cli then
        (case op_RefreshGrafanaViews st s1 of
           (Inl err, s2) \<Rightarrow> (Some (Join (errs @ [Wrap ''refresh grafana views'' err])), s2, fold ObservePoll rs m)
         | (Inr _, s2) \<Rightarrow> (errors_join errs, s2, fold ObservePoll rs m))
      else (errors_join errs, s1, fold ObservePoll rs m))"
proof -
  have saved: "0 < 0 + (length rs - length (save_failures st rs s)) \<longleftrightarrow> length (save_failures st rs s) < length rs"
    by simp
  have none: "(if length es > 0 then errors_join es else None) = errors_join es" for es
    by (simp add: errors_join_def)
  obtain res s2 where "op_RefreshGrafanaViews st (save_all st rs s) = (res, s2)" by fastforce
  then show ?thesis
    unfolding save_round_def save_results_eq refresh_views_def prod.case saved Let_def append_Nil
    using save_failures_le [of st rs s] none
    by (cases res; cases "length (save_failures st rs s) < length rs"; cases rs)
       (simp_all add: errors_join_def)
qed

text \<open>The contract of the store: which results it takes, and what its two calls keep.\<close>

locale result_store =
  fixes st :: "'s collector_store"
    and inv :: "'s \<Rightarrow> bool"
    and admissible :: "PollResult \<Rightarrow> bool"
  assumes save_keeps: "inv s \<Longrightarrow> admissible r \<Longrightarrow> inv (snd (op_SavePollResult st r s))"
    and refresh_keeps: "inv s \<Longrightarrow> inv (snd (op_RefreshGrafanaViews st s))"
begin

lemma save_all_keeps: "inv s \<Longrightarrow> \<forall>r \<in> set rs. admissible r \<Longrightarrow> inv (save_all st rs s)"
  by (induction rs arbitrary: s) (simp_all add: save_all_def save_keeps)

lemma save_round_keeps:
  assumes "inv s" and "\<forall>r \<in> set rs. admissible r" and "save_round st cli rs (s, m) = (err, s', m')"
  shows "inv s'"
  using assms(3) save_all_keeps [OF assms(1,2)] refresh_keeps [of "save_all st rs s"]
  by (auto simp: save_round_eq Let_def split: if_splits prod.splits sum.splits)

end

text \<open>
  A store that does not fail: every admissible result is saved, with the effect \<open>add\<close> on
  what the store shows.
\<close>

locale reliable_store = result_store st inv admissible
  for st :: "'s collector_store" and inv :: "'s \<Rightarrow> bool" and admissible :: "PollResult \<Rightarrow> bool" +
  fixes look :: "'s \<Rightarrow> 'v"
    and add :: "PollResult \<Rightarrow> 'v \<Rightarrow> 'v"
    and refresh :: "'v \<Rightarrow> 'v"
  assumes save_ok: "inv s \<Longrightarrow> admissible r \<Longrightarrow>
      \<exists>s'. op_SavePollResult st r s = (Inr (), s') \<and> look s' = add r (look s)"
    and refresh_ok: "inv s \<Longrightarrow> \<exists>s'. op_RefreshGrafanaViews st s = (Inr (), s') \<and> look s' = refresh (look s)"
begin

lemma save_all_ok:
  "inv s \<Longrightarrow> \<forall>r \<in> set rs. admissible r \<Longrightarrow> save_failures st rs s = [] \<and> look (save_all st rs s) = fold add rs (look s)"
proof (induction rs arbitrary: s)
  case Nil
  then show ?case by (simp add: save_all_def)
next
  case (Cons r rs)
  then obtain s' where s': "op_SavePollResult st r s = (Inr (), s')" "look s' = add r (look s)"
    using save_ok [of s r] by auto
  moreover have "inv s'" using save_keeps [of s r] Cons.prems s' by simp
  ultimately show ?case using Cons.IH [of s'] Cons.prems(2) by (simp add: save_all_def)
qed

lemma save_round_ok:
  assumes "inv s" and "\<forall>r \<in> set rs. admissible r"
  shows "\<exists>s'. save_round st cli rs (s, m) = (None, s', fold ObservePoll rs m) \<and>
    look s' = (if rs \<noteq> [] \<and> cli_refresh_views cli then refresh else id) (fold add rs (look s))"
proof -
  have "inv (save_all st rs s)" by (rule save_all_keeps [OF assms])
  then obtain s2 where s2: "op_RefreshGrafanaViews st (save_all st rs s) = (Inr (), s2)"
      "look s2 = refresh (look (save_all st rs s))"
    using refresh_ok by blast
  moreover have "rs = [] \<Longrightarrow> save_all st rs s = s" by (simp add: save_all_def)
  ultimately show ?thesis using save_all_ok [OF assms] by (auto simp: save_round_eq Let_def errors_join_def)
qed

end

section \<open>Times\<close>

text \<open>
  The contract of the runner: while the clock is \<open>valid\<close> its readings do not go back, and a
  command result is stamped when the command starts.
\<close>

fun go_timed :: "int \<Rightarrow> goroutine \<Rightarrow> bool" where
  "go_timed now (Polling v cmds) \<longleftrightarrow> 0 < wall (pr_started (pv_result v)) \<and>
     wall (pr_started (pv_result v)) \<le> now \<and>
     (\<forall>c \<in> set (pr_commands (pv_result v)). wall (pr_started (pv_result v)) \<le> wall (cr_started c))"
| "go_timed now g \<longleftrightarrow> True"

lemma go_timed_mono: "go_timed t g \<Longrightarrow> t \<le> u \<Longrightarrow> go_timed u g"
  by (cases g) auto

lemma command_done_frame [simp]:
  "pr_started (pv_result (command_done je cmd c v)) = pr_started (pv_result v)"
  "pr_commands (pv_result (command_done je cmd c v)) = pr_commands (pv_result v) @ [c]"
  by (cases cmd; simp add: command_done_results)+

locale poll_clock =
  fixes rt :: "'e runtime"
    and clock :: "'e \<Rightarrow> int"
    and valid :: "'e \<Rightarrow> bool"
  assumes clock_pos: "valid e \<Longrightarrow> 0 < clock e"
    and now_clock: "valid e \<Longrightarrow> op_now rt e = (t, e') \<Longrightarrow> valid e' \<and> clock e \<le> wall t \<and> wall t \<le> clock e'"
    and run_clock: "valid e \<Longrightarrow> op_run rt lh cmd e = (c, e') \<Longrightarrow>
      valid e' \<and> clock e \<le> wall (cr_started c) \<and> wall (cr_started c) \<le> clock e'"
begin

lemma goroutine_step_timed:
  assumes "goroutine_step rt je jitter cancelled lh g e = (g', out, e')"
    and "valid e" and "go_timed (clock e) g"
  shows "valid e' \<and> clock e \<le> clock e' \<and> go_timed (clock e') g' \<and> (\<forall>r \<in> set out. timed r)"
proof (cases "(rt, je, jitter, cancelled, lh, g, e)" rule: goroutine_step.cases)
  case (1 rt' je' jitter' cancelled' lh' e0)
  obtain t e1 where t: "op_now rt e = (t, e1)" by fastforce
  with 1 assms(1) consider "g' = Skipped" "out = []" "e' = e"
    | "g' = Polling (initial_vars lh t) poll_commands" "out = []" "e' = e1"
    by (auto simp: poll_begin_def split: if_splits)
  then show ?thesis
    using now_clock [OF assms(2) t] clock_pos [OF assms(2)] assms(2)
    by cases (simp_all add: initial_vars_def zero_defs)
next
  case (2 rt' je' jitter' cancelled' lh' v cmd cmds e0)
  obtain c e1 where c: "op_run rt lh (command_text cmd) e = (c, e1)" by fastforce
  with 2 assms(1) have "g' = Polling (command_done je cmd c v) cmds" "out = []" "e' = e1" by auto
  then show ?thesis
    using run_clock [OF assms(2) c] assms(3) 2 by auto
next
  case (3 rt' je' jitter' cancelled' lh' v e0)
  obtain t e1 where t: "op_now rt e = (t, e1)" by fastforce
  with 3 assms(1) have o: "g' = Sent" "out = [final_result v t]" "e' = e1"
    by (auto simp: poll_finish_def)
  have v: "go_timed (clock e) (Polling v [])" using assms(3) 3 by simp
  have t_pos: "0 < wall t" using now_clock [OF assms(2) t] clock_pos [OF assms(2)] by linarith
  have "pr_started (final_result v t) = pr_started (pv_result v)"
    "pr_commands (final_result v t) = pr_commands (pv_result v)" "pr_finished (final_result v t) = t"
    by (simp_all add: final_result_def Let_def)
  with v t_pos have "timed (final_result v t)" by (fastforce simp: timed_def time_is_zero_def)
  with o now_clock [OF assms(2) t] show ?thesis by auto
qed (use assms in auto)

definition round_timed :: "'e round \<Rightarrow> bool" where
  "round_timed r \<longleftrightarrow> valid (rd_env r) \<and> (\<forall>lg \<in> set (rd_gos r). go_timed (clock (rd_env r)) (snd lg)) \<and>
     (\<forall>res \<in> set (rd_chan r). timed res)"

lemma round_timed_step:
  assumes "round_timed r" and "round_step rt je jitter r r'"
  shows "round_timed r'"
  using assms(2)
proof (cases rule: round_step.cases)
  case (turn i cancelled)
  obtain lh g where lg: "rd_gos r ! i = (lh, g)" by fastforce
  obtain g' out e' where st: "goroutine_step rt je jitter cancelled lh g (rd_env r) = (g', out, e')"
    by (metis surj_pair)
  have "(lh, g) \<in> set (rd_gos r)" using turn(2) lg by (metis can_step_def nth_mem)
  then have "go_timed (clock (rd_env r)) g" and v: "valid (rd_env r)"
    using assms(1) unfolding round_timed_def by force+
  note ok = goroutine_step_timed [OF st v this(1)]
  have "go_timed (clock e') (snd lg)" if "lg \<in> set ((rd_gos r)[i := (lh, g')])" for lg
  proof -
    have "lg = (lh, g') \<or> lg \<in> set (rd_gos r)" using that set_update_subset_insert by fast
    then show ?thesis
    proof
      assume "lg \<in> set (rd_gos r)"
      then have "go_timed (clock (rd_env r)) (snd lg)" using assms(1) by (simp add: round_timed_def)
      then show ?thesis by (rule go_timed_mono) (use ok in blast)
    qed (use ok in simp)
  qed
  with ok assms(1) show ?thesis
    unfolding turn(1) step_at_sel [OF st lg] round_timed_def by auto
qed

lemma runRound_timed:
  assumes "valid (kl_env k)" and "runRound rt je st cfg sched k = Some (err, k')"
  shows "valid (kl_env k')"
    and "r \<in> set (rd_chan (run_schedule rt je (cli_poll_jitter (cfg_cli cfg)) sched
           (start_round (cfg_targets cfg) (kl_env k)))) \<Longrightarrow> timed r"
proof -
  let ?s = "start_round (cfg_targets cfg) (kl_env k)"
  let ?r = "run_schedule rt je (cli_poll_jitter (cfg_cli cfg)) sched ?s"
  have "round_timed ?s" using assms(1) by (auto simp: round_timed_def start_round_def)
  with run_schedule_reaches [of rt je _ ?s sched] have r: "round_timed ?r"
    by (induction rule: rtranclp_induct) (auto intro: round_timed_step)
  moreover have "kl_env k' = rd_env ?r"
    using assms(2) by (auto simp: runRound_def Let_def split: if_splits prod.splits)
  ultimately show "valid (kl_env k')" by (simp add: round_timed_def)
  show "timed x" if "x \<in> set (rd_chan ?r)" for x using r that by (simp add: round_timed_def)
qed

end

text \<open>A runner and a store that fit together: what a timed poll returns is admissible.\<close>

locale collector_parts = poll_clock rt clock valid + result_store st inv admissible
  for rt :: "'e runtime" and clock :: "'e \<Rightarrow> int" and valid :: "'e \<Rightarrow> bool"
    and st :: "'s collector_store" and inv :: "'s \<Rightarrow> bool" and admissible :: "PollResult \<Rightarrow> bool" +
  fixes je :: json_error
  assumes admits: "summarised je r \<Longrightarrow> timed r \<Longrightarrow> admissible r"
begin

lemma runRound_keeps:
  assumes "valid (kl_env k)" and "inv (kl_store k)" and "runRound rt je st cfg sched k = Some (err, k')"
  shows "valid (kl_env k')" "inv (kl_store k')"
proof -
  show "valid (kl_env k')" by (rule runRound_timed(1) [OF assms(1,3)])
  from assms(3) obtain rs where
    save: "save_round st (cfg_cli cfg) rs (kl_store k, kl_metrics k) = (err, kl_store k', kl_metrics k')"
    and summ: "\<forall>r \<in> set rs. summarised je r"
    and rs: "rs = rd_chan (run_schedule rt je (cli_poll_jitter (cfg_cli cfg)) sched
           (start_round (cfg_targets cfg) (kl_env k)))"
    by (rule runRound_results)
  have "\<forall>r \<in> set rs. admissible r"
    using summ runRound_timed(2) [OF assms(1,3)] admits unfolding rs by blast
  from save_round_keeps [OF assms(2) this save] show "inv (kl_store k')" .
qed

lemma rounds_loop_keeps:
  "valid (kl_env k) \<Longrightarrow> inv (kl_store k) \<Longrightarrow> rounds_loop rt je st cfg wakes k = Some fin \<Longrightarrow>
   \<exists>k'. fin \<in> {Selecting k'} \<union> range (\<lambda>e. Returned (Some e) k') \<and> inv (kl_store k') \<and> valid (kl_env k')"
proof (induction wakes arbitrary: k)
  case Nil
  then show ?case by auto
next
  case (Cons x wakes)
  show ?case
  proof (cases x)
    case (RoundDone err)
    with Cons.prems show ?thesis by auto
  next
    case (RoundTick sched)
    with Cons.prems obtain err k1 where r: "runRound rt je st cfg sched k = Some (err, k1)"
      and "rounds_loop rt je st cfg wakes k1 = Some fin" by (auto split: option.splits)
    from Cons.IH [OF runRound_keeps [OF Cons.prems(1,2) r] this(2)] show ?thesis .
  qed
qed

lemma Run_collector_keeps:
  assumes "valid (kl_env k)" and "inv (kl_store k)"
    and "Run_collector rt je st cfg sched wakes k = Some fin"
  shows "\<exists>k'. fin \<in> {Selecting k', NewTicker_panic k'} \<union> range (\<lambda>e. Returned e k') \<and>
    inv (kl_store k') \<and> valid (kl_env k')"
proof -
  from assms(3) obtain err k1 where r: "runRound rt je st cfg sched k = Some (err, k1)"
    by (auto simp: Run_collector_def split: option.splits)
  note k1 = runRound_keeps [OF assms(1,2) r]
  with assms(3) r rounds_loop_keeps [OF k1, of cfg wakes fin] show ?thesis
    by (fastforce simp: Run_collector_def split: if_splits)
qed

end

section \<open>A sample\<close>

definition ticking :: "nat runtime" where
  "ticking = \<lparr>op_now = (\<lambda>n. (\<lparr>wall = int (Suc n), mono = None\<rparr>, Suc n)),
     op_run = (\<lambda>lh cmd n. (\<lparr>cr_command = cmd, cr_started = \<lparr>wall = int (Suc n), mono = None\<rparr>,
       cr_finished = \<lparr>wall = int (Suc n), mono = None\<rparr>, cr_output = ''1.9'', cr_err = None\<rparr>, Suc n))\<rparr>"

definition failing_store :: "nat collector_store" where
  "failing_store = \<lparr>op_SavePollResult = (\<lambda>r n. (Inl Canceled, Suc n)), op_RefreshGrafanaViews = (\<lambda>n. (Inr (), n))\<rparr>"

definition sample_config :: Config where
  "sample_config = \<lparr>cfg_cli = sample_cli, cfg_targets = sample_targets\<rparr>"

definition sample_collector :: "(nat, nat) collector_state" where
  "sample_collector = \<lparr>kl_env = 0, kl_store = 0, kl_metrics = no_metrics\<rparr>"

lemma some_schedule: "\<exists>sched err k'. runRound rt je st cfg sched k = Some (err, k')"
proof -
  obtain sched where "all_ended (run_schedule rt je (cli_poll_jitter (cfg_cli cfg)) sched
      (start_round (cfg_targets cfg) (kl_env k)))"
    using ending_schedule [OF round_inv_start [where e = "kl_env k" and jitter = "cli_poll_jitter (cfg_cli cfg)"],
        where rt = rt and je = je] by blast
  then show ?thesis
    by (intro exI [of _ sched]) (auto simp: runRound_def Let_def split: prod.splits)
qed

section \<open>Properties\<close>

text \<open>C8 A poll of a lighthouse is the declarative reading of what it observed, the six commands in the
  order of the code: every command is run and recorded whatever happened to the others, each
  output that parses fills its own field, each command that fails or whose output does not parse
  adds its error in command order, and the poll is successful exactly when there is none.\<close>

theorem poll_equivalence:
  "pollLighthouse rt je lh e =
     (case observe rt lh e of (t0, cs, t1, e') \<Rightarrow> (poll_summary je lh t0 cs t1, e')) \<and>
   (pr_success (poll_summary je lh t0 cs t1) \<longleftrightarrow>
     filter (\<lambda>x. command_error je x \<noteq> None) (zip poll_commands cs) = [])"
proof
  show "pollLighthouse rt je lh e =
      (case observe rt lh e of (t0, cs, t1, e') \<Rightarrow> (poll_summary je lh t0 cs t1, e'))"
    by (rule pollLighthouse_observe)
  have "poll_errors je cs = [] \<longleftrightarrow> filter (\<lambda>x. command_error je x \<noteq> None) (zip poll_commands cs) = []"
    by (auto simp: poll_errors_def filter_empty_conv split: option.splits)
  then show "pr_success (poll_summary je lh t0 cs t1) \<longleftrightarrow>
      filter (\<lambda>x. command_error je x \<noteq> None) (zip poll_commands cs) = []"
    by (simp add: pr_success_def poll_summary_def)
qed

text \<open>C7 No schedule keeps a round from ending: from every reachable state some goroutine can take a step
  until all have ended, in particular a send never finds the channel full, and no run takes more
  than eight steps per lighthouse.\<close>

theorem round_terminates:
  assumes "((round_step rt je jitter) ^^ n) (start_round lhs e) r"
  shows "n + round_left r \<le> 8 * length lhs \<and> (all_ended r \<or> (\<exists>r'. round_step rt je jitter r r'))"
proof -
  have "(round_step rt je jitter)\<^sup>*\<^sup>* (start_round lhs e) r" using assms by (rule relpowp_imp_rtranclp)
  then have "round_inv je jitter lhs r" by (rule round_inv_reachable)
  with some_can_step round_step.turn have "all_ended r \<or> (\<exists>r'. round_step rt je jitter r r')" by metis
  with round_steps_left [OF assms] show ?thesis by (simp add: round_left_start)
qed

lemma round_terminates_witness:
  "\<exists>r'. round_step ticking plain_json_error 0 (start_round sample_targets 0) r'"
proof -
  have "((round_step ticking plain_json_error 0) ^^ 0) (start_round sample_targets 0) (start_round sample_targets 0)" by simp
  from round_terminates [OF this] show ?thesis
    by (simp add: all_ended_def start_round_def sample_targets_def)
qed



text \<open>C18 Saving isolates failures: whatever happens to the others, every result of the round is counted
  in the metrics and offered to the store exactly once and in order; the views are refreshed
  exactly when at least one save succeeded and refreshing is enabled; the round reports every
  failed save by its lighthouse, and nil exactly when nothing failed.\<close>

theorem save_round_exact:
  "save_round st cli rs (s, m) =
     (let errs = save_failures st rs s; s1 = save_all st rs s in
      if length errs < length rs \<and> cli_refresh_views cli then
        (case op_RefreshGrafanaViews st s1 of
           (Inl err, s2) \<Rightarrow> (Some (Join (errs @ [Wrap ''refresh grafana views'' err])), s2, fold ObservePoll rs m)
         | (Inr _, s2) \<Rightarrow> (errors_join errs, s2, fold ObservePoll rs m))
      else (errors_join errs, s1, fold ObservePoll rs m))"
  by (rule save_round_eq)

lemma rounds_loop_no_panic: "rounds_loop rt je st cfg wakes k \<noteq> Some (NewTicker_panic k1)"
  by (induction rt je st cfg wakes k rule: rounds_loop.induct) (auto split: option.splits)


end
