(* ===== verification/Ssh_Client.thy ===== *)
theory Ssh_Client
  imports Collector
begin

text \<open>
  \<open>internal/sshclient\<close>. The SSH and known_hosts packages of golang.org/x/crypto and the
  network are the record \<open>ssh_lib\<close> of operations, the files are a map from paths to
  contents with a fault script, and the clock is a sequence of readings. The host key callback
  of mode accept-new is a state: the path and the known_hosts database last loaded from it.
  A \<open>defer\<close> that closes a handle is the combinator \<open>with_handle\<close>.
\<close>

section \<open>The environment\<close>

text \<open>
  The verdict of a known_hosts database on a host key: nil, a \<open>KeyError\<close> with the keys it
  wants, or any other error.
\<close>

datatype 'k verdict = Accepted | KeyError "'k list" go_error | OtherError go_error

text \<open>What the \<open>select\<close> at the end of \<open>Run\<close> receives.\<close>

datatype select_case = RunReturned "go_error option" | ContextDone go_error

record ('n, 'r, 'k, 's, 'd) ssh_lib =
  lib_Dial :: "i64 \<Rightarrow> string \<Rightarrow> 'n \<Rightarrow> 'r result \<times> 'n"
  lib_KeyExchange :: "string \<Rightarrow> 'n \<Rightarrow> 'k result \<times> 'n"
  lib_Authenticate :: "string \<Rightarrow> 's \<Rightarrow> 'n \<Rightarrow> go_error option \<times> 'n"
  lib_HandshakeError :: "go_error \<Rightarrow> go_error"
  lib_NewSession :: "'n \<Rightarrow> go_error option \<times> 'n"
  lib_Exec :: "string \<Rightarrow> 'n \<Rightarrow> (select_case \<times> string list) \<times> 'n"
  lib_ParsePrivateKey :: "string \<Rightarrow> 's result"
  lib_ParsePrivateKeyWithPassphrase :: "string \<Rightarrow> string \<Rightarrow> 's result"
  lib_knownhosts_New :: "string \<Rightarrow> 'd result"
  lib_knownhosts_check :: "'d \<Rightarrow> string \<Rightarrow> 'r \<Rightarrow> 'k \<Rightarrow> 'k verdict"
  lib_knownhosts_Line :: "string \<Rightarrow> 'k \<Rightarrow> string"

datatype handle = TCP_conn | SSH_client | SSH_session | Known_hosts_file

record 'n ssh_env =
  en_net :: 'n
  en_files :: "string \<Rightarrow> string option"
  en_io :: "nat \<Rightarrow> (nat \<times> go_error) option"
  en_io_calls :: nat
  en_clock :: "nat \<Rightarrow> gotime"
  en_reads :: nat
  en_open :: "handle list"

definition time_now :: "'n ssh_env \<Rightarrow> gotime \<times> 'n ssh_env" where
  "time_now e = (en_clock e (en_reads e), e\<lparr>en_reads := Suc (en_reads e)\<rparr>)"

definition on_net :: "('n \<Rightarrow> 'a \<times> 'n) \<Rightarrow> 'n ssh_env \<Rightarrow> 'a \<times> 'n ssh_env" where
  "on_net f e = (case f (en_net e) of (x, n) \<Rightarrow> (x, e\<lparr>en_net := n\<rparr>))"

definition with_handle :: "handle \<Rightarrow> ('n ssh_env \<Rightarrow> 'a \<times> 'n ssh_env) \<Rightarrow> 'n ssh_env \<Rightarrow> 'a \<times> 'n ssh_env" where
  "with_handle h body e =
     (case body (e\<lparr>en_open := h # en_open e\<rparr>) of (x, e1) \<Rightarrow> (x, e1\<lparr>en_open := remove1 h (en_open e1)\<rparr>))"

section \<open>Files\<close>

text \<open>
  Each call asks the fault script first. A failing write may leave a prefix of its bytes.
  Directories are not modelled: making one changes no file.
\<close>

definition ENOENT :: go_error where
  "ENOENT = Err ''no such file or directory''"

definition tick_io :: "'n ssh_env \<Rightarrow> 'n ssh_env" where
  "tick_io e = e\<lparr>en_io_calls := Suc (en_io_calls e)\<rparr>"

definition file_call ::
  "((string \<Rightarrow> string option) \<Rightarrow> 'a result \<times> (string \<Rightarrow> string option)) \<Rightarrow> 'n ssh_env \<Rightarrow> 'a result \<times> 'n ssh_env" where
  "file_call f e = (case en_io e (en_io_calls e) of
       Some (n, err) \<Rightarrow> (Inl err, tick_io e)
     | None \<Rightarrow> (case f (en_files e) of (r, fs) \<Rightarrow> (r, (tick_io e)\<lparr>en_files := fs\<rparr>)))"

definition existing :: "string \<Rightarrow> string \<Rightarrow> (string \<Rightarrow> 'a) \<Rightarrow> (string \<Rightarrow> string option) \<Rightarrow> 'a result \<times> (string \<Rightarrow> string option)" where
  "existing op path f fs = (case fs path of
       None \<Rightarrow> (Inl (Wrap (op @ '' '' @ path) ENOENT), fs)
     | Some content \<Rightarrow> (Inr (f content), fs))"

definition os_MkdirAll :: "'n ssh_env \<Rightarrow> unit result \<times> 'n ssh_env" where
  "os_MkdirAll = file_call (\<lambda>fs. (Inr (), fs))"

definition os_Stat :: "string \<Rightarrow> 'n ssh_env \<Rightarrow> unit result \<times> 'n ssh_env" where
  "os_Stat path = file_call (existing ''stat'' path (\<lambda>_. ()))"

definition os_ReadFile :: "string \<Rightarrow> 'n ssh_env \<Rightarrow> string result \<times> 'n ssh_env" where
  "os_ReadFile path = file_call (existing ''open'' path (\<lambda>content. content))"

definition os_Create :: "string \<Rightarrow> 'n ssh_env \<Rightarrow> unit result \<times> 'n ssh_env" where
  "os_Create path = file_call (\<lambda>fs. (Inr (), if fs path = None then fs(path \<mapsto> []) else fs))"

definition os_OpenAppend :: "string \<Rightarrow> 'n ssh_env \<Rightarrow> unit result \<times> 'n ssh_env" where
  "os_OpenAppend path = file_call (existing ''open'' path (\<lambda>_. ()))"

definition append_to :: "string \<Rightarrow> string \<Rightarrow> (string \<Rightarrow> string option) \<Rightarrow> (string \<Rightarrow> string option)" where
  "append_to path s fs = fs(path := map_option (\<lambda>content. content @ s) (fs path))"

definition file_WriteString :: "string \<Rightarrow> string \<Rightarrow> 'n ssh_env \<Rightarrow> unit result \<times> 'n ssh_env" where
  "file_WriteString path s e = (case en_io e (en_io_calls e) of
       Some (n, err) \<Rightarrow> (Inl err, (tick_io e)\<lparr>en_files := append_to path (take n s) (en_files e)\<rparr>)
     | None \<Rightarrow> (Inr (), (tick_io e)\<lparr>en_files := append_to path s (en_files e)\<rparr>))"

text \<open>\<open>knownhosts.New\<close> reads the file and parses it.\<close>

definition knownhosts_New :: "('n, 'r, 'k, 's, 'd) ssh_lib \<Rightarrow> string \<Rightarrow> 'n ssh_env \<Rightarrow> 'd result \<times> 'n ssh_env" where
  "knownhosts_New lib path e = (case os_ReadFile path e of
       (Inl err, e1) \<Rightarrow> (Inl err, e1)
     | (Inr content, e1) \<Rightarrow> (lib_knownhosts_New lib content, e1))"

section \<open>Host keys\<close>

datatype 'd callback = InsecureIgnoreHostKey | Strict 'd | AcceptNew string 'd

definition append_line :: "('n, 'r, 'k, 's, 'd) ssh_lib \<Rightarrow> string \<Rightarrow> string \<Rightarrow> 'k \<Rightarrow> 'n ssh_env \<Rightarrow> go_error option \<times> 'n ssh_env" where
  "append_line lib path hostname key e =
     (case file_WriteString path (lib_knownhosts_Line lib hostname key @ [CHR 0x0A]) e of
        (Inl err, e1) \<Rightarrow> (Some (Wrap (''append known host '' @ hostname) err), e1)
      | (Inr _, e1) \<Rightarrow> (None, e1))"

definition appendKnownHost ::
  "('n, 'r, 'k, 's, 'd) ssh_lib \<Rightarrow> string \<Rightarrow> string \<Rightarrow> 'k \<Rightarrow> 'n ssh_env \<Rightarrow> go_error option \<times> 'n ssh_env" where
  "appendKnownHost lib path hostname key e =
     (case os_OpenAppend path e of
        (Inl err, e1) \<Rightarrow> (Some (Wrap ''open known_hosts for append'' err), e1)
      | (Inr _, e1) \<Rightarrow> with_handle Known_hosts_file (append_line lib path hostname key) e1)"

text \<open>The closure of \<open>acceptNewHostKeyCallback\<close>, one call under its mutex.\<close>

definition accept_new ::
  "('n, 'r, 'k, 's, 'd) ssh_lib \<Rightarrow> string \<Rightarrow> 'd \<Rightarrow> string \<Rightarrow> 'r \<Rightarrow> 'k \<Rightarrow> 'n ssh_env \<Rightarrow> go_error option \<times> 'd \<times> 'n ssh_env" where
  "accept_new lib path current hostname remote key e =
     (case lib_knownhosts_check lib current hostname remote key of
        Accepted \<Rightarrow> (None, current, e)
      | OtherError err \<Rightarrow> (Some err, current, e)
      | KeyError want err \<Rightarrow>
          if length want > 0 then (Some (Wrap (''ssh host key mismatch for '' @ hostname) err), current, e)
          else (case appendKnownHost lib path hostname key e of
             (Some err1, e1) \<Rightarrow> (Some err1, current, e1)
           | (None, e1) \<Rightarrow>
               (case knownhosts_New lib path e1 of
                  (Inl err2, e2) \<Rightarrow>
                    (Some (Wrap (''reload known_hosts after learning '' @ hostname) err2), current, e2)
                | (Inr reloaded, e2) \<Rightarrow> (None, reloaded, e2))))"

fun run_callback ::
  "('n, 'r, 'k, 's, 'd) ssh_lib \<Rightarrow> 'd callback \<Rightarrow> string \<Rightarrow> 'r \<Rightarrow> 'k \<Rightarrow> 'n ssh_env \<Rightarrow>
   go_error option \<times> 'd callback \<times> 'n ssh_env" where
  "run_callback lib InsecureIgnoreHostKey hostname remote key e = (None, InsecureIgnoreHostKey, e)"
| "run_callback lib (Strict d) hostname remote key e =
     ((case lib_knownhosts_check lib d hostname remote key of
         Accepted \<Rightarrow> None | KeyError want err \<Rightarrow> Some err | OtherError err \<Rightarrow> Some err), Strict d, e)"
| "run_callback lib (AcceptNew path current) hostname remote key e =
     (case accept_new lib path current hostname remote key e of
        (err, current1, e1) \<Rightarrow> (err, AcceptNew path current1, e1))"

definition ensure_file :: "string \<Rightarrow> 'n ssh_env \<Rightarrow> go_error option \<times> 'n ssh_env" where
  "ensure_file path e =
     (case os_Stat path e of
        (Inr _, e1) \<Rightarrow> (None, e1)
      | (Inl err, e1) \<Rightarrow>
          if errors_is err ENOENT then
            (case os_Create path e1 of
               (Inl err1, e2) \<Rightarrow> (Some (Wrap ''create known_hosts file'' err1), e2)
             | (Inr _, e2) \<Rightarrow> (None, e2))
          else (Some (Wrap ''stat known_hosts file'' err), e1))"

definition acceptNewHostKeyCallback ::
  "('n, 'r, 'k, 's, 'd) ssh_lib \<Rightarrow> string \<Rightarrow> 'n ssh_env \<Rightarrow> 'd callback result \<times> 'n ssh_env" where
  "acceptNewHostKeyCallback lib path e =
     (case os_MkdirAll e of
        (Inl err, e1) \<Rightarrow> (Inl (Wrap ''create known_hosts directory'' err), e1)
      | (Inr _, e1) \<Rightarrow>
          (case ensure_file path e1 of
             (Some err, e2) \<Rightarrow> (Inl err, e2)
           | (None, e2) \<Rightarrow>
               (case knownhosts_New lib path e2 of
                  (Inl err, e3) \<Rightarrow> (Inl (Wrap ''load known_hosts'' err), e3)
                | (Inr current, e3) \<Rightarrow> (Inr (AcceptNew path current), e3))))"

definition hostKeyCallback ::
  "('n, 'r, 'k, 's, 'd) ssh_lib \<Rightarrow> string \<Rightarrow> string \<Rightarrow> 'n ssh_env \<Rightarrow> 'd callback result \<times> 'n ssh_env" where
  "hostKeyCallback lib mode path e =
     (if mode = ''insecure'' then (Inr InsecureIgnoreHostKey, e)
      else if mode = ''strict'' then
        (if path = [] then (Inl (Err ''known_hosts path is required in strict mode''), e)
         else (case knownhosts_New lib path e of
                 (Inl err, e1) \<Rightarrow> (Inl err, e1)
               | (Inr d, e1) \<Rightarrow> (Inr (Strict d), e1)))
      else if mode = ''accept-new'' then
        (if path = [] then (Inl (Err ''known_hosts path is required in accept-new mode''), e)
         else acceptNewHostKeyCallback lib path e)
      else (Inl (Err (''unsupported host key mode '' @ Quote mode)), e))"

section \<open>The private key\<close>

definition escaped_newline :: string where
  "escaped_newline = [CHR 0x5C, CHR ''n'']"

definition normalizePrivateKey :: "string \<Rightarrow> string" where
  "normalizePrivateKey value =
     (let value = TrimSpace value;
          value = (if str_contains value escaped_newline \<and> \<not> str_contains value [CHR 0x0A]
                   then replace_pair (CHR 0x5C) (CHR ''n'') (CHR 0x0A) value else value)
      in value @ [CHR 0x0A])"

definition key_material :: "SSHConfig \<Rightarrow> 'n ssh_env \<Rightarrow> string result \<times> 'n ssh_env" where
  "key_material cfg e =
     (if ssh_private_key cfg \<noteq> [] then (Inr (normalizePrivateKey (ssh_private_key cfg)), e)
      else if ssh_key_file cfg \<noteq> [] then
        (case os_ReadFile (ssh_key_file cfg) e of
           (Inl err, e1) \<Rightarrow> (Inl (Wrap ''read ssh key file'' err), e1)
         | (Inr content, e1) \<Rightarrow> (Inr content, e1))
      else (Inl (Err ''ssh private key is required''), e))"

definition parse_signer :: "('n, 'r, 'k, 's, 'd) ssh_lib \<Rightarrow> SSHConfig \<Rightarrow> string \<Rightarrow> 's result" where
  "parse_signer lib cfg key =
     (if ssh_key_passphrase cfg \<noteq> [] then
        (case lib_ParsePrivateKeyWithPassphrase lib key (ssh_key_passphrase cfg) of
           Inl err \<Rightarrow> Inl (Wrap ''parse encrypted ssh private key'' err) | Inr s \<Rightarrow> Inr s)
      else (case lib_ParsePrivateKey lib key of
           Inl err \<Rightarrow> Inl (Wrap ''parse ssh private key'' err) | Inr s \<Rightarrow> Inr s))"

definition loadSigner :: "('n, 'r, 'k, 's, 'd) ssh_lib \<Rightarrow> SSHConfig \<Rightarrow> 'n ssh_env \<Rightarrow> 's result \<times> 'n ssh_env" where
  "loadSigner lib cfg e =
     (case key_material cfg e of
        (Inl err, e1) \<Rightarrow> (Inl err, e1)
      | (Inr key, e1) \<Rightarrow> (parse_signer lib cfg key, e1))"

section \<open>The client\<close>

record ('s, 'd) ssh_client =
  cl_signer :: 's
  cl_callback :: "'d callback"
  cl_timeout :: i64

definition New :: "('n, 'r, 'k, 's, 'd) ssh_lib \<Rightarrow> SSHConfig \<Rightarrow> 'n ssh_env \<Rightarrow> ('s, 'd) ssh_client result \<times> 'n ssh_env" where
  "New lib cfg e =
     (case loadSigner lib cfg e of
        (Inl err, e1) \<Rightarrow> (Inl err, e1)
      | (Inr signer, e1) \<Rightarrow>
          (case hostKeyCallback lib (ssh_host_key_mode cfg) (ssh_known_hosts_path cfg) e1 of
             (Inl err, e2) \<Rightarrow> (Inl err, e2)
           | (Inr callback, e2) \<Rightarrow>
               (Inr \<lparr>cl_signer = signer, cl_callback = callback, cl_timeout = ssh_timeout cfg\<rparr>, e2)))"

text \<open>The buffer both output streams of a session are written to.\<close>

record lockedBuffer =
  lb_buf :: string

definition Write :: "string \<Rightarrow> lockedBuffer \<Rightarrow> lockedBuffer" where
  "Write p b = b\<lparr>lb_buf := lb_buf b @ p\<rparr>"

definition String :: "lockedBuffer \<Rightarrow> string" where
  "String b = lb_buf b"

text \<open>
  The stages of \<open>Run\<close> after each other; each returns the output and the error of the result.
  The client is passed as a state because its callback learns.
\<close>

type_synonym ('n, 's, 'd) stage =
  "('s, 'd) ssh_client \<times> 'n ssh_env \<Rightarrow> (string \<times> go_error option) \<times> ('s, 'd) ssh_client \<times> 'n ssh_env"

definition closing :: "handle \<Rightarrow> ('n, 's, 'd) stage \<Rightarrow> ('n, 's, 'd) stage" where
  "closing h body ce = (case ce of (c, e) \<Rightarrow>
     (case with_handle h (\<lambda>e1. case body (c, e1) of (x, c2, e2) \<Rightarrow> ((x, c2), e2)) e of
        ((x, c2), e2) \<Rightarrow> (x, c2, e2)))"

definition exec_command :: "('n, 'r, 'k, 's, 'd) ssh_lib \<Rightarrow> string \<Rightarrow> ('n, 's, 'd) stage" where
  "exec_command lib command ce = (case ce of (c, e) \<Rightarrow>
     (case on_net (lib_Exec lib command) e of
        ((fin, chunks), e1) \<Rightarrow>
          (let output = String (fold Write chunks \<lparr>lb_buf = []\<rparr>) in
           case fin of
             RunReturned None \<Rightarrow> ((output, None), c, e1)
           | RunReturned (Some err) \<Rightarrow> ((output, Some (Wrap (''run '' @ Quote command) err)), c, e1)
           | ContextDone err \<Rightarrow> ((output, Some err), c, e1))))"

definition open_session :: "('n, 'r, 'k, 's, 'd) ssh_lib \<Rightarrow> string \<Rightarrow> ('n, 's, 'd) stage" where
  "open_session lib command ce = (case ce of (c, e) \<Rightarrow>
     (case on_net (lib_NewSession lib) e of
        (Some err, e1) \<Rightarrow> (([], Some (Wrap ''open ssh session'' err)), c, e1)
      | (None, e1) \<Rightarrow> closing SSH_session (exec_command lib command) (c, e1)))"

definition handshake :: "('n, 'r, 'k, 's, 'd) ssh_lib \<Rightarrow> Lighthouse \<Rightarrow> string \<Rightarrow> 'r \<Rightarrow> ('n, 's, 'd) stage" where
  "handshake lib lighthouse command remote ce = (case ce of (c, e) \<Rightarrow>
     (case on_net (lib_KeyExchange lib (lh_address lighthouse)) e of
        (Inl err, e1) \<Rightarrow> (([], Some (Wrap ''open ssh client'' err)), c, e1)
      | (Inr key, e1) \<Rightarrow>
          (case run_callback lib (cl_callback c) (lh_address lighthouse) remote key e1 of
             (Some err, cb, e2) \<Rightarrow>
               (([], Some (Wrap ''open ssh client'' (lib_HandshakeError lib err))), c\<lparr>cl_callback := cb\<rparr>, e2)
           | (None, cb, e2) \<Rightarrow>
               (case on_net (lib_Authenticate lib (lh_user lighthouse) (cl_signer c)) e2 of
                  (Some err, e3) \<Rightarrow> (([], Some (Wrap ''open ssh client'' err)), c\<lparr>cl_callback := cb\<rparr>, e3)
                | (None, e3) \<Rightarrow>
                    closing SSH_client (open_session lib command) (c\<lparr>cl_callback := cb\<rparr>, e3)))))"

definition dial :: "('n, 'r, 'k, 's, 'd) ssh_lib \<Rightarrow> Lighthouse \<Rightarrow> string \<Rightarrow> ('n, 's, 'd) stage" where
  "dial lib lighthouse command ce = (case ce of (c, e) \<Rightarrow>
     (case on_net (lib_Dial lib (cl_timeout c) (lh_address lighthouse)) e of
        (Inl err, e1) \<Rightarrow> (([], Some (Wrap ''dial ssh'' err)), c, e1)
      | (Inr remote, e1) \<Rightarrow> closing TCP_conn (handshake lib lighthouse command remote) (c, e1)))"

definition Run_client ::
  "('n, 'r, 'k, 's, 'd) ssh_lib \<Rightarrow> Lighthouse \<Rightarrow> string \<Rightarrow> ('s, 'd) ssh_client \<times> 'n ssh_env \<Rightarrow>
   CommandResult \<times> ('s, 'd) ssh_client \<times> 'n ssh_env" where
  "Run_client lib lighthouse command ce = (case ce of (c, e) \<Rightarrow>
     (case time_now e of (startedAt, e1) \<Rightarrow>
      case dial lib lighthouse command (c, e1) of ((output, err), c2, e2) \<Rightarrow>
      case time_now e2 of (finishedAt, e3) \<Rightarrow>
        (\<lparr>cr_command = command, cr_started = startedAt, cr_finished = finishedAt,
          cr_output = output, cr_err = err\<rparr>, c2, e3)))"

text \<open>The client as the collector's runner, with the clock of the environment.\<close>

definition ssh_runtime :: "('n, 'r, 'k, 's, 'd) ssh_lib \<Rightarrow> (('s, 'd) ssh_client \<times> 'n ssh_env) runtime" where
  "ssh_runtime lib = \<lparr>op_now = (\<lambda>(c, e). case time_now e of (t, e1) \<Rightarrow> (t, c, e1)), op_run = Run_client lib\<rparr>"

end
