(* ===== verification/Ssh_Laws.thy ===== *)
theory Ssh_Laws
  imports Ssh_Client Collector_Laws
begin

text \<open>
  What the SSH client guarantees: it leaves no handle open and only moves the clock forward, so
  it is a \<open>poll_clock\<close> for the collector; no command runs before the host key is accepted;
  the accept-new callback never accepts a key other than the known one, and keeps the key of a
  host once learned.
\<close>

section \<open>Frame\<close>

definition framed :: "'n ssh_env \<Rightarrow> 'n ssh_env \<Rightarrow> bool" where
  "framed e e' \<longleftrightarrow> en_open e' = en_open e \<and> en_clock e' = en_clock e \<and> en_reads e \<le> en_reads e' \<and>
     en_io e' = en_io e \<and> en_io_calls e \<le> en_io_calls e'"

definition frames :: "('n ssh_env \<Rightarrow> 'a \<times> 'n ssh_env) \<Rightarrow> bool" where
  "frames f \<longleftrightarrow> (\<forall>e. framed e (snd (f e)))"

lemma framed_refl [simp]: "framed e e"
  by (simp add: framed_def)

lemma framed_trans: "framed e e1 \<Longrightarrow> framed e1 e2 \<Longrightarrow> framed e e2"
  by (auto simp: framed_def)

lemma framesD: "frames f \<Longrightarrow> f e = (x, e') \<Longrightarrow> framed e e'"
  unfolding frames_def by (metis snd_conv)

lemma framesI: "(\<And>e x e'. f e = (x, e') \<Longrightarrow> framed e e') \<Longrightarrow> frames f"
  unfolding frames_def by (metis prod.collapse)

lemma frames_time_now: "frames time_now"
  by (simp add: frames_def framed_def time_now_def)

lemma frames_on_net: "frames (on_net f)"
  by (auto simp: frames_def framed_def on_net_def split: prod.splits)

lemma frames_file_call: "frames (file_call f)"
  by (auto simp: frames_def framed_def file_call_def tick_io_def split: option.splits prod.splits)

lemmas frames_os = frames_file_call [of "\<lambda>fs. (Inr (), fs)", folded os_MkdirAll_def]
  frames_file_call [of "existing ''stat'' path (\<lambda>_. ())", folded os_Stat_def]
  frames_file_call [of "existing ''open'' path (\<lambda>content. content)", folded os_ReadFile_def]
  frames_file_call [of "\<lambda>fs. (Inr (), if fs path = None then fs(path \<mapsto> []) else fs)", folded os_Create_def]
  frames_file_call [of "existing ''open'' path (\<lambda>_. ())", folded os_OpenAppend_def] for path

lemma frames_WriteString: "frames (file_WriteString path s)"
  by (auto simp: frames_def framed_def file_WriteString_def tick_io_def split: option.splits)

lemma frames_with_handle: "frames body \<Longrightarrow> frames (with_handle h body)"
proof (rule framesI)
  fix e x e'
  assume "frames body" and r: "with_handle h body e = (x, e')"
  obtain y e1 where b: "body (e\<lparr>en_open := h # en_open e\<rparr>) = (y, e1)" by fastforce
  from framesD [OF \<open>frames body\<close> b] r b show "framed e e'"
    by (auto simp: with_handle_def framed_def)
qed

lemma frames_knownhosts_New: "frames (knownhosts_New lib path)"
  by (rule framesI) (auto simp: knownhosts_New_def dest: framesD [OF frames_os(3)] split: prod.splits sum.splits)

lemma frames_append_line: "frames (append_line lib path hostname key)"
  by (rule framesI) (auto simp: append_line_def dest: framesD [OF frames_WriteString] split: prod.splits sum.splits)

lemma frames_appendKnownHost: "frames (appendKnownHost lib path hostname key)"
  by (rule framesI) (auto simp: appendKnownHost_def intro: framed_trans
      dest!: framesD [OF frames_os(5)] framesD [OF frames_with_handle [OF frames_append_line]]
      split: prod.splits sum.splits)

lemma framed_accept_new:
  "accept_new lib path current hostname remote key e = (r, d, e') \<Longrightarrow> framed e e'"
  by (auto simp: accept_new_def intro: framed_trans dest!: framesD [OF frames_appendKnownHost]
      framesD [OF frames_knownhosts_New] split: verdict.splits if_splits prod.splits option.splits sum.splits)

lemma framed_callback:
  "run_callback lib cb hostname remote key e = (r, cb', e') \<Longrightarrow> framed e e'"
  by (cases cb) (auto dest: framed_accept_new split: prod.splits)

text \<open>The stages of a run.\<close>

definition stage_framed :: "('n, 's, 'd) stage \<Rightarrow> bool" where
  "stage_framed f \<longleftrightarrow> (\<forall>c e x c' e'. f (c, e) = (x, c', e') \<longrightarrow> framed e e')"

lemma stage_framedI: "(\<And>c e x c' e'. f (c, e) = (x, c', e') \<Longrightarrow> framed e e') \<Longrightarrow> stage_framed f"
  by (auto simp: stage_framed_def)

lemma stage_framedD: "stage_framed f \<Longrightarrow> f (c, e) = (x, c', e') \<Longrightarrow> framed e e'"
  unfolding stage_framed_def by blast

lemma stage_closing: "stage_framed body \<Longrightarrow> stage_framed (closing h body)"
proof (rule stage_framedI)
  fix c e x c' e'
  assume b: "stage_framed body" and r: "closing h body (c, e) = (x, c', e')"
  let ?f = "\<lambda>e1. case body (c, e1) of (x, c2, e2) \<Rightarrow> ((x, c2), e2)"
  have "frames ?f"
    by (rule framesI) (auto split: prod.splits dest: stage_framedD [OF b])
  from framesD [OF frames_with_handle [OF this]] r show "framed e e'"
    by (auto simp: closing_def split: prod.splits)
qed

lemma stage_exec: "stage_framed (exec_command lib command)"
  by (rule stage_framedI) (auto simp: exec_command_def Let_def dest: framesD [OF frames_on_net]
      split: prod.splits select_case.splits option.splits)

lemma stage_session: "stage_framed (open_session lib command)"
  by (rule stage_framedI) (auto simp: open_session_def intro: framed_trans
      dest!: framesD [OF frames_on_net] stage_framedD [OF stage_closing [OF stage_exec]]
      split: prod.splits option.splits)

lemma stage_handshake: "stage_framed (handshake lib lighthouse command remote)"
  by (rule stage_framedI) (auto simp: handshake_def intro: framed_trans
      dest!: framesD [OF frames_on_net] framed_callback stage_framedD [OF stage_closing [OF stage_session]]
      split: prod.splits option.splits sum.splits)

lemma stage_dial: "stage_framed (dial lib lighthouse command)"
  by (rule stage_framedI) (auto simp: dial_def intro: framed_trans
      dest!: framesD [OF frames_on_net] stage_framedD [OF stage_closing [OF stage_handshake]]
      split: prod.splits sum.splits)

lemma Run_client_frame:
  assumes "Run_client lib lh cmd (c, e) = (r, c', e')"
  shows "framed e e'" "Suc (Suc (en_reads e)) \<le> en_reads e'"
    "cr_started r = en_clock e (en_reads e)" "cr_command r = cmd"
proof -
  obtain t e1 where t: "time_now e = (t, e1)" by fastforce
  obtain o1 c2 e2 where d: "dial lib lh cmd (c, e1) = (o1, c2, e2)" by (metis surj_pair)
  have r: "r = \<lparr>cr_command = cmd, cr_started = t, cr_finished = fst (time_now e2), cr_output = fst o1, cr_err = snd o1\<rparr>"
    "e' = snd (time_now e2)"
    using assms t d by (auto simp: Run_client_def split: prod.splits)
  have "framed e e1" "framed e1 e2" "framed e2 e'"
    using framesD [OF frames_time_now t] stage_framedD [OF stage_dial d]
      framesD [OF frames_time_now prod.collapse [symmetric], of e2] r(2) by simp_all
  then show "framed e e'" by (blast intro: framed_trans)
  show "cr_command r = cmd" "cr_started r = en_clock e (en_reads e)" using r(1) t by (auto simp: time_now_def)
  have "en_reads e1 = Suc (en_reads e)" "en_reads e' = Suc (en_reads e2)" "en_reads e1 \<le> en_reads e2"
    using t r(2) \<open>framed e1 e2\<close> by (auto simp: time_now_def framed_def)
  then show "Suc (Suc (en_reads e)) \<le> en_reads e'" by simp
qed

text \<open>The readings of the clock are positive and do not go back.\<close>

definition steady_clock :: "'c \<times> 'n ssh_env \<Rightarrow> bool" where
  "steady_clock ce \<longleftrightarrow> 0 < wall (en_clock (snd ce) 0) \<and>
     (\<forall>i j. i \<le> j \<longrightarrow> wall (en_clock (snd ce) i) \<le> wall (en_clock (snd ce) j))"

definition next_reading :: "'c \<times> 'n ssh_env \<Rightarrow> int" where
  "next_reading ce = wall (en_clock (snd ce) (en_reads (snd ce)))"

interpretation ssh: poll_clock "ssh_runtime lib" next_reading steady_clock
  for lib :: "('n, 'r, 'k, 's, 'd) ssh_lib"
proof
  fix ce :: "('s, 'd) ssh_client \<times> 'n ssh_env"
  assume "steady_clock ce"
  then show "0 < next_reading ce"
    unfolding steady_clock_def next_reading_def by (metis le0 order_less_le_trans)
next
  fix ce :: "('s, 'd) ssh_client \<times> 'n ssh_env" and t and ce'
  assume v: "steady_clock ce" and "op_now (ssh_runtime lib) ce = (t, ce')"
  then have "t = en_clock (snd ce) (en_reads (snd ce))"
    and "snd ce' = (snd ce)\<lparr>en_reads := Suc (en_reads (snd ce))\<rparr>"
    by (auto simp: ssh_runtime_def time_now_def split: prod.splits)
  with v show "steady_clock ce' \<and> next_reading ce \<le> wall t \<and> wall t \<le> next_reading ce'"
    by (simp add: steady_clock_def next_reading_def)
next
  fix ce :: "('s, 'd) ssh_client \<times> 'n ssh_env" and lh cmd r and ce'
  assume v: "steady_clock ce" and "op_run (ssh_runtime lib) lh cmd ce = (r, ce')"
  then have run: "Run_client lib lh cmd (fst ce, snd ce) = (r, fst ce', snd ce')" by (simp add: ssh_runtime_def)
  have c: "en_clock (snd ce') = en_clock (snd ce)" and s: "cr_started r = en_clock (snd ce) (en_reads (snd ce))"
    and n: "en_reads (snd ce) \<le> en_reads (snd ce')"
    using Run_client_frame [OF run] by (simp_all add: framed_def)
  have "steady_clock ce'" using v by (simp add: steady_clock_def c)
  moreover have "wall (en_clock (snd ce) (en_reads (snd ce))) \<le> wall (en_clock (snd ce) (en_reads (snd ce')))"
    using v n by (simp add: steady_clock_def)
  ultimately show "steady_clock ce' \<and> next_reading ce \<le> wall (cr_started r) \<and> wall (cr_started r) \<le> next_reading ce'"
    by (simp add: next_reading_def s c)
qed

text \<open>A poll over SSH records every command once, under its own text.\<close>

lemma run_all_commands:
  "run_all (ssh_runtime lib) lh cmds ce = (cs, ce') \<Longrightarrow> map cr_command cs = map command_text cmds"
proof (induction cmds arbitrary: ce cs)
  case (Cons cmd cmds)
  obtain c e1 where r: "Run_client lib lh (command_text cmd) (fst ce, snd ce) = (c, e1)" by (metis surj_pair)
  then have "Run_client lib lh (command_text cmd) (fst ce, snd ce) = (c, fst e1, snd e1)" by simp
  note c = Run_client_frame(4) [OF this]
  from Cons.prems r obtain cs' where "cs = c # cs'" "run_all (ssh_runtime lib) lh cmds e1 = (cs', ce')"
    by (auto simp: ssh_runtime_def split: prod.splits)
  with Cons.IH c show ?case by simp
qed simp

lemma poll_records_commands:
  assumes "pollLighthouse (ssh_runtime lib) je lh ce = (r, ce')"
  shows "map cr_command (pr_commands r) = map command_text Enum.enum" "distinct (map cr_command (pr_commands r))"
proof -
  from assms obtain t0 cs t1 e1 e2 where r: "run_all (ssh_runtime lib) lh poll_commands e1 = (cs, e2)"
    and "r = poll_summary je lh t0 cs t1"
    by (auto simp: pollLighthouse_observe observe_def split: prod.splits)
  then show m: "map cr_command (pr_commands r) = map command_text Enum.enum"
    using run_all_commands [OF r] by (simp add: poll_summary_def enum_poll_command_def)
  show "distinct (map cr_command (pr_commands r))"
    unfolding m by (simp add: distinct_map enum_distinct inj_on_subset [OF inj_command_text])
qed

section \<open>Host keys\<close>

definition newline :: char where
  "newline = CHR 0x0A"

definition terminated :: "string \<Rightarrow> bool" where
  "terminated content \<longleftrightarrow> content = [] \<or> last content = newline"

fun split_lines :: "string \<Rightarrow> string list" where
  "split_lines [] = []"
| "split_lines (c # s) = (if c = newline then [] # split_lines s
     else (case split_lines s of [] \<Rightarrow> [[c]] | l # ls \<Rightarrow> if s = [] then [[c]] else (c # l) # ls))"

lemma split_lines_nonempty: "s \<noteq> [] \<Longrightarrow> split_lines s \<noteq> []"
  by (cases s) (auto split: list.splits)

lemma split_line: "newline \<notin> set l \<Longrightarrow> split_lines (l @ [newline]) = [l]"
  by (induction l) (auto split: list.splits)

lemma split_lines_append:
  assumes "newline \<notin> set l"
  shows "split_lines (content @ l @ [newline]) =
    (if terminated content then split_lines content @ [l]
     else butlast (split_lines content) @ [last (split_lines content) @ l])"
proof (induction content)
  case Nil
  then show ?case using split_line [OF assms] by (simp add: terminated_def)
next
  case (Cons c s)
  show ?case
  proof (cases "s = []")
    case True
    then show ?thesis using split_line [OF assms] by (auto simp: terminated_def)
  next
    case False
    have "split_lines (s @ l @ [newline]) \<noteq> []" by (rule split_lines_nonempty) simp
    then obtain x xs where x: "split_lines (s @ l @ [newline]) = x # xs" by (cases "split_lines (s @ l @ [newline])") auto
    obtain y ys where y: "split_lines s = y # ys"
      using split_lines_nonempty [OF False] by (cases "split_lines s") auto
    show ?thesis
      using Cons.IH False x y by (cases ys) (auto simp: terminated_def)
  qed
qed

text \<open>
  What the known_hosts package promises of a line written for an unknown host: the file still
  loads, the host has this key and no other, and the hosts bound to one key stay so.
\<close>

definition refuses :: "'k verdict \<Rightarrow> bool" where
  "refuses v \<longleftrightarrow> (case v of Accepted \<Rightarrow> False | KeyError want err \<Rightarrow> want \<noteq> [] | OtherError err \<Rightarrow> True)"

definition pinned :: "('n, 'r, 'k, 's, 'd) ssh_lib \<Rightarrow> 'd \<Rightarrow> string \<Rightarrow> 'k \<Rightarrow> bool" where
  "pinned lib d host key \<longleftrightarrow> (\<forall>remote. lib_knownhosts_check lib d host remote key = Accepted \<and>
     (\<forall>other. other \<noteq> key \<longrightarrow> refuses (lib_knownhosts_check lib d host remote other)))"

definition known_hosts_law :: "('n, 'r, 'k, 's, 'd) ssh_lib \<Rightarrow> bool" where
  "known_hosts_law lib \<longleftrightarrow> (\<forall>content d host remote key err.
     terminated content \<longrightarrow> newline \<notin> set host \<longrightarrow> lib_knownhosts_New lib content = Inr d \<longrightarrow>
     lib_knownhosts_check lib d host remote key = KeyError [] err \<longrightarrow>
     (\<exists>d'. lib_knownhosts_New lib (content @ lib_knownhosts_Line lib host key @ [newline]) = Inr d' \<and>
        pinned lib d' host key \<and> (\<forall>host' key'. pinned lib d host' key' \<longrightarrow> pinned lib d' host' key')))"

text \<open>The callback and the file agree, and no file operation fails.\<close>

definition synced :: "('n, 'r, 'k, 's, 'd) ssh_lib \<Rightarrow> string \<Rightarrow> 'd \<Rightarrow> 'n ssh_env \<Rightarrow> bool" where
  "synced lib path d e \<longleftrightarrow> en_io e = (\<lambda>_. None) \<and>
     (\<exists>content. en_files e path = Some content \<and> terminated content \<and> lib_knownhosts_New lib content = Inr d)"

lemma file_call_ok: "en_io e = (\<lambda>_. None) \<Longrightarrow> file_call f e = (fst (f (en_files e)), (tick_io e)\<lparr>en_files := snd (f (en_files e))\<rparr>)"
  by (simp add: file_call_def split: prod.splits)

lemma tick_io_sel [simp]: "en_io (tick_io e) = en_io e" "en_files (tick_io e) = en_files e"
  by (simp_all add: tick_io_def)

lemma append_ok:
  assumes "en_io e = (\<lambda>_. None)" and "en_files e path = Some content"
  shows "\<exists>e1. appendKnownHost lib path host key e = (None, e1) \<and> en_io e1 = (\<lambda>_. None) \<and>
    en_files e1 path = Some (content @ lib_knownhosts_Line lib host key @ [newline])"
  using assms
  by (simp add: appendKnownHost_def os_OpenAppend_def file_call_ok existing_def with_handle_def
      append_line_def file_WriteString_def append_to_def newline_def)

lemma knownhosts_New_ok:
  assumes "en_io e = (\<lambda>_. None)" and "en_files e path = Some content"
  shows "\<exists>e1. knownhosts_New lib path e = (lib_knownhosts_New lib content, e1) \<and> en_io e1 = (\<lambda>_. None) \<and>
    en_files e1 = en_files e"
  using assms
  by (simp add: knownhosts_New_def os_ReadFile_def file_call_ok existing_def)

lemma accept_new_known:
  assumes "\<And>err. lib_knownhosts_check lib d host remote key \<noteq> KeyError [] err"
  shows "snd (accept_new lib path d host remote key e) = (d, e)"
    and "fst (accept_new lib path d host remote key e) = None \<longleftrightarrow>
      lib_knownhosts_check lib d host remote key = Accepted"
  using assms by (auto simp: accept_new_def split: verdict.splits)

lemma accept_new_step:
  assumes "known_hosts_law lib" and "synced lib path d e" and "newline \<notin> set host"
    and "accept_new lib path d host remote key e = (res, d', e')"
  shows "synced lib path d' e'"
    and "\<forall>host' key'. pinned lib d host' key' \<longrightarrow> pinned lib d' host' key'"
    and "lib_knownhosts_check lib d host remote key = KeyError [] err \<Longrightarrow> res = None \<and> pinned lib d' host key"
proof -
  have "synced lib path d' e' \<and> (\<forall>host' key'. pinned lib d host' key' \<longrightarrow> pinned lib d' host' key') \<and>
    (lib_knownhosts_check lib d host remote key = KeyError [] err \<longrightarrow> res = None \<and> pinned lib d' host key)"
  proof (cases "\<exists>err. lib_knownhosts_check lib d host remote key = KeyError [] err")
    case False
    then have "d' = d" "e' = e" using accept_new_known(1) [of lib d host remote key path e] assms(4) by auto
    with False assms(2) show ?thesis by auto
  next
    case True
    then obtain err1 where unknown: "lib_knownhosts_check lib d host remote key = KeyError [] err1" by blast
    from assms(2) obtain content where io: "en_io e = (\<lambda>_. None)" and c: "en_files e path = Some content"
      "terminated content" "lib_knownhosts_New lib content = Inr d" unfolding synced_def by blast
    let ?new = "content @ lib_knownhosts_Line lib host key @ [newline]"
    from assms(1) c(2,3) assms(3) unknown obtain d1 where
      d1: "lib_knownhosts_New lib ?new = Inr d1" "pinned lib d1 host key"
        "\<forall>host' key'. pinned lib d host' key' \<longrightarrow> pinned lib d1 host' key'"
      unfolding known_hosts_law_def by meson
    from append_ok [OF io c(1), of lib host key] obtain e1 where
      e1: "appendKnownHost lib path host key e = (None, e1)" "en_io e1 = (\<lambda>_. None)" "en_files e1 path = Some ?new"
      by blast
    from knownhosts_New_ok [OF e1(2,3), of lib] obtain e2 where
      e2: "knownhosts_New lib path e1 = (Inr d1, e2)" "en_io e2 = (\<lambda>_. None)" "en_files e2 = en_files e1"
      using d1(1) by auto
    have "accept_new lib path d host remote key e = (None, d1, e2)"
      by (simp add: accept_new_def unknown e1(1) e2(1))
    with assms(4) have "res = None" "d' = d1" "e' = e2" by simp_all
    moreover have "terminated ?new" by (simp add: terminated_def)
    ultimately show ?thesis using d1 e1 e2 by (auto simp: synced_def)
  qed
  then show "synced lib path d' e'" "\<forall>host' key'. pinned lib d host' key' \<longrightarrow> pinned lib d' host' key'"
    "lib_knownhosts_check lib d host remote key = KeyError [] err \<Longrightarrow> res = None \<and> pinned lib d' host key"
    by blast+
qed

text \<open>The callback over a sequence of connections.\<close>

fun accept_all ::
  "('n, 'r, 'k, 's, 'd) ssh_lib \<Rightarrow> string \<Rightarrow> (string \<times> 'r \<times> 'k) list \<Rightarrow> 'd \<Rightarrow> 'n ssh_env \<Rightarrow> 'd \<times> 'n ssh_env" where
  "accept_all lib path [] d e = (d, e)"
| "accept_all lib path ((host, remote, key) # conns) d e =
     (case accept_new lib path d host remote key e of (_, d1, e1) \<Rightarrow> accept_all lib path conns d1 e1)"

lemma accept_all_keeps:
  "known_hosts_law lib \<Longrightarrow> synced lib path d e \<Longrightarrow> \<forall>call \<in> set conns. newline \<notin> set (fst call) \<Longrightarrow>
   accept_all lib path conns d e = (d', e') \<Longrightarrow> pinned lib d host key \<Longrightarrow> pinned lib d' host key"
proof (induction lib path conns d e rule: accept_all.induct)
  case (1 lib path d e)
  then show ?case by simp
next
  case (2 lib path h r k conns d e)
  obtain res d1 e1 where s: "accept_new lib path d h r k e = (res, d1, e1)" by (metis surj_pair)
  have h: "newline \<notin> set h" using "2.prems"(3) by simp
  note st = accept_new_step [OF "2.prems"(1,2) h s]
  show ?case
  proof (rule "2.IH" [OF s [symmetric] refl "2.prems"(1) st(1)])
    show "\<forall>call \<in> set conns. newline \<notin> set (fst call)" using "2.prems"(3) by simp
    show "accept_all lib path conns d1 e1 = (d', e')" using "2.prems"(4) s by simp
    show "pinned lib d1 host key" using st(2) "2.prems"(5) by blast
  qed
qed

lemma pinned_decides:
  assumes "pinned lib d host key"
  shows "fst (accept_new lib path d host remote k e) = None \<longleftrightarrow> k = key"
proof (cases "k = key")
  case True
  then show ?thesis using assms by (simp add: accept_new_def pinned_def)
next
  case False
  then have "refuses (lib_knownhosts_check lib d host remote k)" using assms by (simp add: pinned_def)
  with False show ?thesis by (auto simp: accept_new_def refuses_def split: verdict.splits)
qed

text \<open>A callback that returns nil has found the key or has just learned it, whatever the files do.\<close>

lemma append_success:
  assumes "appendKnownHost lib path host key e = (None, e1)"
  shows "\<exists>content. en_files e path = Some content \<and>
    en_files e1 path = Some (content @ lib_knownhosts_Line lib host key @ [newline])"
  using assms
  by (cases "en_files e path")
     (auto simp: appendKnownHost_def os_OpenAppend_def file_call_def existing_def with_handle_def
      append_line_def file_WriteString_def append_to_def newline_def tick_io_def
      split: option.splits prod.splits sum.splits if_splits)

lemma load_success:
  assumes "knownhosts_New lib path e = (Inr d, e1)"
  shows "en_files e1 = en_files e \<and> (\<exists>content. en_files e path = Some content \<and> lib_knownhosts_New lib content = Inr d)"
  using assms
  by (cases "en_files e path")
     (auto simp: knownhosts_New_def os_ReadFile_def file_call_def existing_def tick_io_def
      split: option.splits prod.splits sum.splits)

lemma accept_new_accepts:
  assumes "accept_new lib path d host remote key e = (None, d', e')"
  shows "lib_knownhosts_check lib d host remote key = Accepted \<and> d' = d \<and> e' = e \<or>
    (\<exists>err content. lib_knownhosts_check lib d host remote key = KeyError [] err \<and>
       en_files e path = Some content \<and>
       en_files e' path = Some (content @ lib_knownhosts_Line lib host key @ [newline]) \<and>
       lib_knownhosts_New lib (content @ lib_knownhosts_Line lib host key @ [newline]) = Inr d')"
proof (cases "\<exists>err. lib_knownhosts_check lib d host remote key = KeyError [] err")
  case False
  with accept_new_known [of lib d host remote key path e] assms show ?thesis by auto
next
  case True
  then obtain err where u: "lib_knownhosts_check lib d host remote key = KeyError [] err" by blast
  with assms obtain e1 where a: "appendKnownHost lib path host key e = (None, e1)"
    and l: "knownhosts_New lib path e1 = (Inr d', e')"
    by (auto simp: accept_new_def split: prod.splits option.splits sum.splits)
  from append_success [OF a] load_success [OF l] u show ?thesis by auto
qed

section \<open>What has to happen before a command runs\<close>

lemma closing_result: "closing h body (c, e) = (x, c', e') \<Longrightarrow> \<exists>e1 e2. body (c, e1) = (x, c', e2)"
  by (auto simp: closing_def with_handle_def split: prod.splits)

lemma on_net_files: "on_net f e = (x, e') \<Longrightarrow> en_files e' = en_files e"
  by (auto simp: on_net_def split: prod.splits)

lemma exec_client: "exec_command lib cmd (c, e) = (x, c', e') \<Longrightarrow> c' = c"
  by (auto simp: exec_command_def Let_def split: prod.splits select_case.splits option.splits)

lemma session_client: "open_session lib cmd (c, e) = (x, c', e') \<Longrightarrow> c' = c"
  by (auto simp: open_session_def split: prod.splits option.splits dest!: closing_result exec_client)

lemma handshake_accepted:
  assumes "handshake lib lh cmd remote (c, e) = ((output, err), c', e')" and "err = None \<or> output \<noteq> []"
  shows "\<exists>key n n1 e1 e2. lib_KeyExchange lib (lh_address lh) n = (Inr key, n1) \<and> en_files e1 = en_files e \<and>
    run_callback lib (cl_callback c) (lh_address lh) remote key e1 = (None, cl_callback c', e2)"
proof -
  obtain key e1 where k: "on_net (lib_KeyExchange lib (lh_address lh)) e = (Inr key, e1)"
    using assms by (auto simp: handshake_def split: prod.splits sum.splits)
  obtain cb e2 where r: "run_callback lib (cl_callback c) (lh_address lh) remote key e1 = (None, cb, e2)"
    using assms k by (auto simp: handshake_def split: prod.splits option.splits)
  have "cl_callback c' = cb"
    using assms k r by (auto simp: handshake_def split: prod.splits option.splits dest!: closing_result session_client)
  moreover from k obtain n1 where "lib_KeyExchange lib (lh_address lh) (en_net e) = (Inr key, n1)"
    by (auto simp: on_net_def split: prod.splits)
  ultimately show ?thesis using r on_net_files [OF k] by blast
qed

lemma dial_accepted:
  assumes "dial lib lh cmd (c, e) = ((output, err), c', e')" and "err = None \<or> output \<noteq> []"
  shows "\<exists>remote key n n1 e1 e2. lib_KeyExchange lib (lh_address lh) n = (Inr key, n1) \<and> en_files e1 = en_files e \<and>
    run_callback lib (cl_callback c) (lh_address lh) remote key e1 = (None, cl_callback c', e2)"
proof -
  from assms obtain remote e1 where d: "on_net (lib_Dial lib (cl_timeout c) (lh_address lh)) e = (Inr remote, e1)"
    by (auto simp: dial_def split: prod.splits sum.splits)
  with assms(1) obtain e2 where "closing TCP_conn (handshake lib lh cmd remote) (c, e1) = ((output, err), c', e')"
    and "e2 = e1\<lparr>en_open := TCP_conn # en_open e1\<rparr>" by (simp add: dial_def)
  then obtain e3 where "handshake lib lh cmd remote (c, e2) = ((output, err), c', e3)"
    by (auto simp: closing_def with_handle_def split: prod.splits)
  from handshake_accepted [OF this assms(2)] \<open>e2 = _\<close> on_net_files [OF d] show ?thesis by auto
qed

section \<open>The private key\<close>

lemma replace_pair_free: "CHR 0x5C \<notin> set s \<Longrightarrow> replace_pair (CHR 0x5C) b c (s @ t) = s @ replace_pair (CHR 0x5C) b c t"
proof (induction s)
  case (Cons x s)
  then have "replace_pair (CHR 0x5C) b c (x # s @ t) = x # replace_pair (CHR 0x5C) b c (s @ t)"
    by (cases "s @ t") auto
  with Cons show ?case by simp
qed simp

lemma unescape_lines:
  assumes "\<forall>l \<in> set ls. CHR 0x5C \<notin> set l"
  shows "replace_pair (CHR 0x5C) (CHR ''n'') (CHR 0x0A) (join_strings escaped_newline ls) = join_strings [CHR 0x0A] ls"
  using assms
proof (induction "escaped_newline" ls rule: join_strings.induct)
  case (2 l)
  then show ?case using replace_pair_free [of l _ _ "[]"] by simp
next
  case (3 x y ls)
  then show ?case by (simp add: replace_pair_free escaped_newline_def)
qed simp

lemma str_contains_append: "str_contains (s @ t) p" if "str_contains t p"
  using that by (induction s) auto

lemma has_prefix_self: "has_prefix (p @ t) p"
  by (simp add: has_prefix_def)

lemma str_contains_prefix: "str_contains (p @ t) p"
  using has_prefix_self [of p t] by (cases "p @ t") simp_all

lemma no_newline: "newline \<notin> set s \<Longrightarrow> \<not> str_contains s [newline]"
  by (induction s) (auto simp: has_prefix_def)

section \<open>A sample\<close>

text \<open>A library whose database is the text of the file and whose keys are two.\<close>

definition sample_line :: "string \<Rightarrow> bool \<Rightarrow> string" where
  "sample_line host key = host @ (if key then ''!'' else ''?'')"

definition sample_keys :: "string \<Rightarrow> string \<Rightarrow> bool list" where
  "sample_keys content host = filter (\<lambda>k. sample_line host k \<in> set (split_lines content)) [False, True]"

definition sample_lib :: "(nat, unit, bool, unit, string) ssh_lib" where
  "sample_lib = \<lparr>lib_Dial = (\<lambda>timeout address n. (Inr (), Suc n)),
     lib_KeyExchange = (\<lambda>address n. (Inr True, Suc n)),
     lib_Authenticate = (\<lambda>user signer n. (None, n)), lib_HandshakeError = Wrap ''ssh: handshake failed'',
     lib_NewSession = (\<lambda>n. (None, n)), lib_Exec = (\<lambda>command n. ((RunReturned None, [''1'', ''.9'']), n)),
     lib_ParsePrivateKey = (\<lambda>key. Inr ()), lib_ParsePrivateKeyWithPassphrase = (\<lambda>key pass. Inr ()),
     lib_knownhosts_New = Inr,
     lib_knownhosts_check = (\<lambda>content host remote key. let keys = sample_keys content host in
       if key \<in> set keys then Accepted else KeyError keys (Err ''knownhosts: key'')),
     lib_knownhosts_Line = sample_line\<rparr>"

lemma sample_line_eq: "sample_line h k = sample_line h' k' \<longleftrightarrow> h = h' \<and> k = k'"
  by (auto simp: sample_line_def split: if_splits)

lemma sample_law: "known_hosts_law sample_lib"
  unfolding known_hosts_law_def
proof (intro allI impI)
  fix content d host remote key err
  assume t: "terminated content" and h: "newline \<notin> set host" and d: "lib_knownhosts_New sample_lib content = Inr d"
    and u: "lib_knownhosts_check sample_lib d host remote key = KeyError [] err"
  let ?new = "content @ lib_knownhosts_Line sample_lib host key @ [newline]"
  have d': "d = content" using d by (simp add: sample_lib_def)
  have line: "newline \<notin> set (sample_line host key)" using h by (simp add: sample_line_def newline_def)
  have none: "sample_keys content host = []"
    using u unfolding d' by (auto simp: sample_lib_def Let_def split: if_splits)
  have keys: "k \<in> set (sample_keys ?new h') \<longleftrightarrow> k \<in> set (sample_keys content h') \<or> h' = host \<and> k = key" for h' k
    using t line by (cases k) (auto simp: sample_keys_def sample_lib_def split_lines_append sample_line_eq)
  have pin: "pinned sample_lib c h' k \<longleftrightarrow> set (sample_keys c h') = {k}" for c h' k
  proof -
    have "pinned sample_lib c h' k \<longleftrightarrow> k \<in> set (sample_keys c h') \<and>
        (\<forall>x. x \<noteq> k \<longrightarrow> x \<notin> set (sample_keys c h') \<and> sample_keys c h' \<noteq> [])"
      by (simp add: pinned_def sample_lib_def refuses_def Let_def)
    also have "\<dots> \<longleftrightarrow> set (sample_keys c h') = {k}"
      using length_pos_if_in_set [of k "sample_keys c h'"] by (simp only: length_greater_0_conv) blast
    finally show ?thesis .
  qed
  have "set (sample_keys ?new host) = {key}" using keys none by auto
  moreover have "set (sample_keys ?new h') = {k}" if "set (sample_keys content h') = {k}" for h' k
    using keys none that by (cases "h' = host") auto
  ultimately show "\<exists>d'. lib_knownhosts_New sample_lib ?new = Inr d' \<and> pinned sample_lib d' host key \<and>
      (\<forall>host' key'. pinned sample_lib d host' key' \<longrightarrow> pinned sample_lib d' host' key')"
    unfolding pin d' by (simp add: sample_lib_def)
qed

definition sample_env :: "nat ssh_env" where
  "sample_env = \<lparr>en_net = 0, en_files = [''/hosts'' \<mapsto> []], en_io = (\<lambda>_. None), en_io_calls = 0,
     en_clock = (\<lambda>n. \<lparr>wall = int (Suc n), mono = None\<rparr>), en_reads = 0, en_open = []\<rparr>"

lemma sample_synced: "synced sample_lib ''/hosts'' [] sample_env"
  by (simp add: synced_def sample_env_def terminated_def sample_lib_def)

lemma sample_unknown: "\<exists>err. lib_knownhosts_check sample_lib [] host remote key = KeyError [] err"
  by (simp add: sample_lib_def sample_keys_def Let_def)

section \<open>Properties\<close>



text \<open>C16 Whatever the file system does, the accept-new callback accepts a key only if the loaded
  database accepts it, changing nothing, or if the host was unknown, and then the file is what it
  was with the line of this key at the end and is the database loaded from then on. A key that
  differs from the known ones is refused and nothing is written.\<close>

theorem accepted_keys_known:
  assumes "accept_new lib path d host remote key e = (res, d', e')"
  shows "if \<exists>err. lib_knownhosts_check lib d host remote key = KeyError [] err
    then res = None \<longleftrightarrow> (\<exists>content. res = None \<and> en_files e path = Some content \<and>
       en_files e' path = Some (content @ lib_knownhosts_Line lib host key @ [newline]) \<and>
       lib_knownhosts_New lib (content @ lib_knownhosts_Line lib host key @ [newline]) = Inr d')
    else (res = None \<longleftrightarrow> lib_knownhosts_check lib d host remote key = Accepted) \<and> d' = d \<and> e' = e"
proof (cases "\<exists>err. lib_knownhosts_check lib d host remote key = KeyError [] err")
  case True
  then show ?thesis
    using accept_new_accepts [of lib path d host remote key e d' e'] assms by (cases res) auto
next
  case False
  then have "\<And>err. lib_knownhosts_check lib d host remote key \<noteq> KeyError [] err" by blast
  from accept_new_known [where path = path and e = e, OF this] False assms show ?thesis by simp
qed

lemma accepted_keys_known_witness:
  "\<exists>e'. accept_new sample_lib ''/hosts'' [] ''lh'' () True sample_env = (None, ''lh!'' @ [newline], e')"
proof -
  obtain res d' e' where s: "accept_new sample_lib ''/hosts'' [] ''lh'' () True sample_env = (res, d', e')"
    by (metis surj_pair)
  have h: "newline \<notin> set ''lh''" by (simp add: newline_def)
  obtain err where u: "lib_knownhosts_check sample_lib [] ''lh'' () True = KeyError [] err"
    using sample_unknown by blast
  have "res = None" using accept_new_step(3) [OF sample_law sample_synced h s u] by simp
  with accepted_keys_known [OF s] u s show ?thesis
    by (auto simp: sample_env_def sample_lib_def sample_line_def)
qed

text \<open>C38 The line of a learned key stands on its own exactly when the known_hosts file ended in a
  newline or was empty; otherwise it is glued to the last line of the file.\<close>

theorem learned_line_separate_iff:
  assumes "appendKnownHost lib path host key e = (None, e')" and "en_files e path = Some content"
    and "newline \<notin> set (lib_knownhosts_Line lib host key)"
  shows "split_lines (the (en_files e' path)) =
      (if terminated content then split_lines content @ [lib_knownhosts_Line lib host key]
       else butlast (split_lines content) @ [last (split_lines content) @ lib_knownhosts_Line lib host key])"
  using append_success [OF assms(1)] assms(2) split_lines_append [OF assms(3), of content] by auto

lemma learned_line_separate_iff_witness:
  "\<exists>e'. appendKnownHost sample_lib ''/hosts'' ''b'' True (sample_env\<lparr>en_files := [''/hosts'' \<mapsto> ''a!'']\<rparr>) = (None, e') \<and>
     split_lines (the (en_files e' ''/hosts'')) = [''a!b!'']"
proof -
  let ?e = "sample_env\<lparr>en_files := [''/hosts'' \<mapsto> ''a!'']\<rparr>"
  obtain e' where a: "appendKnownHost sample_lib ''/hosts'' ''b'' True ?e = (None, e')"
    using append_ok [of ?e "''/hosts''" "''a!''" sample_lib "''b''" True] by (auto simp: sample_env_def)
  have "newline \<notin> set (lib_knownhosts_Line sample_lib ''b'' True)"
    by (simp add: sample_lib_def sample_line_def newline_def)
  from learned_line_separate_iff [OF a _ this] a show ?thesis
    by (auto simp: terminated_def newline_def sample_lib_def sample_line_def)
qed

text \<open>C17 No command runs on a host whose key was not accepted: a run that succeeds or has any output
  went through a key exchange whose key the client's host key callback accepted, with the files
  as they were at the start of the run. On every outcome the run leaves no handle open.\<close>

theorem run_needs_accepted_key:
  assumes "Run_client lib lh cmd (c, e) = (r, c', e')"
  shows "en_open e' = en_open e \<and> (cr_err r = None \<or> cr_output r \<noteq> [] \<longrightarrow>
    (\<exists>remote key n n1 e1 e2.
      lib_KeyExchange lib (lh_address lh) n = (Inr key, n1) \<and> en_files e1 = en_files e \<and>
      run_callback lib (cl_callback c) (lh_address lh) remote key e1 = (None, cl_callback c', e2)))"
proof -
  obtain t e1 where t: "time_now e = (t, e1)" by fastforce
  obtain out err c2 e2 where d: "dial lib lh cmd (c, e1) = ((out, err), c2, e2)" by (metis surj_pair)
  have r: "cr_output r = out" "cr_err r = err" "c' = c2" and f: "en_files e1 = en_files e"
    using assms t d by (auto simp: Run_client_def time_now_def)
  have "en_open e' = en_open e" using Run_client_frame(1) [OF assms] by (simp add: framed_def)
  moreover note dial_accepted [OF d]
  ultimately show ?thesis unfolding r f by blast
qed

lemma run_needs_accepted_key_witness:
  "\<exists>r c' e'. Run_client sample_lib \<lparr>lh_name = ''eu1'', lh_user = ''nebula'', lh_address = ''lh''\<rparr> ''version''
      (\<lparr>cl_signer = (), cl_callback = AcceptNew ''/hosts'' [], cl_timeout = 1\<rparr>, sample_env) = (r, c', e') \<and>
     en_open e' = []"
proof -
  obtain r c' e' where run: "Run_client sample_lib \<lparr>lh_name = ''eu1'', lh_user = ''nebula'', lh_address = ''lh''\<rparr>
      ''version'' (\<lparr>cl_signer = (), cl_callback = AcceptNew ''/hosts'' [], cl_timeout = 1\<rparr>, sample_env) = (r, c', e')"
    by (metis surj_pair)
  from run_needs_accepted_key [OF run] run show ?thesis by (simp add: sample_env_def)
qed

text \<open>C37 A private key given on one line with escaped newlines is restored to its lines.\<close>

theorem escaped_key_restored:
  assumes "\<forall>l \<in> set ls. CHR 0x5C \<notin> set l \<and> newline \<notin> set l" and "tidy (join_strings escaped_newline ls)"
  shows "normalizePrivateKey (join_strings escaped_newline ls) = join_strings [newline] ls @ [newline]"
proof -
  let ?v = "join_strings escaped_newline ls"
  have "newline \<notin> set ?v"
    using assms(1)
    by (induction "escaped_newline" ls rule: join_strings.induct) (auto simp: escaped_newline_def newline_def)
  then have no: "\<not> str_contains ?v [CHR 0x0A]" using no_newline [of ?v] by (simp add: newline_def)
  have trim: "TrimSpace ?v = ?v" by (rule TrimSpace_tidy [OF assms(2)])
  show ?thesis
  proof (cases "\<exists>x y rest. ls = x # y # rest")
    case True
    then obtain x y rest where ls: "ls = x # y # rest" by blast
    have "str_contains ?v escaped_newline"
      unfolding ls join_strings.simps by (intro str_contains_append str_contains_prefix)
    then show ?thesis
      using unescape_lines [of ls] assms(1) no trim by (simp add: normalizePrivateKey_def Let_def newline_def)
  next
    case False
    then consider "ls = []" | l where "ls = [l]" by (metis list.exhaust)
    then show ?thesis
    proof cases
      case 1
      with assms(2) show ?thesis by (simp add: tidy_def)
    next
      case (2 l)
      have "replace_pair (CHR 0x5C) (CHR ''n'') (CHR 0x0A) l = l"
        using unescape_lines [of "[l]"] assms(1) 2 by simp
      with 2 trim show ?thesis by (simp add: normalizePrivateKey_def Let_def newline_def)
    qed
  qed
qed

lemma escaped_key_restored_witness:
  "normalizePrivateKey ([CHR ''a''] @ [CHR 0x5C, CHR ''n''] @ [CHR ''b'']) = [CHR ''a'', newline, CHR ''b'', newline]"
  using escaped_key_restored [of "[''a'', ''b'']"]
  by (simp add: escaped_newline_def newline_def tidy_def visible_def)

end
