(* ===== verification/Http_Server.thy ===== *)
theory Http_Server
  imports Prometheus_SD Storage
begin

text \<open>
  \<open>internal/httpserver/server.go\<close>: the routes of the server and their handlers, as functions
  of the readiness flag and the store. A path is looked up as it is (the mux cleans it before);
  the reply of promhttp's handler is a parameter. Headers that net/http adds on its own are not
  part of a response.
\<close>

record 's http_store =
  op_Ping :: "('s, unit) act"
  op_ListPresentHostmapPeers :: "('s, PresentPeer list) act"

definition plain_reply :: "string \<Rightarrow> response" where
  "plain_reply text = \<lparr>rs_status = 200, rs_headers = Map.empty, rs_body = Text text\<rparr>"

definition healthz :: response where
  "healthz = plain_reply (''ok'' @ [CHR 0x0A])"

definition readyz :: "'s http_store \<Rightarrow> bool \<Rightarrow> 's \<Rightarrow> response \<times> 's" where
  "readyz st ready s =
     (if \<not> ready then (http_error ''starting'' 503 Map.empty, s)
      else case op_Ping st s of
        (Inl err, s1) \<Rightarrow> (http_error (error_text err) 503 Map.empty, s1)
      | (Inr _, s1) \<Rightarrow> (plain_reply (''ready'' @ [CHR 0x0A]), s1))"

definition serve ::
  "PrometheusSDConfig \<Rightarrow> Lighthouse list \<Rightarrow> 's http_store \<Rightarrow> response \<Rightarrow> bool \<Rightarrow> string \<times> string \<Rightarrow> 's \<Rightarrow> response \<times> 's" where
  "serve sd lighthouses st promhttp ready request s =
     (case request of (method, path) \<Rightarrow>
        if path = ''/healthz'' then (healthz, s)
        else if path = ''/readyz'' then readyz st ready s
        else if path = ''/metrics'' then (promhttp, s)
        else if path = ''/prometheus-sd'' then
          prometheusSDHandler sd lighthouses (op_ListPresentHostmapPeers st) method s
        else (http_error ''404 page not found'' 404 Map.empty, s))"

record 's http_server =
  srv_addr :: string
  srv_read_header_timeout :: i64
  srv_handler :: "response \<Rightarrow> bool \<Rightarrow> string \<times> string \<Rightarrow> 's \<Rightarrow> response \<times> 's"

definition Start :: "HTTPConfig \<Rightarrow> PrometheusSDConfig \<Rightarrow> Lighthouse list \<Rightarrow> 's http_store \<Rightarrow> 's http_server" where
  "Start cfg sd lighthouses st =
     \<lparr>srv_addr = http_address cfg, srv_read_header_timeout = 5000000000, srv_handler = serve sd lighthouses st\<rparr>"

text \<open>
  The two goroutines of \<open>Start\<close>: what each reports to the log when its call returns. A
  context that is done makes the second shut the server down, so the first gets
  \<open>ErrServerClosed\<close>, which is not reported.
\<close>

definition listen_report :: "go_error \<Rightarrow> go_error option \<Rightarrow> go_error option" where
  "listen_report ErrServerClosed err =
     (case err of None \<Rightarrow> None | Some e \<Rightarrow> if e \<noteq> ErrServerClosed then Some e else None)"

definition shutdown_report :: "go_error option \<Rightarrow> go_error option" where
  "shutdown_report err = err"

text \<open>The store behind the server.\<close>

definition db_http_store :: "(string \<Rightarrow> string \<Rightarrow> bool) \<Rightarrow> world http_store" where
  "db_http_store coll = \<lparr>op_Ping = Ping, op_ListPresentHostmapPeers = ListPresentHostmapPeers coll\<rparr>"

lemma ping_reply: "fst (Ping w) = (case faults w (calls w) of None \<Rightarrow> Inr () | Some (Refused e) \<Rightarrow> Inl e | Some (ReplyLost e) \<Rightarrow> Inl e)"
  by (simp add: Ping_def exec_def split: option.splits fault.splits)

text \<open>No request changes a row of the database.\<close>

lemma ping_tables: "tables (snd (Ping w)) = tables w"
  by (simp add: Ping_def exec_def split: option.splits fault.splits)

lemma list_tables: "tables (snd (ListPresentHostmapPeers coll w)) = tables w"
  by (auto simp: ListPresentHostmapPeers_def bindE_def wrapE_def ListPresentPeers_def exec_def
      sql_list_present_peers_def split: option.splits fault.splits prod.splits sum.splits)

lemma sd_handler_state:
  "snd (prometheusSDHandler cfg ls list_peers method s) \<in> {s, snd (list_peers s)}"
  by (auto simp: prometheusSDHandler_def split: prod.splits sum.splits)

lemma serve_tables: "tables (snd (serve sd ls (db_http_store coll) promhttp ready req w)) = tables w"
proof -
  have r: "tables (snd (readyz (db_http_store coll) ready w)) = tables w"
    using ping_tables [of w] by (auto simp: readyz_def db_http_store_def split: prod.splits sum.splits)
  have "tables (snd (prometheusSDHandler sd ls (ListPresentHostmapPeers coll) (fst req) w)) \<in> {tables w}"
    using sd_handler_state [of sd ls "ListPresentHostmapPeers coll" "fst req" w] list_tables [of coll w] by auto
  then have h: "tables (snd (prometheusSDHandler sd ls (op_ListPresentHostmapPeers (db_http_store coll)) (fst req) w)) = tables w"
    by (simp add: db_http_store_def)
  show ?thesis
    unfolding serve_def split_beta using r h by (simp only: if_split split: if_split) simp
qed

section \<open>Properties\<close>

text \<open>C25 The probes: liveness is reported whatever the state of the program; readiness is reported
  exactly when the ready flag is set and the database answers a ping, with 503 otherwise; no
  request of any kind changes the tables.\<close>

theorem probes_exact:
  "srv_handler (Start cfg sd ls (db_http_store coll)) promhttp ready (method, ''/healthz'') w = (healthz, w) \<and>
   rs_status healthz = 200 \<and>
   rs_status (fst (srv_handler (Start cfg sd ls (db_http_store coll)) promhttp ready (method, ''/readyz'') w)) =
     (if ready \<and> faults w (calls w) = None then 200 else 503) \<and>
   tables (snd (srv_handler (Start cfg sd ls (db_http_store coll)) promhttp ready req w)) = tables w"
proof (intro conjI)
  show "rs_status (fst (srv_handler (Start cfg sd ls (db_http_store coll)) promhttp ready (method, ''/readyz'') w)) =
     (if ready \<and> faults w (calls w) = None then 200 else 503)"
    using ping_reply [of w]
    by (auto simp: Start_def serve_def readyz_def db_http_store_def http_error_def plain_reply_def
        split: prod.splits sum.splits option.splits fault.splits)
  show "tables (snd (srv_handler (Start cfg sd ls (db_http_store coll)) promhttp ready req w)) = tables w"
    using serve_tables by (simp add: Start_def del: split_paired_All)
qed (simp_all add: Start_def serve_def healthz_def plain_reply_def)

end
