(* ===== verification/Migrate.thy ===== *)
theory Migrate
  imports Go_Strings
begin

text \<open>
  \<open>internal/migrate\<close>. The pool, the embedded files and the tern migrator are operations on a
  state \<open>'m\<close>: of connections \<open>'c\<close>, file trees \<open>'f\<close> and migrators \<open>'g\<close>.
\<close>

record ('m, 'c, 'f, 'g) tern =
  mg_Acquire :: "('m, 'c) act"
  mg_Release :: "'c \<Rightarrow> 'm \<Rightarrow> 'm"
  mg_Sub :: "string \<Rightarrow> ('m, 'f) act"
  mg_NewMigrator :: "'c \<Rightarrow> string \<Rightarrow> ('m, 'g) act"
  mg_LoadMigrations :: "'g \<Rightarrow> 'f \<Rightarrow> ('m, 'g) act"
  mg_Migrate :: "'g \<Rightarrow> ('m, unit) act"

definition runSet :: "('m, 'c, 'f, 'g) tern \<Rightarrow> 'c \<Rightarrow> string \<Rightarrow> string \<Rightarrow> ('m, unit) act" where
  "runSet t conn versionTable dir =
     bindE (wrapE (''open embedded '' @ dir @ '' migrations'') (mg_Sub t dir)) (\<lambda>fsys.
     bindE (wrapE (''initialize '' @ dir @ '' migrator'') (mg_NewMigrator t conn versionTable)) (\<lambda>migrator.
     bindE (wrapE (''load '' @ dir @ '' migrations'') (mg_LoadMigrations t migrator fsys)) (\<lambda>migrator.
     wrapE (''run '' @ dir @ '' migrations'') (mg_Migrate t migrator))))"

definition run_sets :: "('m, 'c, 'f, 'g) tern \<Rightarrow> bool \<Rightarrow> 'c \<Rightarrow> ('m, unit) act" where
  "run_sets t enableTimescale conn =
     bindE (runSet t conn ''public.mnemo_schema_version'' ''core'') (\<lambda>_.
     bindE (if enableTimescale then runSet t conn ''public.mnemo_timescale_version'' ''timescale'' else ret ()) (\<lambda>_.
     runSet t conn ''public.mnemo_views_version'' ''views''))"

definition Run_migrate :: "('m, 'c, 'f, 'g) tern \<Rightarrow> bool \<Rightarrow> ('m, unit) act" where
  "Run_migrate t enableTimescale m =
     (case mg_Acquire t m of
        (Inl err, m1) \<Rightarrow> (Inl (Wrap ''acquire migration connection'' err), m1)
      | (Inr conn, m1) \<Rightarrow>
          (case run_sets t enableTimescale conn m1 of (r, m2) \<Rightarrow> (r, mg_Release t conn m2)))"

text \<open>The sets are run one after the other until one fails.\<close>

definition migration_sets :: "bool \<Rightarrow> (string \<times> string) list" where
  "migration_sets enableTimescale = [(''public.mnemo_schema_version'', ''core'')] @
     (if enableTimescale then [(''public.mnemo_timescale_version'', ''timescale'')] else []) @
     [(''public.mnemo_views_version'', ''views'')]"

lemma bindE_assoc: "bindE (bindE m f) g = bindE m (\<lambda>x. bindE (f x) g)"
  by (intro ext) (simp add: bindE_def split: prod.splits sum.splits)

lemma bindE_ret_right: "bindE m ret = m"
  by (intro ext) (auto simp: bindE_def split: prod.splits sum.splits)

lemma bindE_ret_left: "bindE (ret x) f = f x"
  by (intro ext) (simp add: bindE_def)

lemma run_sets_foreach:
  "run_sets t enableTimescale conn = foreach (\<lambda>(v, dir). runSet t conn v dir) (migration_sets enableTimescale)"
  by (simp add: run_sets_def migration_sets_def bindE_ret_right bindE_ret_left)

end
