(* ===== verification/Telemetry.thy ===== *)
theory Telemetry
  imports Config
begin

text \<open>
  \<open>internal/telemetry\<close>: which exporter and sampler \<open>Init\<close> asks of the OpenTelemetry SDK,
  whose constructors are parameters, and what it returns to be called at the end.
\<close>

datatype otlp_option = WithEndpointURL string | WithEndpoint string | WithInsecure

record ('x, 'r) otel_sdk =
  sdk_exporter :: "otlp_option list \<Rightarrow> 'x result"
  sdk_resource :: "string \<Rightarrow> 'r result"

text \<open>The provider: a batcher over the exporter, the resource and the ratio of the sampler.\<close>

datatype ('x, 'r) shutdown = Nothing_to_shut_down | Provider 'x 'r gofloat

definition exporter_options :: "string \<Rightarrow> otlp_option list" where
  "exporter_options endpoint =
     (if has_prefix endpoint ''http://'' \<or> has_prefix endpoint ''https://'' then [WithEndpointURL endpoint]
      else [WithEndpoint endpoint, WithInsecure])"

text \<open>
  What is registered with the OpenTelemetry library: the tracer provider and the propagator, here
  whether \<open>propagation.TraceContext\<close> was set. A failing \<open>Init\<close> registers nothing.
\<close>

record ('x, 'r) otel_globals =
  og_provider :: "('x, 'r) shutdown"
  og_trace_context :: bool

definition Init ::
  "('x, 'r) otel_sdk \<Rightarrow> OTELConfig \<Rightarrow> (('x, 'r) otel_globals, ('x, 'r) shutdown) act" where
  "Init sdk cfg g =
     (if \<not> otel_enabled cfg then (Inr Nothing_to_shut_down, g)
      else case sdk_exporter sdk (exporter_options (otel_endpoint cfg)) of
        Inl err \<Rightarrow> (Inl err, g)
      | Inr exporter \<Rightarrow>
          (case sdk_resource sdk (otel_service_name cfg) of
             Inl err \<Rightarrow> (Inl err, g)
           | Inr res \<Rightarrow>
               (let provider = Provider exporter res (otel_sample_ratio cfg)
                in (Inr provider, g\<lparr>og_provider := provider, og_trace_context := True\<rparr>))))"

lemma Init_disabled: "\<not> otel_enabled cfg \<Longrightarrow> Init sdk cfg g = (Inr Nothing_to_shut_down, g)"
  by (simp add: Init_def)

text \<open>What is to be shut down is what was registered.\<close>

lemma Init_registers:
  "Init sdk cfg g = (r, g') \<Longrightarrow> g' = g \<and> (isl r \<or> \<not> otel_enabled cfg) \<or>
     r = Inr (og_provider g') \<and> og_trace_context g' \<and> otel_enabled cfg"
  by (auto simp: Init_def Let_def split: if_splits sum.splits)

end
