(* ===== verification/Program.thy ===== *)
theory Program
  imports Telemetry Migrate Http_Server Collector
begin

text \<open>
  \<open>cmd/nebula-mnemosina\<close>: the order in which \<open>run\<close> starts, uses and releases the parts. The
  parts are operations on a state \<open>'s\<close>; \<open>pg_go_http\<close> and \<open>pg_go_retention\<close> start
  goroutines, \<open>pg_ready\<close> is \<open>ready.Store(true)\<close>. A collector that has not
  returned (its schedule or its ticks run out, or it panics) makes the result None. The trace theorem runs it on operations
  that only record themselves and fail as prescribed.
\<close>

datatype time_function = NowUTC

datatype os_signal = SIGINT | SIGTERM

record log_options =
  lo_level :: int
  lo_report_timestamp :: bool
  lo_time_function :: time_function
  lo_time_format :: string

definition logger_options :: "int \<Rightarrow> log_options" where
  "logger_options level = \<lparr>lo_level = level, lo_report_timestamp = True, lo_time_function = NowUTC,
     lo_time_format = ''2006-01-02T15:04:05Z07:00''\<rparr>"

record ('s, 'x, 'p, 'c) program =
  pg_ParseLevel :: "string \<Rightarrow> int result"
  pg_SetDefault :: "log_options \<Rightarrow> 's \<Rightarrow> 's"
  pg_NotifyContext :: "os_signal list \<Rightarrow> 's \<Rightarrow> 's"
  pg_stop :: "'s \<Rightarrow> 's"
  pg_telemetry_Init :: "OTELConfig \<Rightarrow> ('s, 'x) act"
  pg_telemetry_Shutdown :: "'x \<Rightarrow> 's \<Rightarrow> 's"
  pg_pool_New :: "string \<Rightarrow> ('s, 'p) act"
  pg_pool_Close :: "'p \<Rightarrow> 's \<Rightarrow> 's"
  pg_go_http :: "Config \<Rightarrow> 'p \<Rightarrow> 's \<Rightarrow> 's"
  pg_migrate_Run :: "'p \<Rightarrow> bool \<Rightarrow> ('s, unit) act"
  pg_ready :: "'s \<Rightarrow> 's"
  pg_ssh_New :: "SSHConfig \<Rightarrow> ('s, 'c) act"
  pg_go_retention :: "Config \<Rightarrow> 'p \<Rightarrow> 's \<Rightarrow> 's"
  pg_collector_Run :: "Config \<Rightarrow> 'c \<Rightarrow> 'p \<Rightarrow> 's \<Rightarrow> (go_error option \<times> 's) option"

text \<open>From the SSH client to the end of the collector.\<close>

definition run_service :: "('s, 'x, 'p, 'c) program \<Rightarrow> Config \<Rightarrow> 'p \<Rightarrow> 's \<Rightarrow> (go_error option \<times> 's) option" where
  "run_service pg cfg pool s =
     (case pg_ssh_New pg (cli_ssh (cfg_cli cfg)) s of
        (Inl err, s1) \<Rightarrow> Some (Some (Wrap ''initialize ssh client'' err), s1)
      | (Inr client, s1) \<Rightarrow>
          (let s2 = (if \<not> cli_once (cfg_cli cfg) then pg_go_retention pg cfg pool s1 else s1) in
           case pg_collector_Run pg cfg client pool s2 of
             None \<Rightarrow> None
           | Some (err, s3) \<Rightarrow>
               Some ((case err of None \<Rightarrow> None | Some e \<Rightarrow> if errors_is e Canceled then None else Some e), s3)))"

text \<open>From the HTTP server to the migrations and the ready flag.\<close>

definition run_with_pool :: "('s, 'x, 'p, 'c) program \<Rightarrow> Config \<Rightarrow> 'p \<Rightarrow> 's \<Rightarrow> (go_error option \<times> 's) option" where
  "run_with_pool pg cfg pool s =
     (let s1 = (if http_enabled (cli_http (cfg_cli cfg)) then pg_go_http pg cfg pool s else s) in
      case (if cli_migrate (cfg_cli cfg)
            then pg_migrate_Run pg pool (cli_enable_timescale (cfg_cli cfg)) s1 else (Inr (), s1)) of
        (Inl err, s2) \<Rightarrow> Some (Some (Wrap ''run migrations'' err), s2)
      | (Inr _, s2) \<Rightarrow> run_service pg cfg pool (pg_ready pg s2))"

definition run_with_telemetry :: "('s, 'x, 'p, 'c) program \<Rightarrow> Config \<Rightarrow> 's \<Rightarrow> (go_error option \<times> 's) option" where
  "run_with_telemetry pg cfg s =
     (case pg_pool_New pg (cli_database_url (cfg_cli cfg)) s of
        (Inl err, s1) \<Rightarrow> Some (Some (Wrap ''connect database'' err), s1)
      | (Inr pool, s1) \<Rightarrow>
          map_option (\<lambda>(err, s2). (err, pg_pool_Close pg pool s2)) (run_with_pool pg cfg pool s1))"

text \<open>From the logger and the signal context, whose \<open>stop\<close> is deferred, to the telemetry.\<close>

definition run_with_logger :: "('s, 'x, 'p, 'c) program \<Rightarrow> Config \<Rightarrow> int \<Rightarrow> 's \<Rightarrow> (go_error option \<times> 's) option" where
  "run_with_logger pg cfg level s =
     map_option (\<lambda>(err, s'). (err, pg_stop pg s'))
       (case pg_telemetry_Init pg (cli_otel (cfg_cli cfg))
               (pg_NotifyContext pg [SIGINT, SIGTERM] (pg_SetDefault pg (logger_options level) s)) of
          (Inl err, s1) \<Rightarrow> Some (Some (Wrap ''initialize telemetry'' err), s1)
        | (Inr tel, s1) \<Rightarrow>
            map_option (\<lambda>(err, s2). (err, pg_telemetry_Shutdown pg tel s2)) (run_with_telemetry pg cfg s1))"

text \<open>\<open>run\<close>, given what \<open>config.Parse\<close> returned.\<close>

definition run :: "('s, 'x, 'p, 'c) program \<Rightarrow> Config result \<Rightarrow> 's \<Rightarrow> (go_error option \<times> 's) option" where
  "run pg parsed s =
     (case parsed of
        Inl err \<Rightarrow> Some (Some err, s)
      | Inr cfg \<Rightarrow>
          (case pg_ParseLevel pg (cli_log_level (cfg_cli cfg)) of
             Inl err \<Rightarrow> Some (Some (Wrap ''parse log level'' err), s)
           | Inr level \<Rightarrow> run_with_logger pg cfg level s))"

text \<open>\<open>main\<close>: what is printed to standard error and the exit status.\<close>

definition main_exit :: "('s, 'x, 'p, 'c) program \<Rightarrow> Config result \<Rightarrow> 's \<Rightarrow> (string option \<times> nat) option" where
  "main_exit pg parsed s =
     map_option (\<lambda>(err, _). case err of
        Some err \<Rightarrow> (Some (error_text err @ [CHR 0x0A]), 1)
      | None \<Rightarrow> (None, 0)) (run pg parsed s)"

text \<open>\<open>versionText\<close>; the layout is the library's \<open>promVersion.Print\<close>.\<close>

definition versionText :: "(string \<Rightarrow> string \<Rightarrow> string) \<Rightarrow> string \<Rightarrow> string" where
  "versionText Print version = Print (if version = [] then ''dev'' else version) ''nebula-mnemosina''"

section \<open>Operations that record themselves\<close>

datatype event = Logger_set log_options | Signals_caught "os_signal list" | Telemetry_up | Pool_opened | Http_started | Migrations_run | Ready | Ssh_loaded
  | Retention_started | Collector_run | Pool_closed | Telemetry_down | Signals_released

record outcomes =
  oc_level :: "int result"
  oc_telemetry :: "go_error option"
  oc_pool :: "go_error option"
  oc_migrate :: "go_error option"
  oc_ssh :: "go_error option"
  oc_collector :: "go_error option"

definition record_call :: "event \<Rightarrow> go_error option \<Rightarrow> (event list, unit) act" where
  "record_call ev err evs = ((case err of None \<Rightarrow> Inr () | Some e \<Rightarrow> Inl e), evs @ [ev])"

definition tracer :: "outcomes \<Rightarrow> (event list, unit, unit, unit) program" where
  "tracer oc = \<lparr>pg_ParseLevel = (\<lambda>_. oc_level oc),
     pg_SetDefault = (\<lambda>opts evs. evs @ [Logger_set opts]),
     pg_NotifyContext = (\<lambda>sigs evs. evs @ [Signals_caught sigs]),
     pg_stop = (\<lambda>evs. evs @ [Signals_released]),
     pg_telemetry_Init = (\<lambda>_. record_call Telemetry_up (oc_telemetry oc)),
     pg_telemetry_Shutdown = (\<lambda>_ evs. evs @ [Telemetry_down]),
     pg_pool_New = (\<lambda>_. record_call Pool_opened (oc_pool oc)),
     pg_pool_Close = (\<lambda>_ evs. evs @ [Pool_closed]),
     pg_go_http = (\<lambda>_ _ evs. evs @ [Http_started]),
     pg_migrate_Run = (\<lambda>_ _. record_call Migrations_run (oc_migrate oc)),
     pg_ready = (\<lambda>evs. evs @ [Ready]),
     pg_ssh_New = (\<lambda>_. record_call Ssh_loaded (oc_ssh oc)),
     pg_go_retention = (\<lambda>_ _ evs. evs @ [Retention_started]),
     pg_collector_Run = (\<lambda>_ _ _ evs. Some (oc_collector oc, evs @ [Collector_run]))\<rparr>"

section \<open>Properties\<close>

text \<open>C24 The life of the process, for every pattern of failures: the server is started before the
  migrations and readiness is set only after they have succeeded; the SSH client is needed before
  anything is polled; the pruner runs except with --once; the pool and the telemetry are released
  on every path that opened them, in the reverse order, the signal handler last; a cancelled collector counts as success.\<close>

theorem main_trace:
  "run (tracer oc) (Inr cfg) [] =
     Some (let cli = cfg_cli cfg;
          up = [Pool_opened] @ (if http_enabled (cli_http cli) then [Http_started] else []) @
            (if cli_migrate cli then [Migrations_run] else []);
          down = [Pool_closed, Telemetry_down, Signals_released]
      in case oc_level oc of Inl e \<Rightarrow> (Some (Wrap ''parse log level'' e), []) | Inr level \<Rightarrow>
         let start = [Logger_set (logger_options level), Signals_caught [SIGINT, SIGTERM], Telemetry_up] in
         case oc_telemetry oc of Some e \<Rightarrow> (Some (Wrap ''initialize telemetry'' e), start @ [Signals_released]) | None \<Rightarrow>
         case oc_pool oc of Some e \<Rightarrow>
           (Some (Wrap ''connect database'' e), start @ [Pool_opened, Telemetry_down, Signals_released]) | None \<Rightarrow>
         case (if cli_migrate cli then oc_migrate oc else None) of Some e \<Rightarrow>
           (Some (Wrap ''run migrations'' e), start @ up @ down) | None \<Rightarrow>
         case oc_ssh oc of Some e \<Rightarrow>
           (Some (Wrap ''initialize ssh client'' e), start @ up @ [Ready, Ssh_loaded] @ down) | None \<Rightarrow>
           (case oc_collector oc of None \<Rightarrow> None | Some e \<Rightarrow> if errors_is e Canceled then None else Some e,
            start @ up @ [Ready, Ssh_loaded] @ (if cli_once cli then [] else [Retention_started]) @ [Collector_run] @ down))"
  by (simp add: run_def run_with_logger_def run_with_telemetry_def run_with_pool_def run_service_def tracer_def
      record_call_def Let_def split: option.splits sum.splits)

end
