(* ===== verification/Daemon.thy ===== *)
theory Daemon
  imports Ssh_Laws Retention_Laws Http_Server
begin

text \<open>
  The running program: the collector on the SSH client and the database, the pruner and the HTTP
  server over the same store. The contracts of \<open>Collector_Laws\<close> are instantiated on these
  parts, and a run of the daemon is an inductive relation whose steps are a whole poll round,
  a whole pruning or one request, in any order.
\<close>

definition db_collector_store ::
  "marshal \<Rightarrow> array_text \<Rightarrow> (string \<Rightarrow> string \<Rightarrow> bool) \<Rightarrow> world collector_store" where
  "db_collector_store marshal arr coll =
     \<lparr>op_SavePollResult = SavePollResult marshal, op_RefreshGrafanaViews = RefreshGrafanaViews arr coll\<rparr>"

lemma db_collector_store_sel [simp]:
  "op_SavePollResult (db_collector_store marshal arr coll) = SavePollResult marshal"
  "op_RefreshGrafanaViews (db_collector_store marshal arr coll) = RefreshGrafanaViews arr coll"
  by (simp_all add: db_collector_store_def)

section \<open>The store keeps its contract\<close>

text \<open>Runs stay stored through saves and refreshes, on every outcome.\<close>

definition holds_runs :: "poll_run set \<Rightarrow> world \<Rightarrow> bool" where
  "holds_runs R w \<longleftrightarrow> db_inv (tables w) \<and> R \<subseteq> set (t_runs (tables w))"

lemma save_holds_runs:
  assumes "holds_runs R w" and "timed r"
  shows "holds_runs R (snd (SavePollResult marshal r w))"
proof -
  obtain res w' where s: "SavePollResult marshal r w = (res, w')" by fastforce
  have inv: "db_inv (tables w)" "ids_ok (tables w)"
    using assms(1) by (simp_all add: holds_runs_def db_inv_def integrity_def)
  have "set (t_runs (tables w)) \<subseteq> set (t_runs (tables w'))"
  proof (cases "same_rows (tables w) (tables w')")
    case True
    have "t_runs (d\<lparr>t_seq := x\<rparr>) = t_runs d" for d :: database and x by simp
    with True show ?thesis unfolding same_rows_def by (metis order_refl)
  next
    case False
    with save_all_or_nothing [OF s inv(2)] have "tables w' = saved_db marshal r (tables w)" by blast
    then show ?thesis by (simp add: saved_db_sel(1) subset_insertI2)
  qed
  with save_db_inv [OF s inv(1) assms(2)] assms(1) s show ?thesis by (auto simp: holds_runs_def)
qed

lemma refresh_holds_runs:
  assumes "holds_runs R w"
  shows "holds_runs R (snd (RefreshGrafanaViews arr coll w))"
proof -
  obtain res w' where s: "RefreshGrafanaViews arr coll w = (res, w')" by fastforce
  obtain v where "tables w' = (tables w)\<lparr>t_views := v\<rparr>" using refresh_keeps_rows [OF s] by blast
  with assms s show ?thesis by (simp add: holds_runs_def)
qed

text \<open>What a poll returns can be stored: its entries carry their documents.\<close>

lemma summarised_storable:
  assumes "summarised je r" and "timed r"
  shows "storable marshal r"
proof -
  from assms(1) obtain t0 cs t1 where r: "r = poll_summary je (pr_lighthouse r) t0 cs t1"
    unfolding summarised_def by blast
  have hosts: "go_len (he_raw e) > 0" if "e \<in> set (elems (parsed_or None (ParseHostmap je) c))" for e c
    using that hostmap_raws [of je "cr_output c"] by (auto simp: parsed_or_def split: if_splits sum.splits)
  have addrs: "am_raw e \<noteq> None" if "e \<in> set (elems (parsed_or None (ParseLighthouseAddrmap je) c))" for e c
    using that addrmap_raws [of je "cr_output c"] by (auto simp: parsed_or_def split: if_splits sum.splits)
  have sel: "pr_hostmap r = parsed_or None (ParseHostmap je) (cs ! 2)"
    "pr_pending r = parsed_or None (ParseHostmap je) (cs ! 4)"
    "pr_addrmap r = parsed_or None (ParseLighthouseAddrmap je) (cs ! 3)"
    by (subst r, simp add: poll_summary_def)+
  have "\<forall>e \<in> set (elems (pr_hostmap r)) \<union> set (elems (pr_pending r)). go_len (he_raw e) > 0"
    unfolding sel using hosts by blast
  moreover have "\<forall>e \<in> set (elems (pr_addrmap r)). am_raw e \<noteq> None" unfolding sel using addrs by blast
  ultimately show ?thesis using assms(2) unfolding storable_def timed_def by blast
qed

interpretation stored: result_store "db_collector_store marshal arr coll" "holds_runs R" timed
  for marshal arr coll R
  by unfold_locales (simp_all add: save_holds_runs refresh_holds_runs)

definition calm_store :: "world \<Rightarrow> bool" where
  "calm_store w \<longleftrightarrow> healthy w \<and> db_inv (tables w)"

lemma calm_save:
  assumes "calm_store w" and "timed r \<and> storable marshal r"
  shows "\<exists>w'. SavePollResult marshal r w = (Inr (), w') \<and> calm_store w' \<and> tables w' = saved_db marshal r (tables w)"
proof -
  have h: "healthy w" and i: "db_inv (tables w)" "ids_ok (tables w)"
    using assms(1) by (simp_all add: calm_store_def db_inv_def integrity_def)
  obtain w' where s: "SavePollResult marshal r w = (Inr (), w')" "healthy w'"
    using save_succeeds [OF h] assms(2) by blast
  with save_ok_saved [OF s(1) i(2)] save_db_inv [OF s(1) i(1)] assms(2) show ?thesis
    by (simp add: calm_store_def)
qed

definition with_views :: "array_text \<Rightarrow> (string \<Rightarrow> string \<Rightarrow> bool) \<Rightarrow> database \<Rightarrow> database" where
  "with_views arr coll d = d\<lparr>t_views := snapshot arr coll d\<rparr>"

lemma calm_refresh:
  assumes "calm_store w"
  shows "\<exists>w'. RefreshGrafanaViews arr coll w = (Inr (), w') \<and> calm_store w' \<and> tables w' = with_views arr coll (tables w)"
proof -
  have "healthy w" using assms by (simp add: calm_store_def)
  then obtain w' where r: "RefreshGrafanaViews arr coll w = (Inr (), w')" "healthy w'"
    using refresh_succeeds by blast
  have "tables w' = with_views arr coll (tables w)"
    using refresh_outcome [OF r(1)] by (auto simp: with_views_def refreshed_all)
  with r assms show ?thesis by (simp add: calm_store_def with_views_def)
qed

interpretation calm: reliable_store "db_collector_store marshal arr coll" calm_store
    "\<lambda>r. timed r \<and> storable marshal r" tables "saved_db marshal" "with_views arr coll"
  for marshal arr coll
proof
  fix w r
  assume w: "calm_store w"
  show "calm_store (snd (op_RefreshGrafanaViews (db_collector_store marshal arr coll) w))"
    and "\<exists>w'. op_RefreshGrafanaViews (db_collector_store marshal arr coll) w = (Inr (), w') \<and>
      tables w' = with_views arr coll (tables w)"
    using calm_refresh [OF w, of arr coll] by auto
  assume "timed r \<and> storable marshal r"
  from calm_save [OF w this]
  show "calm_store (snd (op_SavePollResult (db_collector_store marshal arr coll) r w))"
    and "\<exists>w'. op_SavePollResult (db_collector_store marshal arr coll) r w = (Inr (), w') \<and>
      tables w' = saved_db marshal r (tables w)"
    by auto
qed

text \<open>The collector on the SSH client and the database.\<close>

interpretation mnemo: collector_parts "ssh_runtime lib" next_reading steady_clock
    "db_collector_store marshal arr coll" "holds_runs R" timed je
  for lib :: "('n, 'r, 'k, 's, 'd) ssh_lib" and marshal arr coll R je
  by unfold_locales

section \<open>Runs of the daemon\<close>

type_synonym ('n, 's, 'd) daemon = "(('s, 'd) ssh_client \<times> 'n ssh_env, world) collector_state"

definition pruner_of :: "('e, world) collector_state \<Rightarrow> (nat \<Rightarrow> go_error option) \<Rightarrow> world pruner_state" where
  "pruner_of k ctx = \<lparr>ps_store = kl_store k, ps_metrics = kl_metrics k, ps_ctx = ctx, ps_checks = 0\<rparr>"

text \<open>The list holds the times of the prunings so far.\<close>

inductive daemon_run ::
  "('n, 'r, 'k, 's, 'd) ssh_lib \<Rightarrow> json_error \<Rightarrow> marshal \<Rightarrow> array_text \<Rightarrow> (string \<Rightarrow> string \<Rightarrow> bool) \<Rightarrow>
   drop_chunks \<Rightarrow> Config \<Rightarrow> ('n, 's, 'd) daemon \<Rightarrow> gotime list \<Rightarrow> ('n, 's, 'd) daemon \<Rightarrow> bool"
  for lib je marshal arr coll chunks cfg k0 where
  initial: "daemon_run lib je marshal arr coll chunks cfg k0 [] k0"
| round: "daemon_run lib je marshal arr coll chunks cfg k0 ts k \<Longrightarrow>
    runRound (ssh_runtime lib) je (db_collector_store marshal arr coll) cfg sched k = Some (err, k') \<Longrightarrow>
    daemon_run lib je marshal arr coll chunks cfg k0 ts k'"
| pruning: "daemon_run lib je marshal arr coll chunks cfg k0 ts k \<Longrightarrow>
    Prune (db_store chunks) (cli_retention (cfg_cli cfg)) (cli_enable_timescale (cfg_cli cfg)) now
      (pruner_of k ctx) = Some (res, ps) \<Longrightarrow>
    daemon_run lib je marshal arr coll chunks cfg k0 (ts @ [now])
      (k\<lparr>kl_store := ps_store ps, kl_metrics := ps_metrics ps\<rparr>)"
| request: "daemon_run lib je marshal arr coll chunks cfg k0 ts k \<Longrightarrow>
    srv_handler (Start (cli_http (cfg_cli cfg)) (cli_prometheus_sd (cfg_cli cfg)) (cfg_targets cfg)
      (db_http_store coll)) promhttp ready req (kl_store k) = (reply, w) \<Longrightarrow>
    daemon_run lib je marshal arr coll chunks cfg k0 ts (k\<lparr>kl_store := w\<rparr>)"

text \<open>The runs of \<open>R\<close> that no pruning of \<open>ts\<close> may remove.\<close>

definition unexpired :: "RetentionConfig \<Rightarrow> gotime list \<Rightarrow> poll_run set \<Rightarrow> poll_run set" where
  "unexpired cfg ts R = {p \<in> R. \<forall>now \<in> set ts. \<not> ts_before (po_started_at p) (cutoff_of now (rt_period cfg))}"

lemma unexpired_Nil [simp]: "unexpired cfg [] R = R"
  by (simp add: unexpired_def)

lemma unexpired_snoc:
  "unexpired cfg (ts @ [now]) R = {p \<in> unexpired cfg ts R. \<not> ts_before (po_started_at p) (cutoff_of now (rt_period cfg))}"
  by (auto simp: unexpired_def)

lemma prune_holds:
  assumes "drop_law chunks" and "holds_runs R w"
    and "Prune (db_store chunks) cfg timescale now ps = Some (res, ps')" and "ps_store ps = w"
  shows "holds_runs {p \<in> R. \<not> ts_before (po_started_at p) (cutoff_of now (rt_period cfg))} (ps_store ps')"
  using prune_step_prune [OF assms(1,3)] assms(2,4)
  by (auto simp: prune_step_def holds_runs_def prunes_def retains_def)

lemma daemon_keeps:
  assumes law: "drop_law chunks"
    and start: "steady_clock (kl_env k0)" "holds_runs R (kl_store k0)"
    and run: "daemon_run lib je marshal arr coll chunks cfg k0 ts k"
  shows "steady_clock (kl_env k) \<and> holds_runs (unexpired (cli_retention (cfg_cli cfg)) ts R) (kl_store k)"
  using run
proof (induction rule: daemon_run.induct)
  case initial
  then show ?case using start by simp
next
  case (round ts k sched err k')
  then show ?case using mnemo.runRound_keeps [OF _ _ round.hyps(2)] by blast
next
  case (pruning ts k now ctx res ps)
  have "holds_runs (unexpired (cli_retention (cfg_cli cfg)) (ts @ [now]) R) (ps_store ps)"
    unfolding unexpired_snoc
    by (rule prune_holds [OF law _ pruning.hyps(2)]) (use pruning.IH in \<open>simp_all add: pruner_of_def\<close>)
  with pruning.IH show ?case by simp
next
  case (request ts k promhttp ready req reply w)
  have "tables w = tables (kl_store k)"
    using serve_tables [of "cli_prometheus_sd (cfg_cli cfg)" "cfg_targets cfg" coll promhttp ready req "kl_store k"]
      request.hyps(2) by (simp add: Start_def)
  with request.IH show ?case by (simp add: holds_runs_def)
qed

section \<open>A round without failures\<close>

lemma calm_round:
  assumes "steady_clock (kl_env k)" and "calm_store (kl_store k)"
    and round: "runRound (ssh_runtime lib) je (db_collector_store marshal arr coll) cfg sched k = Some (err, k')"
  shows "\<exists>rs. err = None \<and> mset (map pr_lighthouse rs) \<subseteq># mset (cfg_targets cfg) \<and>
    (sint (cli_poll_jitter (cfg_cli cfg)) \<le> 0 \<longrightarrow> mset (map pr_lighthouse rs) = mset (cfg_targets cfg)) \<and>
    (\<forall>r \<in> set rs. summarised je r) \<and>
    tables (kl_store k') = (if rs \<noteq> [] \<and> cli_refresh_views (cfg_cli cfg) then with_views arr coll else id)
      (fold (saved_db marshal) rs (tables (kl_store k)))"
proof -
  from round obtain rs where
    save: "save_round (db_collector_store marshal arr coll) (cfg_cli cfg) rs (kl_store k, kl_metrics k) =
      (err, kl_store k', kl_metrics k')"
    and sub: "mset (map pr_lighthouse rs) \<subseteq># mset (cfg_targets cfg)"
    and all: "sint (cli_poll_jitter (cfg_cli cfg)) \<le> 0 \<longrightarrow> mset (map pr_lighthouse rs) = mset (cfg_targets cfg)"
    and summ: "\<forall>r \<in> set rs. summarised je r"
    and rs: "rs = rd_chan (run_schedule (ssh_runtime lib) je (cli_poll_jitter (cfg_cli cfg)) sched
           (start_round (cfg_targets cfg) (kl_env k)))"
    by (rule runRound_results)
  have "\<forall>r \<in> set rs. timed r" using ssh.runRound_timed(2) [OF assms(1) round] unfolding rs by blast
  with summ have "\<forall>r \<in> set rs. timed r \<and> storable marshal r" using summarised_storable by blast
  from calm.save_round_ok [OF assms(2) this, of arr coll "cfg_cli cfg" "kl_metrics k"] save sub all summ
  show ?thesis by auto
qed

end
