(* ===== verification/Transactions.thy ===== *)
theory Transactions
  imports Storage_Laws
begin

text \<open>
  A transaction seen from outside, as \<open>db.go\<close> and the server run it: the queries that
  \<open>Queries.WithTx\<close> binds to a transaction see the committed tables with the rows the
  transaction has written, and nobody else sees these rows before the commit. Identifiers come
  from the sequences at once, whatever becomes of the transaction. The transactions of this
  program only insert rows and update the run they inserted.
\<close>

section \<open>The queries of a transaction\<close>

definition overlay :: "database \<Rightarrow> database \<Rightarrow> database" where
  "overlay d own = d\<lparr>t_runs := t_runs d @ t_runs own, t_raw := t_raw d @ t_raw own,
     t_hostmap := t_hostmap d @ t_hostmap own, t_addrmap := t_addrmap d @ t_addrmap own,
     t_relays := t_relays d @ t_relays own\<rparr>"

text \<open>The rows that \<open>e\<close> has after those of \<open>d\<close>.\<close>

definition written :: "database \<Rightarrow> database \<Rightarrow> database" where
  "written d e = empty_db\<lparr>t_runs := drop (length (t_runs d)) (t_runs e), t_raw := drop (length (t_raw d)) (t_raw e),
     t_hostmap := drop (length (t_hostmap d)) (t_hostmap e), t_addrmap := drop (length (t_addrmap d)) (t_addrmap e),
     t_relays := drop (length (t_relays d)) (t_relays e)\<rparr>"

text \<open>A query bound to the transaction that has written \<open>own\<close>.\<close>

definition in_tx :: "(world, 'a) act \<Rightarrow> (world \<times> database, 'a) act" where
  "in_tx q s = (case s of (w, own) \<Rightarrow>
     (case q (w\<lparr>tables := overlay (tables w) own\<rparr>) of (r, w') \<Rightarrow>
        (r, (w'\<lparr>tables := (tables w)\<lparr>t_seq := t_seq (tables w')\<rparr>\<rparr>, written (tables w) (tables w')))))"

lemma overlay_sel [simp]:
  "t_runs (overlay d own) = t_runs d @ t_runs own" "t_raw (overlay d own) = t_raw d @ t_raw own"
  "t_hostmap (overlay d own) = t_hostmap d @ t_hostmap own" "t_addrmap (overlay d own) = t_addrmap d @ t_addrmap own"
  "t_relays (overlay d own) = t_relays d @ t_relays own" "t_seq (overlay d own) = t_seq d"
  "t_views (overlay d own) = t_views d" "run_ids (overlay d own) = run_ids d \<union> run_ids own"
  by (simp_all add: overlay_def run_ids_def image_Un)

lemma written_sel [simp]:
  "t_runs (written d e) = drop (length (t_runs d)) (t_runs e)" "t_raw (written d e) = drop (length (t_raw d)) (t_raw e)"
  "t_hostmap (written d e) = drop (length (t_hostmap d)) (t_hostmap e)"
  "t_addrmap (written d e) = drop (length (t_addrmap d)) (t_addrmap e)"
  "t_relays (written d e) = drop (length (t_relays d)) (t_relays e)"
  by (simp_all add: written_def)

lemma written_seq [simp]: "written (d\<lparr>t_seq := q\<rparr>) e = written d e" "written d (e\<lparr>t_seq := q\<rparr>) = written d e"
  by (simp_all add: written_def)

lemma written_self [simp]: "written d d = empty_db"
  by (simp add: written_def empty_db_def)

section \<open>The rows of a transaction on their own\<close>

text \<open>
  The rows written keep the integrity of the schema among themselves, with the sequences of the
  server, and share no identifier with the committed rows.
\<close>

definition raw_ids :: "database \<Rightarrow> nat set" where
  "raw_ids d = row_id ` set (t_raw d)"

definition apart :: "database \<Rightarrow> database \<Rightarrow> bool" where
  "apart d e \<longleftrightarrow> run_ids d \<inter> run_ids e = {} \<and> raw_ids d \<inter> raw_ids e = {}"

definition own_ok :: "database \<Rightarrow> database \<Rightarrow> bool" where
  "own_ok d own \<longleftrightarrow> integrity (own\<lparr>t_seq := t_seq d\<rparr>) \<and> aligned own \<and> apart d own"

lemma integrity_seq_mono: "integrity d \<Longrightarrow> \<forall>t. t_seq d t \<le> q t \<Longrightarrow> integrity (d\<lparr>t_seq := q\<rparr>)"
  by (auto simp: integrity_defs run_ids_def intro: less_le_trans)

text \<open>They outlive what others commit or remove, as long as nobody commits their identifiers.\<close>

lemma own_ok_mono:
  assumes "own_ok d own" and "\<forall>t. t_seq d t \<le> t_seq d' t" and "apart d' own"
  shows "own_ok d' own"
  using integrity_seq_mono [of "own\<lparr>t_seq := t_seq d\<rparr>" "t_seq d'"] assms by (simp add: own_ok_def)

lemma apart_sym: "apart d e \<Longrightarrow> apart e d"
  by (auto simp: apart_def)

lemma apart_subset: "apart d own \<Longrightarrow> run_ids d' \<subseteq> run_ids d \<Longrightarrow> raw_ids d' \<subseteq> raw_ids d \<Longrightarrow> apart d' own"
  by (auto simp: apart_def)

lemma apart_overlay: "apart (overlay d e) own \<longleftrightarrow> apart d own \<and> apart e own"
  by (auto simp: apart_def raw_ids_def)

lemma apart_seq [simp]: "apart (d\<lparr>t_seq := q\<rparr>) e = apart d e"
  by (simp add: apart_def run_ids_def raw_ids_def)

lemma own_ok_seq: "own_ok d own \<Longrightarrow> \<forall>t. t_seq d t \<le> q t \<Longrightarrow> own_ok (d\<lparr>t_seq := q\<rparr>) own"
  by (rule own_ok_mono) (simp_all add: own_ok_def)

text \<open>Committing them keeps the invariants of the database.\<close>

lemma integrity_overlay:
  assumes "integrity d" and "own_ok d own"
  shows "integrity (overlay d own)"
proof -
  have own: "integrity (own\<lparr>t_seq := t_seq d\<rparr>)" "apart d own" using assms(2) by (simp_all add: own_ok_def)
  then have "ids_ok (overlay d own)"
    using assms(1) by (auto simp: integrity_def ids_ok_def apart_def raw_ids_def run_ids_def)
  moreover have "foreign_keys_ok (overlay d own)"
    using assms(1) own(1) by (auto simp: integrity_def foreign_keys_ok_def run_ids_def)
  moreover have "columns_ok (overlay d own)"
    using assms(1) own(1) by (auto simp: integrity_def columns_ok_def)
  ultimately show ?thesis by (simp add: integrity_def)
qed

lemma aligned_overlay:
  assumes "integrity d" and "aligned d" and "own_ok d own"
  shows "aligned (overlay d own)"
proof -
  have fk: "foreign_keys_ok d" "foreign_keys_ok (own\<lparr>t_seq := t_seq d\<rparr>)" and al: "aligned own" and ap: "run_ids d \<inter> run_ids own = {}"
    using assms(1,3) by (simp_all add: integrity_def own_ok_def apart_def)
  have meet: "\<And>p i. p \<in> set (t_runs own) \<Longrightarrow> i = po_id p \<Longrightarrow> i \<notin> run_ids d"
    "\<And>p i. p \<in> set (t_runs d) \<Longrightarrow> i = po_id p \<Longrightarrow> i \<notin> run_ids own"
    using ap by (auto simp: run_ids_def)
  show ?thesis
    unfolding aligned_def
  proof (intro ballI conjI impI)
    fix p h assume "p \<in> set (t_runs (overlay d own))" "h \<in> cols ` set (t_hostmap (overlay d own))" "ho_poll_run_id h = po_id p"
    then show "ho_observed_at h = po_started_at p"
      using fk al assms(2) meet by (fastforce simp: foreign_keys_ok_def aligned_def run_ids_def)
  next
    fix p h assume "p \<in> set (t_runs (overlay d own))" "h \<in> cols ` set (t_addrmap (overlay d own))" "ad_poll_run_id h = po_id p"
    then show "ad_observed_at h = po_started_at p"
      using fk al assms(2) meet by (fastforce simp: foreign_keys_ok_def aligned_def run_ids_def)
  next
    fix p h assume "p \<in> set (t_runs (overlay d own))" "h \<in> cols ` set (t_relays (overlay d own))" "re_poll_run_id h = po_id p"
    then show "re_observed_at h = po_started_at p"
      using fk al assms(2) meet by (fastforce simp: foreign_keys_ok_def aligned_def run_ids_def)
  next
    fix p h assume "p \<in> set (t_runs (overlay d own))" "h \<in> cols ` set (t_raw (overlay d own))" "ra_poll_run_id h = po_id p"
    then show "ts_le (po_started_at p) (ra_observed_at h)"
      using fk al assms(2) meet by (fastforce simp: foreign_keys_ok_def aligned_def run_ids_def)
  qed
qed

lemma completed_overlay: "completed d \<Longrightarrow> completed own \<Longrightarrow> completed (overlay d own)"
  by (auto simp: completed_def)

section \<open>What a query writes\<close>

lemma in_tx_sequences:
  assumes "in_tx q (w, own) = (r, (w', own'))" and "keeps safe_step q"
  shows "\<exists>s. tables w' = (tables w)\<lparr>t_seq := s\<rparr> \<and> (\<forall>t. t_seq (tables w) t \<le> s t)"
proof -
  obtain x v where q: "q (w\<lparr>tables := overlay (tables w) own\<rparr>) = (x, v)" by fastforce
  with assms(2) have "safe_step (w\<lparr>tables := overlay (tables w) own\<rparr>) v" unfolding keeps_def by (metis snd_conv)
  with q assms(1) show ?thesis by (auto simp: in_tx_def safe_step_def)
qed

lemma in_tx_exec:
  assumes "in_tx (exec stmt) (w, own) = (Inr x, (w', own'))"
  obtains e where "stmt (overlay (tables w) own) = (Inr x, e)" and "tables w' = (tables w)\<lparr>t_seq := t_seq e\<rparr>"
    and "own' = written (tables w) e"
proof -
  obtain r v where q: "exec stmt (w\<lparr>tables := overlay (tables w) own\<rparr>) = (r, v)" by fastforce
  with assms have "r = Inr x" "w' = v\<lparr>tables := (tables w)\<lparr>t_seq := t_seq (tables v)\<rparr>\<rparr>" "own' = written (tables w) (tables v)"
    by (simp_all add: in_tx_def)
  moreover have "stmt (overlay (tables w) own) = (Inr x, tables v)" using exec_ok [of stmt "w\<lparr>tables := overlay (tables w) own\<rparr>" x v] q \<open>r = Inr x\<close> by simp
  ultimately show thesis using that by simp
qed

text \<open>
  The rows of a transaction after a query: as before, with rows and identifiers drawn from the
  sequences at most.
\<close>

definition extends :: "database \<Rightarrow> database \<Rightarrow> database \<Rightarrow> database \<Rightarrow> bool" where
  "extends d own d' own' \<longleftrightarrow> own_ok d' own' \<and> run_ids own' \<subseteq> run_ids own \<union> {i. t_seq d PollRuns \<le> i} \<and>
     raw_ids own' \<subseteq> raw_ids own \<union> {i. t_seq d RawPayloads \<le> i}"

lemma integrity_ids:
  "integrity d \<Longrightarrow> i \<in> run_ids d \<Longrightarrow> i < t_seq d PollRuns" "integrity d \<Longrightarrow> i \<in> raw_ids d \<Longrightarrow> i < t_seq d RawPayloads"
  by (auto simp: integrity_def ids_ok_def raw_ids_def)

lemma own_ids:
  assumes "own_ok d own"
  shows "i \<in> run_ids own \<Longrightarrow> i < t_seq d PollRuns" and "i \<in> raw_ids own \<Longrightarrow> i < t_seq d RawPayloads"
proof -
  have i: "integrity (own\<lparr>t_seq := t_seq d\<rparr>)" using assms by (simp add: own_ok_def)
  show "i < t_seq d PollRuns" if "i \<in> run_ids own" using integrity_ids(1) [OF i] that by (simp add: run_ids_def)
  show "i < t_seq d RawPayloads" if "i \<in> raw_ids own" using integrity_ids(2) [OF i] that by (simp add: raw_ids_def)
qed

lemma extends_apart:
  assumes "extends d own d' own'" and "apart own u" and "own_ok d u"
  shows "apart own' u"
  using assms(1,2) own_ids [OF assms(3)] unfolding extends_def apart_def by (fastforce simp: not_less)

lemma extendsI:
  assumes "integrity d" and "own_ok d own" and e: "written d e = own'" "integrity (own'\<lparr>t_seq := t_seq e\<rparr>)" and "aligned own'"
    and "run_ids own' \<subseteq> run_ids own \<union> {i. t_seq d PollRuns \<le> i}" and "raw_ids own' \<subseteq> raw_ids own \<union> {i. t_seq d RawPayloads \<le> i}"
  shows "extends d own (d\<lparr>t_seq := t_seq e\<rparr>) own'"
proof -
  have "apart d own" using assms(2) by (simp add: own_ok_def)
  with integrity_ids [OF assms(1)] assms(6,7) have "apart d own'" unfolding apart_def by (fastforce simp: not_less)
  with assms show ?thesis by (simp add: extends_def own_ok_def)
qed

lemma integrity_no_views: "integrity (d\<lparr>t_views := v\<rparr>) = integrity d"
  by (simp add: integrity_defs run_ids_def)

lemma safe_stmt_integrity: "safe_stmt stmt \<Longrightarrow> integrity d \<Longrightarrow> stmt d = (r, e) \<Longrightarrow> integrity e"
  unfolding safe_stmt_def by (metis snd_conv)

text \<open>
  A statement is local when it does to the rows of the transaction what it would do to them
  alone, and leaves the committed ones as they are.
\<close>

definition local_to :: "database \<Rightarrow> (database, 'a) act \<Rightarrow> bool" where
  "local_to own stmt \<longleftrightarrow> (\<forall>d x e. apart d own \<longrightarrow> stmt (overlay d own) = (Inr x, e) \<longrightarrow>
     e = overlay (d\<lparr>t_seq := t_seq e\<rparr>) (written d e) \<and>
     stmt (own\<lparr>t_seq := t_seq d\<rparr>) = (Inr x, (written d e)\<lparr>t_seq := t_seq e, t_views := t_views own\<rparr>))"

lemma local_create: "local_to own (sql_create_poll_run a)"
  by (auto simp: local_to_def sql_create_poll_run_def written_def bump_def overlay_def)

lemma local_raw: "ra_poll_run_id a \<in> run_ids own \<Longrightarrow> local_to own (sql_insert_raw a)"
  by (auto simp: local_to_def sql_insert_raw_def written_def add_raw_def bump_def overlay_def run_ids_def split: if_splits)

lemma local_hostmap: "ho_poll_run_id a \<in> run_ids own \<Longrightarrow> local_to own (sql_insert_hostmap a)"
  by (auto simp: local_to_def sql_insert_hostmap_def written_def add_hostmap_def bump_def overlay_def run_ids_def split: if_splits)

lemma local_addrmap: "ad_poll_run_id a \<in> run_ids own \<Longrightarrow> local_to own (sql_insert_addrmap a)"
  by (auto simp: local_to_def sql_insert_addrmap_def written_def add_addrmap_def bump_def overlay_def run_ids_def split: if_splits)

lemma local_relay: "re_poll_run_id a \<in> run_ids own \<Longrightarrow> local_to own (sql_insert_relay a)"
  by (auto simp: local_to_def sql_insert_relay_def written_def add_relay_def bump_def overlay_def run_ids_def split: if_splits)

lemma local_complete:
  assumes "co_id a \<in> run_ids own"
  shows "local_to own (sql_complete_poll_run a)"
proof -
  let ?f = "\<lambda>p. if po_id p = co_id a then complete_run a p else p"
  have "map ?f (t_runs d) = t_runs d" if "apart d own" for d
    using that assms by (intro map_idI) (auto simp: apart_def run_ids_def)
  then show ?thesis
    using assms
    by (auto simp: local_to_def sql_complete_poll_run_def written_def overlay_def run_ids_def split: if_splits)
qed

lemma local_integrity:
  assumes "local_to own stmt" and "safe_stmt stmt" and "own_ok d own" and "stmt (overlay d own) = (Inr x, e)"
  shows "integrity ((written d e)\<lparr>t_seq := t_seq e\<rparr>)"
proof -
  have "integrity (own\<lparr>t_seq := t_seq d\<rparr>)" "apart d own" using assms(3) by (simp_all add: own_ok_def)
  moreover from this(2) assms(1,4) have "stmt (own\<lparr>t_seq := t_seq d\<rparr>) = (Inr x, (written d e)\<lparr>t_seq := t_seq e, t_views := t_views own\<rparr>)"
    unfolding local_to_def by blast
  ultimately have "integrity ((written d e)\<lparr>t_seq := t_seq e, t_views := t_views own\<rparr>)"
    using safe_stmt_integrity [OF assms(2)] by blast
  then show ?thesis by (simp only: integrity_no_views)
qed

section \<open>The transaction of a save\<close>

text \<open>
  What a transaction of \<open>SavePollResult\<close> is to others: the result it saves, how far it is and
  what it has written. \<open>save_write\<close> are the inserts it issues between CreatePollRun and
  CompletePollRun.
\<close>

datatype stage = Begun | Running nat | Completed nat

record txn =
  tx_result :: PollResult
  tx_stage :: stage
  tx_rows :: database

inductive save_write :: "marshal \<Rightarrow> PollResult \<Rightarrow> nat \<Rightarrow> (world, unit) act \<Rightarrow> bool" for marshal r run where
  raw: "c \<in> set (pr_commands r) \<Longrightarrow> save_write marshal r run (InsertRawCommandPayload (raw_params run r c))"
| hostmap: "(source, es) \<in> {(''hostmap'', pr_hostmap r), (''pending'', pr_pending r)} \<Longrightarrow>
    (i, e) \<in> set (enumerate 0 (elems es)) \<Longrightarrow> entry_raw marshal source e = Inr raw \<Longrightarrow>
    save_write marshal r run (InsertHostmapEntry (hostmap_params run r source i e raw))"
| addrmap: "a \<in> set (addrmap_rows run r) \<Longrightarrow> save_write marshal r run (InsertLighthouseAddrmapEntry a)"
| relay: "a \<in> set (relay_rows run r) \<Longrightarrow> save_write marshal r run (InsertRelaySnapshot a)"

definition stage_ok :: "PollResult \<Rightarrow> stage \<Rightarrow> database \<Rightarrow> bool" where
  "stage_ok r st own \<longleftrightarrow> (case st of
       Begun \<Rightarrow> own = empty_db
     | Running run \<Rightarrow> (\<exists>p. t_runs own = [p] \<and> po_id p = run \<and> po_started_at p = timestamptz (pr_started r) \<and>
         complete_run (complete_params run r) p = run_row run r)
     | Completed run \<Rightarrow> t_runs own = [run_row run r])"

definition tx_ok :: "database \<Rightarrow> txn \<Rightarrow> bool" where
  "tx_ok d t \<longleftrightarrow> timed (tx_result t) \<and> own_ok d (tx_rows t) \<and> stage_ok (tx_result t) (tx_stage t) (tx_rows t)"

lemma local_result:
  assumes "in_tx (exec stmt) (w, own) = (Inr x, (w', own'))" and "local_to own stmt" and "safe_stmt stmt"
    and "own_ok (tables w) own"
  obtains e where "tables w' = (tables w)\<lparr>t_seq := t_seq e\<rparr>" and "own' = written (tables w) e"
    and "integrity (own'\<lparr>t_seq := t_seq e\<rparr>)"
    and "stmt (own\<lparr>t_seq := t_seq (tables w)\<rparr>) = (Inr x, own'\<lparr>t_seq := t_seq e, t_views := t_views own\<rparr>)"
proof -
  from in_tx_exec [OF assms(1)] obtain e where
    e: "stmt (overlay (tables w) own) = (Inr x, e)" "tables w' = (tables w)\<lparr>t_seq := t_seq e\<rparr>" "own' = written (tables w) e" .
  moreover have "apart (tables w) own" using assms(4) by (simp add: own_ok_def)
  with assms(2) e(1) have "stmt (own\<lparr>t_seq := t_seq (tables w)\<rparr>) =
      (Inr x, (written (tables w) e)\<lparr>t_seq := t_seq e, t_views := t_views own\<rparr>)"
    unfolding local_to_def by blast
  ultimately show thesis using that local_integrity [OF assms(2-4) e(1)] by blast
qed

lemma extends_result:
  assumes "own_ok (tables w) own" and "integrity (tables w)" and "tables w' = (tables w)\<lparr>t_seq := t_seq e\<rparr>"
    and "own' = written (tables w) e" and "integrity (own'\<lparr>t_seq := t_seq e\<rparr>)" and "aligned own'"
    and "run_ids own' \<subseteq> insert (t_seq (tables w) PollRuns) (run_ids own)"
    and "raw_ids own' \<subseteq> insert (t_seq (tables w) RawPayloads) (raw_ids own)"
  shows "extends (tables w) own (tables w') own'"
  unfolding assms(3)
  by (rule extendsI [OF assms(2,1) assms(4) [symmetric] assms(5,6)]) (use assms(7,8) in auto)

text \<open>The same fields as an equation of records gives.\<close>

lemma rows_eq:
  assumes "d\<lparr>t_seq := q, t_views := v\<rparr> = e"
  shows "t_runs d = t_runs e" "t_raw d = t_raw e" "t_hostmap d = t_hostmap e" "t_addrmap d = t_addrmap e" "t_relays d = t_relays e"
  unfolding assms [symmetric] by simp_all

lemma creating_extends:
  assumes "in_tx (CreatePollRun (create_params r)) (w, empty_db) = (Inr run, (w', own'))" and "integrity (tables w)"
  shows "extends (tables w) empty_db (tables w') own' \<and> stage_ok r (Running run) own'"
proof -
  have "integrity (empty_db\<lparr>t_seq := t_seq (tables w)\<rparr>)" "apart (tables w) empty_db" "aligned empty_db"
    by (simp_all add: integrity_defs empty_db_def run_ids_def apart_def raw_ids_def aligned_def)
  then have own: "own_ok (tables w) empty_db" by (simp add: own_ok_def)
  from local_result [OF assms(1) [unfolded CreatePollRun_def] local_create safe_create own] obtain e where
    e: "tables w' = (tables w)\<lparr>t_seq := t_seq e\<rparr>" "own' = written (tables w) e" "integrity (own'\<lparr>t_seq := t_seq e\<rparr>)"
      "sql_create_poll_run (create_params r) (empty_db\<lparr>t_seq := t_seq (tables w)\<rparr>) =
        (Inr run, own'\<lparr>t_seq := t_seq e, t_views := t_views empty_db\<rparr>)" .
  from e(4) have run: "run = t_seq (tables w) PollRuns"
    and rows: "own'\<lparr>t_seq := t_seq e, t_views := t_views empty_db\<rparr> =
      (bump PollRuns (empty_db\<lparr>t_seq := t_seq (tables w)\<rparr>))\<lparr>t_runs := [new_run run (create_params r)]\<rparr>"
    by (auto simp: sql_create_poll_run_def empty_db_def split: if_splits)
  have t: "t_runs own' = [new_run run (create_params r)]" "t_raw own' = []" "t_hostmap own' = []" "t_addrmap own' = []" "t_relays own' = []"
    using rows_eq [OF rows] by (simp_all add: empty_db_def)
  have "extends (tables w) empty_db (tables w') own'"
    by (rule extends_result [OF own assms(2) e(1,2,3)])
       (simp_all add: aligned_def t run_ids_def raw_ids_def new_run_def run)
  moreover have "stage_ok r (Running run) own'"
    using t(1) by (simp add: stage_ok_def run_row_def new_run_def create_params_def)
  ultimately show ?thesis by simp
qed

lemma aligned_one_run:
  assumes "t_runs d = [p]" and "aligned d" and "t_runs d' = [p]"
    and "\<And>h. h \<in> set (t_hostmap d') \<Longrightarrow> h \<in> set (t_hostmap d) \<or> ho_observed_at (cols h) = po_started_at p"
    and "\<And>h. h \<in> set (t_addrmap d') \<Longrightarrow> h \<in> set (t_addrmap d) \<or> ad_observed_at (cols h) = po_started_at p"
    and "\<And>h. h \<in> set (t_relays d') \<Longrightarrow> h \<in> set (t_relays d) \<or> re_observed_at (cols h) = po_started_at p"
    and "\<And>h. h \<in> set (t_raw d') \<Longrightarrow> h \<in> set (t_raw d) \<or> ts_le (po_started_at p) (ra_observed_at (cols h))"
  shows "aligned d'"
  using assms(1-3) assms(4-7) unfolding aligned_def by simp blast

text \<open>An insert that succeeds, given what it does to the rows of the transaction alone.\<close>

lemma insert_extends:
  fixes w own
  defines "own0 \<equiv> own\<lparr>t_seq := t_seq (tables w)\<rparr>"
  assumes "in_tx (exec stmt) (w, own) = (Inr x, (w', own'))" and "local_to own stmt" and "safe_stmt stmt"
    and "integrity (tables w)" and own: "own_ok (tables w) own" and st: "stage_ok r (Running run) own"
    and add: "\<And>y e. stmt own0 = (Inr y, e) \<Longrightarrow> e = added"
    and new: "t_runs added = t_runs own" "aligned added" "raw_ids added \<subseteq> insert (t_seq (tables w) RawPayloads) (raw_ids own)"
  shows "extends (tables w) own (tables w') own' \<and> stage_ok r (Running run) own'"
proof -
  from local_result [OF assms(2-4) own] obtain e where
    e: "tables w' = (tables w)\<lparr>t_seq := t_seq e\<rparr>" "own' = written (tables w) e" "integrity (own'\<lparr>t_seq := t_seq e\<rparr>)"
      "stmt own0 = (Inr x, own'\<lparr>t_seq := t_seq e, t_views := t_views own\<rparr>)" unfolding own0_def .
  from add [OF e(4)] have rows: "own'\<lparr>t_seq := t_seq e, t_views := t_views own\<rparr> = added" .
  note eqs = rows_eq [OF rows]
  have al: "aligned own'" using new(2) by (simp add: aligned_def eqs)
  have "extends (tables w) own (tables w') own'"
    by (rule extends_result [OF own assms(5) e(1-3) al]) (use new eqs in \<open>auto simp: run_ids_def raw_ids_def\<close>)
  with st eqs(1) new(1) show ?thesis by (simp add: stage_ok_def)
qed

lemma writing_extends:
  assumes "in_tx q (w, own) = (Inr (), (w', own'))" and "save_write marshal r run q" and "timed r"
    and "integrity (tables w)" and own: "own_ok (tables w) own" and st: "stage_ok r (Running run) own"
  shows "extends (tables w) own (tables w') own' \<and> stage_ok r (Running run) own'"
proof -
  from st obtain p where p: "t_runs own = [p]" "po_id p = run" "po_started_at p = timestamptz (pr_started r)"
    by (auto simp: stage_ok_def)
  then have run: "run \<in> run_ids own" by (simp add: run_ids_def)
  have al: "aligned own" using own by (simp add: own_ok_def)
  note one = aligned_one_run [OF p(1) al] and ins = insert_extends [OF _ _ _ assms(4) own st]
  show ?thesis
    using assms(2)
  proof cases
    case (raw c)
    have "ts_le (timestamptz (pr_started r)) (timestamptz (cr_started c))"
      using assms(3) raw(2) by (auto simp: timed_def ts_le_def timestamptz_def)
    then have "aligned (add_raw (raw_params run r c) (own\<lparr>t_seq := t_seq (tables w)\<rparr>))"
      by (intro one) (auto simp: p)
    then show ?thesis
      by (intro ins [OF assms(1) [unfolded raw(1) InsertRawCommandPayload_def] local_raw safe_insert_raw])
         (auto simp: run sql_insert_raw_def raw_ids_def split: if_splits)
  next
    case (hostmap source es i en doc)
    have "aligned (add_hostmap (hostmap_params run r source i en doc) (own\<lparr>t_seq := t_seq (tables w)\<rparr>))"
      by (intro one) (auto simp: p)
    then show ?thesis
      by (intro ins [OF assms(1) [unfolded hostmap(1) InsertHostmapEntry_def] local_hostmap safe_insert_hostmap])
         (auto simp: run sql_insert_hostmap_def raw_ids_def split: if_splits)
  next
    case (addrmap a)
    have a: "ad_poll_run_id a = run" "ad_observed_at a = timestamptz (pr_started r)"
      using addrmap_rows_sel [OF addrmap(2)] by simp_all
    then have "aligned (add_addrmap a (own\<lparr>t_seq := t_seq (tables w)\<rparr>))" by (intro one) (auto simp: p)
    then show ?thesis
      by (intro ins [OF assms(1) [unfolded addrmap(1) InsertLighthouseAddrmapEntry_def] local_addrmap safe_insert_addrmap])
         (auto simp: run a sql_insert_addrmap_def raw_ids_def split: if_splits)
  next
    case (relay a)
    have a: "re_poll_run_id a = run" "re_observed_at a = timestamptz (pr_started r)"
      using relay_rows_sel [OF relay(2)] by simp_all
    then have "aligned (add_relay a (own\<lparr>t_seq := t_seq (tables w)\<rparr>))" by (intro one) (auto simp: p)
    then show ?thesis
      by (intro ins [OF assms(1) [unfolded relay(1) InsertRelaySnapshot_def] local_relay safe_insert_relay])
         (auto simp: run a sql_insert_relay_def raw_ids_def split: if_splits)
  qed
qed

lemma completing_extends:
  assumes "in_tx (CompletePollRun (complete_params run r)) (w, own) = (Inr (), (w', own'))"
    and "integrity (tables w)" and own: "own_ok (tables w) own" and st: "stage_ok r (Running run) own"
  shows "extends (tables w) own (tables w') own' \<and> stage_ok r (Completed run) own'"
proof -
  from st obtain p where p: "t_runs own = [p]" "po_id p = run" "po_started_at p = timestamptz (pr_started r)"
    "complete_run (complete_params run r) p = run_row run r"
    by (auto simp: stage_ok_def)
  have id: "co_id (complete_params run r) = run" by (simp add: complete_params_def)
  then have "local_to own (sql_complete_poll_run (complete_params run r))"
    using p by (intro local_complete) (simp add: run_ids_def)
  from local_result [OF assms(1) [unfolded CompletePollRun_def] this safe_complete own] obtain e where
    e: "tables w' = (tables w)\<lparr>t_seq := t_seq e\<rparr>" "own' = written (tables w) e" "integrity (own'\<lparr>t_seq := t_seq e\<rparr>)"
      "sql_complete_poll_run (complete_params run r) (own\<lparr>t_seq := t_seq (tables w)\<rparr>) =
        (Inr (), own'\<lparr>t_seq := t_seq e, t_views := t_views own\<rparr>)" .
  from e(4) have "own'\<lparr>t_seq := t_seq e, t_views := t_views own\<rparr> =
      own\<lparr>t_seq := t_seq (tables w), t_runs := [run_row run r]\<rparr>"
    using p id by (auto simp: sql_complete_poll_run_def split: if_splits)
  note rows = rows_eq [OF this, simplified]
  have al: "aligned own" using own by (simp add: own_ok_def)
  have "extends (tables w) own (tables w') own'"
    by (rule extends_result [OF own assms(2) e(1-3)])
       (use al p in \<open>auto simp: aligned_def rows run_ids_def raw_ids_def\<close>)
  with rows(1) show ?thesis by (simp add: stage_ok_def)
qed

end
