(* ===== verification/Interleaving.thy ===== *)
theory Interleaving
  imports Daemon Transactions
begin

text \<open>
  The store under concurrent use. The pruner deletes beside the collector and the HTTP server, and
  several daemons may share a database, so the calls of one operation can be separated by calls of
  others; in particular a poll result is saved by a transaction of many calls, and the identifiers
  that \<open>DeleteExpiredPollRuns\<close> lists may be deleted much later. A step of \<open>server_step\<close>
  is one call; any step may follow any other. A state is the world with the committed tables, the
  answers of the listings so far and the transactions in progress.
\<close>

section \<open>Steps of the server\<close>

text \<open>No cutoff later than the bound.\<close>

definition not_after :: "gotime \<Rightarrow> int option \<Rightarrow> bool" where
  "not_after cutoff bound \<longleftrightarrow> (case bound of None \<Rightarrow> False | Some b \<Rightarrow> wall cutoff \<le> b)"

type_synonym server = "world \<times> nat list set \<times> txn list"

text \<open>A transaction after a call: a failed call ends it, with the deferred rollback.\<close>

definition unless_failed :: "'a result \<Rightarrow> txn \<Rightarrow> txn list" where
  "unless_failed res t = (case res of Inl _ \<Rightarrow> [] | Inr _ \<Rightarrow> [t])"

inductive server_step ::
  "marshal \<Rightarrow> array_text \<Rightarrow> (string \<Rightarrow> string \<Rightarrow> bool) \<Rightarrow> drop_chunks \<Rightarrow> int option \<Rightarrow> int option \<Rightarrow>
   server \<Rightarrow> server \<Rightarrow> bool"
  for marshal arr coll chunks c rc where
  beginning: "BeginTx w = (res, w') \<Longrightarrow> timed r \<Longrightarrow>
    server_step marshal arr coll chunks c rc (w, L, T)
      (w', L, T @ unless_failed res \<lparr>tx_result = r, tx_stage = Begun, tx_rows = empty_db\<rparr>)"
| creating: "in_tx (CreatePollRun (create_params (tx_result t))) (w, tx_rows t) = (res, (w', own)) \<Longrightarrow>
    tx_stage t = Begun \<Longrightarrow>
    server_step marshal arr coll chunks c rc (w, L, T1 @ t # T2)
      (w', L, T1 @ (case res of Inl _ \<Rightarrow> [] | Inr run \<Rightarrow> [t\<lparr>tx_stage := Running run, tx_rows := own\<rparr>]) @ T2)"
| writing: "in_tx q (w, tx_rows t) = (res, (w', own)) \<Longrightarrow> save_write marshal (tx_result t) run q \<Longrightarrow>
    tx_stage t = Running run \<Longrightarrow>
    server_step marshal arr coll chunks c rc (w, L, T1 @ t # T2)
      (w', L, T1 @ unless_failed res (t\<lparr>tx_rows := own\<rparr>) @ T2)"
| completing: "in_tx (CompletePollRun (complete_params run (tx_result t))) (w, tx_rows t) = (res, (w', own)) \<Longrightarrow>
    tx_stage t = Running run \<Longrightarrow>
    server_step marshal arr coll chunks c rc (w, L, T1 @ t # T2)
      (w', L, T1 @ unless_failed res (t\<lparr>tx_stage := Completed run, tx_rows := own\<rparr>) @ T2)"
| committing: "Commit (tables w) (w\<lparr>tables := overlay (tables w) (tx_rows t)\<rparr>) = (res, w') \<Longrightarrow>
    tx_stage t = Completed run \<Longrightarrow>
    server_step marshal arr coll chunks c rc (w, L, T1 @ t # T2) (w', L, T1 @ T2)"
| rolling_back: "server_step marshal arr coll chunks c rc (w, L, T1 @ t # T2) (w, L, T1 @ T2)"
| refreshing: "exec (sql_refresh arr coll v) w = (res, w') \<Longrightarrow>
    server_step marshal arr coll chunks c rc (w, L, T) (w', L, T)"
| pinging: "Ping w = (res, w') \<Longrightarrow> server_step marshal arr coll chunks c rc (w, L, T) (w', L, T)"
| querying: "ListPresentPeers coll w = (rows, w') \<Longrightarrow> server_step marshal arr coll chunks c rc (w, L, T) (w', L, T)"
| listing: "ListExpiredPollRunIDs (timestamptz cutoff) n w = (res, w') \<Longrightarrow> not_after cutoff c \<Longrightarrow>
    server_step marshal arr coll chunks c rc (w, L, T) (w', case res of Inl e \<Rightarrow> L | Inr ids \<Rightarrow> insert ids L, T)"
| deleting: "DeletePollRuns ids w = (res, w') \<Longrightarrow> ids \<in> L \<Longrightarrow>
    server_step marshal arr coll chunks c rc (w, L, T) (w', L, T)"
| deleting_raw: "DeleteExpiredRaw (timestamptz cutoff) n w = (res, w') \<Longrightarrow> not_after cutoff rc \<Longrightarrow>
    server_step marshal arr coll chunks c rc (w, L, T) (w', L, T)"
| dropping: "DropChunks chunks t cutoff w = (res, w') \<Longrightarrow> not_after cutoff c \<or> t = RawPayloads \<and> not_after cutoff rc \<Longrightarrow>
    server_step marshal arr coll chunks c rc (w, L, T) (w', L, T)"

section \<open>The transactions in progress\<close>

definition txs_ok :: "database \<Rightarrow> txn list \<Rightarrow> bool" where
  "txs_ok d T \<longleftrightarrow> (\<forall>t \<in> set T. tx_ok d t) \<and> sorted_wrt (\<lambda>t u. apart (tx_rows t) (tx_rows u)) T"

text \<open>Identifiers of runs that no committed run has had: not yet drawn, or drawn by a transaction.\<close>

definition unborn :: "database \<Rightarrow> txn list \<Rightarrow> nat set" where
  "unborn d T = {i. t_seq d PollRuns \<le> i} \<union> (\<Union>t \<in> set T. run_ids (tx_rows t))"

lemma tx_ok_mono: "tx_ok d t \<Longrightarrow> \<forall>x. t_seq d x \<le> t_seq d' x \<Longrightarrow> apart d' (tx_rows t) \<Longrightarrow> tx_ok d' t"
  unfolding tx_ok_def using own_ok_mono by blast

lemma tx_ok_apart: "tx_ok d t \<Longrightarrow> apart d (tx_rows t)"
  by (simp add: tx_ok_def own_ok_def)

lemma txs_ok_fewer:
  assumes "txs_ok d T" and "\<forall>x. t_seq d x \<le> t_seq d' x" and "run_ids d' \<subseteq> run_ids d" and "raw_ids d' \<subseteq> raw_ids d"
  shows "txs_ok d' T"
  using assms tx_ok_mono apart_subset [OF tx_ok_apart] unfolding txs_ok_def by blast

lemma txs_ok_drop: "txs_ok d (T1 @ t # T2) \<Longrightarrow> txs_ok d (T1 @ T2)"
  by (simp add: txs_ok_def sorted_wrt_append)

lemma txs_ok_seq: "txs_ok d T \<Longrightarrow> \<forall>x. t_seq d x \<le> q x \<Longrightarrow> txs_ok (d\<lparr>t_seq := q\<rparr>) T"
  by (erule txs_ok_fewer) (auto simp: run_ids_def raw_ids_def)

lemma unborn_fresh:
  assumes "db_inv d" and "txs_ok d T" and "i \<in> run_ids d"
  shows "i \<notin> unborn d T"
proof -
  have "i < t_seq d PollRuns" using integrity_ids(1) assms(1,3) by (simp add: db_inv_def)
  moreover have "i \<notin> run_ids (tx_rows t)" if "t \<in> set T" for t
    using tx_ok_apart [of d t] assms(2,3) that by (auto simp: txs_ok_def apart_def)
  ultimately show ?thesis by (auto simp: unborn_def)
qed

text \<open>One transaction has written more.\<close>

lemma txs_ok_extend:
  assumes ok: "txs_ok d (T1 @ t # T2)" and ext: "extends d (tx_rows t) d' (tx_rows t')" and d': "d' = d\<lparr>t_seq := q\<rparr>"
    and seq: "\<forall>x. t_seq d x \<le> q x" and "tx_result t' = tx_result t" and "stage_ok (tx_result t') (tx_stage t') (tx_rows t')"
  shows "txs_ok d' (T1 @ t' # T2)" and "unborn d' (T1 @ t' # T2) \<subseteq> unborn d (T1 @ t # T2)"
proof -
  have own: "own_ok d (tx_rows u)" if "u \<in> set (T1 @ T2)" for u
    using ok that by (auto simp: txs_ok_def tx_ok_def)
  note apart = extends_apart [OF ext _ own]
  have "tx_ok d' t'" using ok ext assms(5,6) by (simp add: txs_ok_def tx_ok_def extends_def)
  moreover have "txs_ok d' (T1 @ T2)" using txs_ok_seq [OF txs_ok_drop [OF ok] seq] unfolding d' .
  ultimately show "txs_ok d' (T1 @ t' # T2)"
    using ok apart apart_sym unfolding txs_ok_def by (fastforce simp: sorted_wrt_append)
  have "t_seq d PollRuns \<le> t_seq d' PollRuns" using seq by (simp add: d')
  with ext show "unborn d' (T1 @ t' # T2) \<subseteq> unborn d (T1 @ t # T2)"
    unfolding unborn_def extends_def by (auto intro: order_trans)
qed

section \<open>What a step may change\<close>

text \<open>
  Rows that are not expired stay; a run that is new has an identifier no committed run has had,
  so a listed identifier never comes to mean another run.
\<close>

definition evolves :: "int option \<Rightarrow> int option \<Rightarrow> database \<times> nat set \<Rightarrow> database \<times> nat set \<Rightarrow> bool" where
  "evolves c rc x y \<longleftrightarrow> retains c rc (fst x) (fst y) \<and> snd y \<subseteq> snd x \<and>
     (\<forall>p \<in> set (t_runs (fst y)). p \<in> set (t_runs (fst x)) \<or> po_id p \<in> snd x)"

lemma evolves_live:
  assumes "run_ids d \<inter> U = {}" and "evolves c rc (d, U) (d', U')" and "live_run c d i" and "i \<in> run_ids d"
  shows "live_run c d' i"
  using assms by (auto simp: evolves_def live_run_def)

lemma evolves_refl: "evolves c rc x x"
  by (simp add: evolves_def retains_def)

lemma evolves_trans:
  assumes i: "integrity d" and u: "run_ids d \<inter> U = {}"
    and de: "evolves c rc (d, U) (e, V)" and ef: "evolves c rc (e, V) (f, W)"
  shows "evolves c rc (d, U) (f, W)"
proof -
  note fk = i [unfolded integrity_def foreign_keys_ok_def, THEN conjunct2, THEN conjunct1]
  note live = evolves_live [OF u de]
  have r: "retains c rc d e" "retains c rc e f" using de ef by (simp_all add: evolves_def)
  have "retains c rc d f"
    unfolding retains_def
  proof (intro conjI ballI impI)
    fix p assume "p \<in> set (t_runs d)" "\<not> ts_before (po_started_at p) c"
    with r show "p \<in> set (t_runs f)" by (simp add: retains_def)
  next
    fix x assume x: "x \<in> set (t_raw d)"
      "live_run c d (ra_poll_run_id (cols x)) \<and> \<not> ts_before (ra_observed_at (cols x)) rc"
    with fk live have "live_run c e (ra_poll_run_id (cols x))" by blast
    with x r show "x \<in> set (t_raw f)" by (simp add: retains_def)
  next
    fix x assume x: "x \<in> set (t_hostmap d)" "live_run c d (ho_poll_run_id (cols x))"
    with fk live have "live_run c e (ho_poll_run_id (cols x))" by blast
    with x r show "x \<in> set (t_hostmap f)" by (simp add: retains_def)
  next
    fix x assume x: "x \<in> set (t_addrmap d)" "live_run c d (ad_poll_run_id (cols x))"
    with fk live have "live_run c e (ad_poll_run_id (cols x))" by blast
    with x r show "x \<in> set (t_addrmap f)" by (simp add: retains_def)
  next
    fix x assume x: "x \<in> set (t_relays d)" "live_run c d (re_poll_run_id (cols x))"
    with fk live have "live_run c e (re_poll_run_id (cols x))" by blast
    with x r show "x \<in> set (t_relays f)" by (simp add: retains_def)
  qed
  moreover have "p \<in> set (t_runs d) \<or> po_id p \<in> U" if "p \<in> set (t_runs f)" for p
  proof -
    from ef that consider "p \<in> set (t_runs e)" | "po_id p \<in> V" by (auto simp: evolves_def)
    then show ?thesis using de by cases (auto simp: evolves_def)
  qed
  moreover have "W \<subseteq> U" using de ef by (auto simp: evolves_def)
  ultimately show ?thesis by (simp add: evolves_def)
qed

text \<open>A call that adds no row: deletions, refreshes, queries and what fails.\<close>

definition settles :: "int option \<Rightarrow> int option \<Rightarrow> database \<Rightarrow> database \<Rightarrow> bool" where
  "settles c rc d d' \<longleftrightarrow> db_inv d' \<and> retains c rc d d' \<and> set (t_runs d') \<subseteq> set (t_runs d) \<and>
     raw_ids d' \<subseteq> raw_ids d \<and> (\<forall>t. t_seq d t \<le> t_seq d' t)"

lemma settles_refl: "db_inv d \<Longrightarrow> settles c rc d d"
  by (simp add: settles_def retains_def)

lemma settles_seq:
  assumes "db_inv d" and "\<forall>t. t_seq d t \<le> q t"
  shows "settles c rc d (d\<lparr>t_seq := q\<rparr>)"
  using assms integrity_seq_mono [of d q] by (simp add: settles_def retains_def db_inv_def raw_ids_def)

lemma settles_prunes:
  assumes "prunes c rc d d'" and "db_inv d" and "integrity d'" and "\<forall>t. t_seq d t \<le> t_seq d' t"
  shows "settles c rc d d'"
  using assms prunes_db_inv by (auto simp: settles_def prunes_def shrinks_def raw_ids_def)

lemma settles_exec:
  assumes "exec stmt w = (res, w')" and "db_inv (tables w)" and "settles c rc (tables w) (snd (stmt (tables w)))"
  shows "settles c rc (tables w) (tables w')"
  using exec_tables [of stmt w] assms settles_refl by auto

text \<open>Removing expired rows settles, also under a later bound.\<close>

lemma ts_before_not_after: "ts_before t (timestamptz cutoff) \<Longrightarrow> not_after cutoff b \<Longrightarrow> ts_before t b"
  by (auto simp: ts_before_def timestamptz_def not_after_def split: option.splits if_splits)

lemma ts_before_bound: "ts_before t (Some (wall cutoff)) \<Longrightarrow> not_after cutoff b \<Longrightarrow> ts_before t b"
  by (auto simp: ts_before_def not_after_def split: option.splits)

lemma prunes_drop_not_after:
  assumes d: "db_inv d" and keep: "\<forall>ts. \<not> ts_before ts (Some (wall cutoff)) \<longrightarrow> keep ts"
    and b: "not_after cutoff c \<or> t = RawPayloads \<and> not_after cutoff rc"
  shows "prunes c rc d (drop_rows t keep d)"
proof (cases "not_after cutoff c")
  case True
  then obtain x where c: "c = Some x" by (auto simp: not_after_def split: option.splits)
  from True keep have "\<forall>ts. \<not> ts_before ts (Some x) \<longrightarrow> keep ts" unfolding c using ts_before_bound by blast
  with prunes_drop [OF d] show ?thesis unfolding c by blast
next
  case False
  with b obtain x where rc: "rc = Some x" "t = RawPayloads" "not_after cutoff rc"
    by (auto simp: not_after_def split: option.splits)
  with keep have "\<forall>ts. \<not> ts_before ts (Some x) \<longrightarrow> keep ts" using ts_before_bound by blast
  with prunes_drop_raw show ?thesis unfolding rc(1,2) by blast
qed

text \<open>A listed identifier belongs to expired runs only, now and later.\<close>

definition stale :: "int option \<Rightarrow> database \<times> nat set \<Rightarrow> nat list \<Rightarrow> bool" where
  "stale c x ids \<longleftrightarrow> (\<forall>i \<in> set ids. i \<notin> snd x \<and>
     (\<forall>p \<in> set (t_runs (fst x)). po_id p = i \<longrightarrow> ts_before (po_started_at p) c))"

lemma stale_evolves: "stale c x ids \<Longrightarrow> evolves c rc x y \<Longrightarrow> stale c y ids"
  by (fastforce simp: stale_def evolves_def)

section \<open>Calls outside transactions\<close>

lemma settles_refresh: "db_inv d \<Longrightarrow> settles c rc d (snd (sql_refresh arr coll v d))"
  by (simp add: settles_def sql_refresh_def retains_def db_inv_views raw_ids_def)

lemma settles_delete:
  assumes "db_inv d" and "stale c (d, U) ids"
  shows "settles c rc d (snd (sql_delete_poll_runs ids d))"
proof -
  have i: "integrity d" "foreign_keys_ok d" using assms(1) by (simp_all add: db_inv_def integrity_def)
  have "prunes c rc d (delete_runs (set ids) d)"
    by (rule prunes_delete_runs) (use assms(2) i(2) in \<open>auto simp: stale_def\<close>)
  then show ?thesis
    unfolding sql_delete_poll_runs_def snd_conv
    by (rule settles_prunes [OF _ assms(1) integrity_delete [OF i(1)]]) simp
qed

lemma settles_delete_raw:
  assumes "db_inv d" and "not_after cutoff rc"
  shows "settles c rc d (snd (sql_delete_expired_raw (timestamptz cutoff) n d))"
proof -
  have i: "integrity d" using assms(1) by (simp add: db_inv_def)
  show ?thesis
    unfolding sql_delete_expired_raw_def Let_def snd_conv
    by (rule settles_prunes [OF prunes_shrink_raw assms(1) integrity_shrink_raw [OF i]])
       (use ts_before_not_after [OF _ assms(2)] in auto)
qed

lemma settles_drop:
  assumes "drop_law chunks" and "db_inv d" and b: "not_after cutoff c \<or> t = RawPayloads \<and> not_after cutoff rc"
  shows "settles c rc d (snd (sql_drop_chunks chunks t (wall cutoff) d))"
proof (rule drop_chunks_rows [OF assms(1), of t "wall cutoff" d])
  fix keep
  assume d': "snd (sql_drop_chunks chunks t (wall cutoff) d) = drop_rows t keep d"
    and keep: "\<forall>ts. \<not> ts_before ts (Some (wall cutoff)) \<longrightarrow> keep ts"
  have "integrity d" using assms(2) by (simp add: db_inv_def)
  moreover have "t_seq (drop_rows t keep d) = t_seq d" by (cases t) simp_all
  ultimately show ?thesis
    unfolding d' by (intro settles_prunes [OF prunes_drop_not_after [OF assms(2) keep b] assms(2)] integrity_drop) simp_all
qed

lemma stale_listed:
  assumes inv: "db_inv d" "txs_ok d T" and b: "not_after cutoff c" and l: "sql_list_expired (timestamptz cutoff) n d = (Inr ids, d')"
  shows "stale c (d, unborn d T) ids"
proof -
  have i: "distinct (map po_id (t_runs d))"
    using inv by (simp add: db_inv_def integrity_def ids_ok_def)
  let ?le = "\<lambda>p q. ts_le (po_started_at p) (po_started_at q)" and ?P = "\<lambda>p. ts_before (po_started_at p) (timestamptz cutoff)"
  have ids: "set ids = po_id ` set (take n (order_by ?le (filter ?P (t_runs d))))"
    using l by (auto simp: sql_list_expired_def)
  note sel = batch_counts(5) [OF i ids]
  have "set ids \<subseteq> run_ids d"
    unfolding ids run_ids_def using set_take_order_by [of n ?le "filter ?P (t_runs d)"] by fastforce
  with sel unborn_fresh [OF inv] ts_before_not_after [OF _ b] show ?thesis unfolding stale_def by auto
qed

section \<open>Every step keeps the invariant\<close>

definition view_of :: "server \<Rightarrow> database \<times> nat set" where
  "view_of s = (case s of (w, L, T) \<Rightarrow> (tables w, unborn (tables w) T))"

lemma view_of [simp]: "view_of (w, L, T) = (tables w, unborn (tables w) T)"
  by (simp add: view_of_def)

definition server_inv :: "int option \<Rightarrow> server \<Rightarrow> bool" where
  "server_inv c s \<longleftrightarrow> (case s of (w, L, T) \<Rightarrow>
     db_inv (tables w) \<and> txs_ok (tables w) T \<and> (\<forall>ids \<in> L. stale c (view_of s) ids))"

definition advances :: "int option \<Rightarrow> int option \<Rightarrow> server \<Rightarrow> server \<Rightarrow> bool" where
  "advances c rc s s' \<longleftrightarrow> server_inv c s' \<and> evolves c rc (view_of s) (view_of s')"

lemma advancesI:
  assumes "server_inv c (w, L, T)" and "db_inv (tables w')" and "txs_ok (tables w') T'"
    and "evolves c rc (tables w, unborn (tables w) T) (tables w', unborn (tables w') T')"
  shows "advances c rc (w, L, T) (w', L, T')"
proof -
  have "stale c (tables w', unborn (tables w') T') ids" if "ids \<in> L" for ids
    using assms(1) that stale_evolves [OF _ assms(4)] by (simp add: server_inv_def)
  with assms(2-4) show ?thesis by (simp add: advances_def server_inv_def)
qed

lemma advances_settles:
  assumes inv: "server_inv c (w, L, T)" and s: "settles c rc (tables w) (tables w')"
  shows "advances c rc (w, L, T) (w', L, T)"
proof (rule advancesI [OF inv])
  have seq: "\<forall>t. t_seq (tables w) t \<le> t_seq (tables w') t" and sub: "set (t_runs (tables w')) \<subseteq> set (t_runs (tables w))"
    using s by (simp_all add: settles_def)
  show "db_inv (tables w')" using s by (simp add: settles_def)
  have "txs_ok (tables w) T" "raw_ids (tables w') \<subseteq> raw_ids (tables w)"
    using inv s by (simp_all add: server_inv_def settles_def)
  moreover have "run_ids (tables w') \<subseteq> run_ids (tables w)" unfolding run_ids_def by (rule image_mono [OF sub])
  ultimately show "txs_ok (tables w') T" using txs_ok_fewer [OF _ seq] by blast
  have "unborn (tables w') T \<subseteq> unborn (tables w) T"
    using seq order_trans by (fastforce simp: unborn_def)
  with s show "evolves c rc (tables w, unborn (tables w) T) (tables w', unborn (tables w') T)"
    by (auto simp: evolves_def settles_def)
qed

text \<open>Calls of a transaction.\<close>

lemma advances_end:
  assumes inv: "server_inv c (w, L, T1 @ t # T2)" and w': "tables w' = (tables w)\<lparr>t_seq := q\<rparr>" "\<forall>x. t_seq (tables w) x \<le> q x"
  shows "advances c rc (w, L, T1 @ t # T2) (w', L, T1 @ T2)"
proof (rule advancesI [OF inv])
  have ok: "db_inv (tables w)" "txs_ok (tables w) (T1 @ T2)"
    using inv txs_ok_drop [of "tables w" T1 t T2] by (simp_all add: server_inv_def)
  show "db_inv (tables w')" using settles_seq [OF ok(1) w'(2)] w'(1) by (simp add: settles_def)
  show "txs_ok (tables w') (T1 @ T2)" using txs_ok_seq [OF ok(2) w'(2)] w'(1) by simp
  have "t_seq (tables w) PollRuns \<le> t_seq (tables w') PollRuns" using w' by simp
  then have "unborn (tables w') (T1 @ T2) \<subseteq> unborn (tables w) (T1 @ t # T2)"
    by (auto simp: unborn_def intro: order_trans)
  then show "evolves c rc (tables w, unborn (tables w) (T1 @ t # T2)) (tables w', unborn (tables w') (T1 @ T2))"
    using w'(1) by (simp add: evolves_def retains_def)
qed

lemma advances_call:
  assumes call: "in_tx q (w, tx_rows t) = (res, (w', own))" "keeps safe_step q" and inv: "server_inv c (w, L, T1 @ t # T2)"
    and rows: "\<And>x. tx_rows (f x) = own" "\<And>x. tx_result (f x) = tx_result t"
    and ok: "\<And>x. res = Inr x \<Longrightarrow> integrity (tables w) \<Longrightarrow> own_ok (tables w) (tx_rows t) \<Longrightarrow> timed (tx_result t) \<Longrightarrow>
      stage_ok (tx_result t) (tx_stage t) (tx_rows t) \<Longrightarrow>
      extends (tables w) (tx_rows t) (tables w') own \<and> stage_ok (tx_result t) (tx_stage (f x)) own"
  shows "advances c rc (w, L, T1 @ t # T2) (w', L, T1 @ (case res of Inl _ \<Rightarrow> [] | Inr x \<Rightarrow> [f x]) @ T2)"
proof -
  from in_tx_sequences [OF call] obtain s where
    s: "tables w' = (tables w)\<lparr>t_seq := s\<rparr>" "\<forall>x. t_seq (tables w) x \<le> s x" by blast
  show ?thesis
  proof (cases res)
    case (Inl e)
    with advances_end [OF inv s] show ?thesis by simp
  next
    case (Inr x)
    have inv': "db_inv (tables w)" "txs_ok (tables w) (T1 @ t # T2)" using inv by (simp_all add: server_inv_def)
    then have "integrity (tables w)" "tx_ok (tables w) t" by (simp_all add: db_inv_def txs_ok_def)
    with ok [OF Inr] have e: "extends (tables w) (tx_rows t) (tables w') (tx_rows (f x))"
      "stage_ok (tx_result (f x)) (tx_stage (f x)) (tx_rows (f x))"
      by (simp_all add: tx_ok_def rows)
    note more = txs_ok_extend [OF inv'(2) e(1) s rows(2) e(2)]
    have "advances c rc (w, L, T1 @ t # T2) (w', L, T1 @ f x # T2)"
    proof (rule advancesI [OF inv _ more(1)])
      show "db_inv (tables w')" using settles_seq [OF inv'(1) s(2)] s(1) by (simp add: settles_def)
      show "evolves c rc (tables w, unborn (tables w) (T1 @ t # T2)) (tables w', unborn (tables w') (T1 @ f x # T2))"
        using more(2) s(1) by (simp add: evolves_def retains_def)
    qed
    with Inr show ?thesis by simp
  qed
qed

lemma advances_begin:
  assumes inv: "server_inv c (w, L, T)" and "tables w' = tables w" and "timed r"
  shows "advances c rc (w, L, T) (w', L, T @ [\<lparr>tx_result = r, tx_stage = Begun, tx_rows = empty_db\<rparr>])"
proof (rule advancesI [OF inv])
  have ids: "run_ids empty_db = {}" "raw_ids empty_db = {}" by (simp_all add: empty_db_def run_ids_def raw_ids_def)
  have "integrity (empty_db\<lparr>t_seq := t_seq (tables w)\<rparr>)" "aligned empty_db"
    by (simp_all add: integrity_defs empty_db_def run_ids_def aligned_def)
  with ids have "tx_ok (tables w) \<lparr>tx_result = r, tx_stage = Begun, tx_rows = empty_db\<rparr>"
    using assms(3) by (simp add: tx_ok_def own_ok_def apart_def stage_ok_def)
  with inv ids show "txs_ok (tables w') (T @ [\<lparr>tx_result = r, tx_stage = Begun, tx_rows = empty_db\<rparr>])"
    by (simp add: txs_ok_def server_inv_def sorted_wrt_append apart_def assms(2))
  show "db_inv (tables w')" using inv by (simp add: server_inv_def assms(2))
  show "evolves c rc (tables w, unborn (tables w) T)
      (tables w', unborn (tables w') (T @ [\<lparr>tx_result = r, tx_stage = Begun, tx_rows = empty_db\<rparr>]))"
    by (simp add: evolves_def retains_def unborn_def ids assms(2))
qed

lemma advances_commit:
  assumes inv: "server_inv c (w, L, T1 @ t # T2)" and w': "tables w' = overlay (tables w) (tx_rows t)"
    and st: "tx_stage t = Completed run"
  shows "advances c rc (w, L, T1 @ t # T2) (w', L, T1 @ T2)"
proof (rule advancesI [OF inv])
  have d: "db_inv (tables w)" "txs_ok (tables w) (T1 @ t # T2)" using inv by (simp_all add: server_inv_def)
  then have t: "timed (tx_result t)" "own_ok (tables w) (tx_rows t)" "t_runs (tx_rows t) = [run_row run (tx_result t)]"
    using st by (simp_all add: txs_ok_def tx_ok_def stage_ok_def)
  have "completed (tx_rows t)"
    using t(1,3) by (auto simp: completed_def timed_def timestamptz_def pr_success_def nullableError_def split: option.splits)
  with d(1) t(2) show "db_inv (tables w')"
    by (simp add: w' db_inv_def integrity_overlay aligned_overlay completed_overlay)
  have "tx_ok (tables w') u" if "u \<in> set (T1 @ T2)" for u
  proof (rule tx_ok_mono)
    show u: "tx_ok (tables w) u" using d(2) that by (auto simp: txs_ok_def)
    have "apart (tx_rows t) (tx_rows u)"
      using d(2) that apart_sym by (auto simp: txs_ok_def sorted_wrt_append)
    with tx_ok_apart [OF u] show "apart (tables w') (tx_rows u)" by (simp add: w' apart_overlay)
  qed (simp add: w')
  with txs_ok_drop [OF d(2)] show "txs_ok (tables w') (T1 @ T2)" by (simp add: txs_ok_def)
  show "evolves c rc (tables w, unborn (tables w) (T1 @ t # T2)) (tables w', unborn (tables w') (T1 @ T2))"
    by (auto simp: evolves_def retains_def w' unborn_def run_ids_def)
qed

lemma commit_tables:
  assumes "Commit d0 w = (res, w')"
  shows "tables w' \<in> {tables w, rolled_back d0 (tables w)}"
  using assms by (auto simp: Commit_def Rollback_def split: option.splits fault.splits)

lemma keeps_save_write: "save_write marshal r run q \<Longrightarrow> keeps safe_step q"
  by (induction rule: save_write.induct) (simp_all add: keeps_queries)

lemma server_step_advances:
  assumes law: "drop_law chunks" and "server_step marshal arr coll chunks c rc s s'" and "server_inv c s"
  shows "advances c rc s s'"
  using assms(2,3)
proof (induction rule: server_step.induct)
  case (beginning w res w' r L T)
  have w': "tables w' = tables w" using begin_tables [of w] beginning by simp
  then have "advances c rc (w, L, T) (w', L, T)"
    using beginning by (intro advances_settles) (simp_all add: server_inv_def settles_refl)
  with advances_begin [OF beginning.prems w' beginning.hyps(2)] show ?case
    by (cases res) (simp_all add: unless_failed_def)
next
  case (creating t w res w' own L T1 T2)
  show ?case
    by (rule advances_call [OF creating(1) _ creating.prems])
       (use creating(1,2) creating_extends [of "tx_result t" w _ w' own] in \<open>auto simp: stage_ok_def keeps_queries\<close>)
next
  case (writing q w t res w' own run L T1 T2)
  show ?case unfolding unless_failed_def
    by (rule advances_call [OF writing(1) keeps_save_write [OF writing(2)] writing.prems])
       (use writing(1,3) writing_extends [OF _ writing(2)] in auto)
next
  case (completing run t w res w' own L T1 T2)
  show ?case unfolding unless_failed_def
    by (rule advances_call [OF completing(1) _ completing.prems])
       (use completing(1,2) completing_extends [of run "tx_result t" w "tx_rows t" w' own] in \<open>auto simp: keeps_queries\<close>)
next
  case (committing w t res w' run L T1 T2)
  from commit_tables [OF committing(1)] consider "tables w' = overlay (tables w) (tx_rows t)"
    | "tables w' = (tables w)\<lparr>t_seq := t_seq (tables w)\<rparr>" by (auto simp: rolled_back_def)
  then show ?case
    using advances_commit [OF committing.prems _ committing(2)] advances_end [OF committing.prems] by cases blast+
next
  case (rolling_back w L T1 t T2)
  show ?case by (rule advances_end [OF rolling_back, of _ "t_seq (tables w)"]) simp_all
next
  case (refreshing v w res w' L T)
  then show ?case
    by (intro advances_settles settles_exec [OF refreshing(1)] settles_refresh) (simp_all add: server_inv_def)
next
  case (pinging w res w' L T)
  then have "tables w' = tables w" using ping_tables [of w] by simp
  with pinging show ?case by (intro advances_settles) (simp_all add: server_inv_def settles_refl)
next
  case (querying w rows w' L T)
  then have "tables w' = tables w"
    using exec_tables [of "sql_list_present_peers coll" w] by (simp add: ListPresentPeers_def sql_list_present_peers_def)
  with querying show ?case by (intro advances_settles) (simp_all add: server_inv_def settles_refl)
next
  case (listing cutoff n w res w' L T)
  let ?stmt = "sql_list_expired (timestamptz cutoff) (nat (sint n))"
  have l: "exec ?stmt w = (res, w')" using listing by (simp add: ListExpiredPollRunIDs_def)
  then have t: "tables w' = tables w" using exec_tables [of ?stmt w] by (simp add: sql_list_expired_def)
  have inv: "db_inv (tables w)" "txs_ok (tables w) T" using listing by (simp_all add: server_inv_def)
  have "server_inv c (w', (case res of Inl e \<Rightarrow> L | Inr ids \<Rightarrow> insert ids L), T)"
  proof (cases res)
    case (Inl e)
    with t listing show ?thesis by (simp add: server_inv_def)
  next
    case (Inr ids)
    with exec_ok [of ?stmt w ids w'] l have "?stmt (tables w) = (Inr ids, tables w')" by simp
    from stale_listed [OF inv listing(2) this] Inr t listing show ?thesis by (simp add: server_inv_def)
  qed
  with t show ?case by (simp add: advances_def evolves_refl)
next
  case (deleting ids w res w' L T)
  then show ?case
    by (intro advances_settles settles_exec [OF deleting(1) [unfolded DeletePollRuns_def]] settles_delete)
       (auto simp: server_inv_def)
next
  case (deleting_raw cutoff n w res w' L T)
  then show ?case
    by (intro advances_settles settles_exec [OF deleting_raw(1) [unfolded DeleteExpiredRaw_def]] settles_delete_raw)
       (simp_all add: server_inv_def)
next
  case (dropping t cutoff w res w' L T)
  have "snd (DropChunks chunks t cutoff w) = snd (exec (sql_drop_chunks chunks t (wall cutoff)) w)"
    by (simp add: DropChunks_def)
  with dropping(1) obtain x where x: "exec (sql_drop_chunks chunks t (wall cutoff)) w = (x, w')" by (metis snd_conv surj_pair)
  show ?case
    by (intro advances_settles settles_exec [OF x] settles_drop [OF law]) (use dropping in \<open>simp_all add: server_inv_def\<close>)
qed

lemma server_run_advances:
  assumes "drop_law chunks" and "(server_step marshal arr coll chunks c rc)\<^sup>*\<^sup>* s s'" and "server_inv c s"
  shows "advances c rc s s'"
  using assms(2)
proof (induction rule: rtranclp_induct)
  case base
  then show ?case using assms(3) by (simp add: advances_def evolves_refl)
next
  case (step t u)
  obtain d U where d: "view_of s = (d, U)" by fastforce
  then have "integrity d" "run_ids d \<inter> U = {}"
    using assms(3) unborn_fresh by (auto simp: server_inv_def db_inv_def view_of_def split: prod.splits)
  with server_step_advances [OF assms(1) step.hyps(2)] step.IH evolves_trans show ?case
    unfolding advances_def d by (metis surj_pair)
qed

end
