(* ===== verification/Server_Path.thy ===== *)
theory Server_Path
  imports Interleaving
begin

text \<open>
  The operations of the program are made of the steps of \<open>Interleaving\<close>: a save is its
  transaction call by call, the listing and the deletion of a batch are two steps, and a round, a
  pruning and a request are sequences of such.
\<close>

section \<open>Inside a transaction\<close>

text \<open>
  The state of the server when a transaction, begun on the tables \<open>d0\<close>, sees the tables of
  \<open>w\<close>: the rows of \<open>d0\<close> with its own after them.
\<close>

definition tx_state :: "database \<Rightarrow> nat list set \<Rightarrow> txn list \<Rightarrow> PollResult \<Rightarrow> stage \<Rightarrow> world \<Rightarrow> server" where
  "tx_state d0 L T r st w = (w\<lparr>tables := d0\<lparr>t_seq := t_seq (tables w)\<rparr>\<rparr>, L,
     T @ [\<lparr>tx_result = r, tx_stage = st, tx_rows = written d0 (tables w)\<rparr>])"

definition grown :: "database \<Rightarrow> database \<Rightarrow> bool" where
  "grown d0 e \<longleftrightarrow> overlay (d0\<lparr>t_seq := t_seq e\<rparr>) (written d0 e) = e"

lemma grownI:
  assumes "t_runs e = t_runs d0 @ a1" and "t_raw e = t_raw d0 @ a2" and "t_hostmap e = t_hostmap d0 @ a3"
    and "t_addrmap e = t_addrmap d0 @ a4" and "t_relays e = t_relays d0 @ a5" and "t_views e = t_views d0"
  shows "grown d0 e"
  unfolding grown_def by (rule database.equality) (simp_all add: assms overlay_def)

lemma grownE:
  assumes "grown d0 e"
  obtains a1 a2 a3 a4 a5 where "t_runs e = t_runs d0 @ a1" and "t_raw e = t_raw d0 @ a2" and "t_hostmap e = t_hostmap d0 @ a3"
    and "t_addrmap e = t_addrmap d0 @ a4" and "t_relays e = t_relays d0 @ a5" and "t_views e = t_views d0"
proof -
  obtain own where "e = overlay (d0\<lparr>t_seq := t_seq e\<rparr>) own" using assms unfolding grown_def by metis
  from arg_cong [OF this, of t_runs] arg_cong [OF this, of t_raw] arg_cong [OF this, of t_hostmap]
    arg_cong [OF this, of t_addrmap] arg_cong [OF this, of t_relays] arg_cong [OF this, of t_views]
  show thesis using that by simp
qed

text \<open>
  How a call of the program moves the server: from stage to stage when it returns a value, and out
  of the transaction, rolled back, when it fails.
\<close>

definition reach :: "(server \<Rightarrow> server \<Rightarrow> bool) \<Rightarrow> database \<Rightarrow> nat list set \<Rightarrow> txn list \<Rightarrow> PollResult \<Rightarrow> stage \<Rightarrow> stage \<Rightarrow> world \<Rightarrow> world \<Rightarrow> bool" where
  "reach step d0 L T r st st' w w' \<longleftrightarrow> (grown d0 (tables w) \<longrightarrow>
     grown d0 (tables w') \<and> step\<^sup>*\<^sup>* (tx_state d0 L T r st w) (tx_state d0 L T r st' w'))"

definition gone :: "(server \<Rightarrow> server \<Rightarrow> bool) \<Rightarrow> database \<Rightarrow> nat list set \<Rightarrow> txn list \<Rightarrow> PollResult \<Rightarrow> stage \<Rightarrow> world \<Rightarrow> world \<Rightarrow> bool" where
  "gone step d0 L T r st w w' \<longleftrightarrow> (grown d0 (tables w) \<longrightarrow> step\<^sup>*\<^sup>* (tx_state d0 L T r st w) (Rollback d0 w', L, T))"

lemma reach_trans: "reach step d0 L T r st st' w u \<Longrightarrow> reach step d0 L T r st' st'' u v \<Longrightarrow> reach step d0 L T r st st'' w v"
  unfolding reach_def by (meson rtranclp_trans)

lemma reach_gone: "reach step d0 L T r st st' w u \<Longrightarrow> gone step d0 L T r st' u v \<Longrightarrow> gone step d0 L T r st w v"
  unfolding reach_def gone_def by (meson rtranclp_trans)

interpretation tx: exit_frame "reach step d0 L T r st st" "gone step d0 L T r st" for step d0 L T r st
proof unfold_locales
  show "reach step d0 L T r st st w w" for w by (simp add: reach_def)
qed (fact reach_trans, fact reach_gone)

lemma in_tx_call:
  assumes "grown d0 (tables w)" and "q w = (res, w')"
  shows "in_tx q (w\<lparr>tables := d0\<lparr>t_seq := t_seq (tables w)\<rparr>\<rparr>, written d0 (tables w)) =
    (res, (w'\<lparr>tables := d0\<lparr>t_seq := t_seq (tables w')\<rparr>\<rparr>, written d0 (tables w')))"
  using assms by (simp add: in_tx_def grown_def)

lemma rollback_tables: "Rollback d0 w = w\<lparr>tables := d0\<lparr>t_seq := t_seq (tables w)\<rparr>\<rparr>"
  by (simp add: Rollback_def rolled_back_def)

lemma callI:
  assumes "\<And>w res w'. q w = (res, w') \<Longrightarrow> grown d0 (tables w) \<Longrightarrow>
      step (tx_state d0 L T r st w) (w'\<lparr>tables := d0\<lparr>t_seq := t_seq (tables w')\<rparr>\<rparr>, L,
        T @ (case res of Inl _ \<Rightarrow> [] | Inr _ \<Rightarrow> [\<lparr>tx_result = r, tx_stage = st', tx_rows = written d0 (tables w')\<rparr>]))"
    and "\<And>w x w'. q w = (Inr x, w') \<Longrightarrow> grown d0 (tables w) \<Longrightarrow> grown d0 (tables w')"
  shows "exits (reach step d0 L T r st st') (gone step d0 L T r st) q"
  unfolding exits_def
proof
  fix w
  obtain res w' where q: "q w = (res, w')" by fastforce
  show "(case fst (q w) of Inl _ \<Rightarrow> gone step d0 L T r st | Inr _ \<Rightarrow> reach step d0 L T r st st') w (snd (q w))"
    using assms(1) [OF q] assms(2) [of w _ w'] q
    by (cases res) (auto simp: gone_def reach_def rollback_tables tx_state_def)
qed

section \<open>The calls of a save\<close>

lemma grown_rows:
  assumes "grown d0 d"
  shows "grown d0 (add_raw p d)" "grown d0 (add_hostmap h d)" "grown d0 (add_addrmap m d)" "grown d0 (add_relay s d)"
  using assms by (auto elim!: grownE intro!: grownI)

lemma grown_write:
  assumes "save_write marshal r run q" and "q w = (Inr x, w')" and "grown d0 (tables w)"
  shows "grown d0 (tables w')"
  using assms(1)
proof cases
  case (raw c)
  with insert_raw_ok assms(2,3) grown_rows(1) show ?thesis by metis
next
  case (hostmap source es i e doc)
  with insert_hostmap_ok assms(2,3) grown_rows(2) show ?thesis by metis
next
  case (addrmap a)
  with insert_addrmap_ok assms(2,3) grown_rows(3) show ?thesis by metis
next
  case (relay a)
  with insert_relay_ok assms(2,3) grown_rows(4) show ?thesis by metis
qed

lemma exits_write:
  assumes "save_write marshal r run q"
  shows "exits (reach (server_step marshal arr coll chunks c rc) d0 L T r (Running run) (Running run))
    (gone (server_step marshal arr coll chunks c rc) d0 L T r (Running run)) q"
proof (rule callI)
  fix w res w' assume q: "q w = (res, w')" "grown d0 (tables w)"
  let ?t = "\<lparr>tx_result = r, tx_stage = Running run, tx_rows = written d0 (tables w)\<rparr>"
  have call: "in_tx q (w\<lparr>tables := d0\<lparr>t_seq := t_seq (tables w)\<rparr>\<rparr>, tx_rows ?t) =
      (res, (w'\<lparr>tables := d0\<lparr>t_seq := t_seq (tables w')\<rparr>\<rparr>, written d0 (tables w')))"
    using in_tx_call [of d0 w q res w'] q by simp
  from server_step.writing [OF call, of marshal run arr coll chunks c rc L T "[]"] assms
  show "server_step marshal arr coll chunks c rc (tx_state d0 L T r (Running run) w) (w'\<lparr>tables := d0\<lparr>t_seq := t_seq (tables w')\<rparr>\<rparr>, L,
      T @ (case res of Inl _ \<Rightarrow> [] | Inr _ \<Rightarrow> [\<lparr>tx_result = r, tx_stage = Running run, tx_rows = written d0 (tables w')\<rparr>]))"
    by (simp add: tx_state_def unless_failed_def)
qed (rule grown_write [OF assms])

lemma exits_hostmap_entry:
  assumes "(source, es) \<in> {(''hostmap'', pr_hostmap r), (''pending'', pr_pending r)}" and "ie \<in> set (enumerate 0 (elems es))"
  shows "exits (reach (server_step marshal arr coll chunks c rc) d0 L T r (Running run) (Running run))
    (gone (server_step marshal arr coll chunks c rc) d0 L T r (Running run)) (insert_hostmap_entry marshal run r source ie)"
proof -
  obtain i e where ie: "ie = (i, e)" by (cases ie)
  show ?thesis
  proof (cases "entry_raw marshal source e")
    case (Inl err)
    have "server_step marshal arr coll chunks c rc (tx_state d0 L T r (Running run) w) (Rollback d0 w, L, T)" for w
      unfolding tx_state_def rollback_tables using server_step.rolling_back [where ?T2.0 = "[]"] by fastforce
    then show ?thesis
      by (simp add: exits_def insert_hostmap_entry_def ie Inl gone_def r_into_rtranclp)
  next
    case (Inr doc)
    from save_write.hostmap [OF assms [unfolded ie] Inr, of run]
    show ?thesis
      unfolding insert_hostmap_entry_def ie by (simp add: Inr) (rule tx.exits_wrapE [OF exits_write])
  qed
qed

lemma exits_addrmap_entry:
  assumes "e \<in> set (elems (pr_addrmap r))"
  shows "exits (reach (server_step marshal arr coll chunks c rc) d0 L T r (Running run) (Running run))
    (gone (server_step marshal arr coll chunks c rc) d0 L T r (Running run)) (insert_addrmap_entry run r e)"
proof (cases "am_addrs e = []")
  case True
  then have "empty_addrmap_params run r e \<in> set (addrmap_rows run r)"
    using assms by (auto simp: addrmap_rows_def addrmap_rows_of_def)
  with True show ?thesis
    unfolding insert_addrmap_entry_def by (simp add: tx.exits_wrapE exits_write save_write.addrmap)
next
  case False
  then have "addrmap_params run r e ra \<in> set (addrmap_rows run r)" if "ra \<in> set (am_addrs e)" for ra
    using assms that by (auto simp: addrmap_rows_def addrmap_rows_of_def)
  with False show ?thesis
    unfolding insert_addrmap_entry_def by (simp add: tx.exits_foreach tx.exits_wrapE exits_write save_write.addrmap)
qed

lemma exits_complete:
  assumes "run \<notin> run_ids d0"
  shows "exits (reach (server_step marshal arr coll chunks c rc) d0 L T r (Running run) (Completed run))
    (gone (server_step marshal arr coll chunks c rc) d0 L T r (Running run)) (CompletePollRun (complete_params run r))"
proof (rule callI)
  fix w res w' assume q: "CompletePollRun (complete_params run r) w = (res, w')" "grown d0 (tables w)"
  let ?t = "\<lparr>tx_result = r, tx_stage = Running run, tx_rows = written d0 (tables w)\<rparr>"
  have call: "in_tx (CompletePollRun (complete_params run (tx_result ?t))) (w\<lparr>tables := d0\<lparr>t_seq := t_seq (tables w)\<rparr>\<rparr>, tx_rows ?t) =
      (res, (w'\<lparr>tables := d0\<lparr>t_seq := t_seq (tables w')\<rparr>\<rparr>, written d0 (tables w')))"
    using in_tx_call [of d0 w _ res w'] q by simp
  from server_step.completing [OF call, of marshal arr coll chunks c rc L T "[]"]
  show "server_step marshal arr coll chunks c rc (tx_state d0 L T r (Running run) w) (w'\<lparr>tables := d0\<lparr>t_seq := t_seq (tables w')\<rparr>\<rparr>, L,
      T @ (case res of Inl _ \<Rightarrow> [] | Inr _ \<Rightarrow> [\<lparr>tx_result = r, tx_stage = Completed run, tx_rows = written d0 (tables w')\<rparr>]))"
    by (simp add: tx_state_def unless_failed_def)
next
  fix w x w' assume q: "CompletePollRun (complete_params run r) w = (Inr x, w')" and g: "grown d0 (tables w)"
  have "map (\<lambda>p. if po_id p = run then complete_run (complete_params run r) p else p) (t_runs d0) = t_runs d0"
    using assms by (intro map_idI) (auto simp: run_ids_def)
  with complete_run_ok [OF q] g show "grown d0 (tables w')"
    by (auto simp: complete_params_def elim!: grownE intro!: grownI)
qed

section \<open>A save\<close>

text \<open>The body after CreatePollRun.\<close>

definition save_rest :: "marshal \<Rightarrow> PollResult \<Rightarrow> nat \<Rightarrow> (world, unit) act" where
  "save_rest marshal r run =
     bindE (foreach (\<lambda>c. wrapE (''insert raw command '' @ Quote (cr_command c))
              (InsertRawCommandPayload (raw_params run r c))) (pr_commands r)) (\<lambda>_.
     bindE (insertHostmapEntries marshal run r ''hostmap'' (pr_hostmap r)) (\<lambda>_.
     bindE (insertHostmapEntries marshal run r ''pending'' (pr_pending r)) (\<lambda>_.
     bindE (insertLighthouseAddrmap run r) (\<lambda>_.
     bindE (if go_len (pr_relays r) > 0
            then wrapE ''insert relay snapshot'' (InsertRelaySnapshot (relay_params run r))
            else ret ()) (\<lambda>_.
     wrapE ''complete poll run'' (CompletePollRun (complete_params run r)))))))"

lemma save_body_rest: "save_body marshal r = bindE (wrapE ''create poll run'' (CreatePollRun (create_params r))) (save_rest marshal r)"
  unfolding save_body_def save_rest_def ..

lemma exits_rest:
  assumes "run \<notin> run_ids d0"
  shows "exits (reach (server_step marshal arr coll chunks c rc) d0 L T r (Running run) (Completed run))
    (gone (server_step marshal arr coll chunks c rc) d0 L T r (Running run)) (save_rest marshal r run)"
proof -
  note next_part = tx.exits_then [OF _ _ reach_trans]
  let ?R = "reach (server_step marshal arr coll chunks c rc) d0 L T r (Running run) (Running run)"
    and ?E = "gone (server_step marshal arr coll chunks c rc) d0 L T r (Running run)"
  have raw: "exits ?R ?E (foreach (\<lambda>c. wrapE (''insert raw command '' @ Quote (cr_command c))
      (InsertRawCommandPayload (raw_params run r c))) (pr_commands r))"
    by (intro tx.exits_foreach tx.exits_wrapE exits_write save_write.raw)
  have hosts: "exits ?R ?E (insertHostmapEntries marshal run r source es)"
    if "(source, es) \<in> {(''hostmap'', pr_hostmap r), (''pending'', pr_pending r)}" for source es
    unfolding insertHostmapEntries_def by (intro tx.exits_foreach exits_hostmap_entry [OF that])
  have addrs: "exits ?R ?E (insertLighthouseAddrmap run r)"
    unfolding insertLighthouseAddrmap_def by (intro tx.exits_foreach exits_addrmap_entry)
  have relay: "exits ?R ?E (if go_len (pr_relays r) > 0
      then wrapE ''insert relay snapshot'' (InsertRelaySnapshot (relay_params run r)) else ret ())"
    by (simp add: tx.exits_ret tx.exits_wrapE exits_write save_write.relay relay_rows_def)
  show ?thesis
    unfolding save_rest_def
    by (rule next_part [OF raw], rule next_part [OF hosts], simp, rule next_part [OF hosts], simp,
        rule next_part [OF addrs], rule next_part [OF relay], rule tx.exits_wrapE [OF exits_complete [OF assms]])
qed

lemma create_path:
  assumes "CreatePollRun (create_params r) w = (res, w')" and "tables w = d0" and "integrity d0"
  shows "case res of
      Inl e \<Rightarrow> gone (server_step marshal arr coll chunks c rc) d0 L T r Begun w w'
    | Inr run \<Rightarrow> run \<notin> run_ids d0 \<and> reach (server_step marshal arr coll chunks c rc) d0 L T r Begun (Running run) w w'"
proof -
  let ?t = "\<lparr>tx_result = r, tx_stage = Begun, tx_rows = written d0 (tables w)\<rparr>"
  have g: "grown d0 (tables w)" unfolding assms(2) by (rule grownI) auto
  have "in_tx (CreatePollRun (create_params (tx_result ?t))) (w\<lparr>tables := d0\<lparr>t_seq := t_seq (tables w)\<rparr>\<rparr>, tx_rows ?t) =
      (res, (w'\<lparr>tables := d0\<lparr>t_seq := t_seq (tables w')\<rparr>\<rparr>, written d0 (tables w')))"
    using in_tx_call [of d0 w _ res w'] g assms(1) by simp
  from server_step.creating [OF this, of marshal arr coll chunks c rc L T "[]"]
  have step: "server_step marshal arr coll chunks c rc (tx_state d0 L T r Begun w) (w'\<lparr>tables := d0\<lparr>t_seq := t_seq (tables w')\<rparr>\<rparr>, L,
      T @ (case res of Inl _ \<Rightarrow> [] | Inr run \<Rightarrow> [\<lparr>tx_result = r, tx_stage = Running run, tx_rows = written d0 (tables w')\<rparr>]))"
    by (simp add: tx_state_def cong: sum.case_cong)
  show ?thesis
  proof (cases res)
    case (Inl e)
    with step show ?thesis by (simp add: gone_def rollback_tables r_into_rtranclp)
  next
    case (Inr run)
    note new = create_run_ok [OF assms(1) [unfolded Inr], unfolded assms(2)]
    have "grown d0 (tables w')" using new by (intro grownI) auto
    moreover have "run \<notin> run_ids d0" using new assms(3) by (auto simp: integrity_def ids_ok_def)
    ultimately show ?thesis using step Inr by (simp add: reach_def tx_state_def r_into_rtranclp)
  qed
qed

text \<open>The body of the transaction, and its end.\<close>

lemma body_path:
  assumes body: "save_body marshal r w = (x, w')" and "tables w = d0" and "integrity d0"
  shows "case x of
      Inl e \<Rightarrow> gone (server_step marshal arr coll chunks c rc) d0 L T r Begun w w'
    | Inr u \<Rightarrow> \<exists>run. reach (server_step marshal arr coll chunks c rc) d0 L T r Begun (Completed run) w w'"
proof -
  obtain res w2 where create: "CreatePollRun (create_params r) w = (res, w2)" by fastforce
  note created = create_path [OF create assms(2,3), of marshal arr coll chunks c rc L T]
  show ?thesis
  proof (cases res)
    case (Inl e)
    with create body have "x = Inl (Wrap ''create poll run'' e)" "w' = w2"
      by (simp_all add: save_body_rest bindE_def wrapE_def)
    with created Inl show ?thesis by simp
  next
    case (Inr run)
    with create body have rest: "save_rest marshal r run w2 = (x, w')" by (simp add: save_body_rest bindE_def wrapE_def)
    have new: "run \<notin> run_ids d0" and first: "reach (server_step marshal arr coll chunks c rc) d0 L T r Begun (Running run) w w2"
      using created Inr by simp_all
    from exits_rest [OF new, of marshal arr coll chunks c rc L T r, unfolded exits_def, rule_format, of w2] rest
    show ?thesis using reach_gone [OF first] reach_trans [OF first] by (cases x) auto
  qed
qed

lemma commit_seq: "Commit (d0\<lparr>t_seq := q\<rparr>) w = Commit d0 w"
  by (simp add: Commit_def Rollback_def rolled_back_def split: option.split fault.split)

lemma commit_path:
  assumes "grown d0 (tables w)"
  shows "server_step marshal arr coll chunks c rc (tx_state d0 L T r (Completed run) w) (snd (Commit d0 w), L, T)"
proof -
  let ?w = "w\<lparr>tables := d0\<lparr>t_seq := t_seq (tables w)\<rparr>\<rparr>"
    and ?t = "\<lparr>tx_result = r, tx_stage = Completed run, tx_rows = written d0 (tables w)\<rparr>"
  have "Commit (tables ?w) (?w\<lparr>tables := overlay (tables ?w) (tx_rows ?t)\<rparr>) = (fst (Commit d0 w), snd (Commit d0 w))"
    using assms by (simp add: grown_def commit_seq)
  from server_step.committing [OF this, of run marshal arr coll chunks c rc L T "[]"] show ?thesis
    by (simp add: tx_state_def)
qed

lemma save_path:
  assumes "timed r" and "integrity (tables w)"
  shows "(server_step marshal arr coll chunks c rc)\<^sup>*\<^sup>* (w, L, T) (snd (SavePollResult marshal r w), L, T)"
proof -
  let ?step = "server_step marshal arr coll chunks c rc" and ?d0 = "tables w"
  obtain b w1 where start: "BeginTx w = (b, w1)" by fastforce
  then have t1: "tables w1 = ?d0" using begin_tables [of w] by simp
  note first = server_step.beginning [OF start assms(1), of marshal arr coll chunks c rc L T]
  show ?thesis
  proof (cases b)
    case (Inl e)
    with start have "snd (SavePollResult marshal r w) = w1" by (simp add: SavePollResult_def)
    with first Inl show ?thesis by (simp add: unless_failed_def r_into_rtranclp)
  next
    case (Inr u)
    have g: "grown ?d0 (tables w1)" unfolding t1 by (rule grownI) auto
    have "tx_state ?d0 L T r Begun w1 = (w1, L, T @ [\<lparr>tx_result = r, tx_stage = Begun, tx_rows = empty_db\<rparr>])"
      using t1 by (simp add: tx_state_def)
    with first Inr have 1: "?step (w, L, T) (tx_state ?d0 L T r Begun w1)" by (simp add: unless_failed_def)
    obtain x w2 where body: "save_body marshal r w1 = (x, w2)" by fastforce
    have out: "snd (SavePollResult marshal r w) = (case x of Inl _ \<Rightarrow> Rollback ?d0 w2 | Inr _ \<Rightarrow> snd (Commit ?d0 w2))"
      using body start Inr t1 by (cases x) (simp_all add: SavePollResult_def)
    note path = body_path [OF body t1 assms(2), of arr coll chunks c rc L T]
    show ?thesis
    proof (cases x)
      case (Inl e)
      with path g 1 out show ?thesis by (simp add: gone_def converse_rtranclp_into_rtranclp)
    next
      case (Inr v)
      with path g obtain run where 2: "grown ?d0 (tables w2)" "?step\<^sup>*\<^sup>* (tx_state ?d0 L T r Begun w1) (tx_state ?d0 L T r (Completed run) w2)"
        by (auto simp: reach_def)
      from converse_rtranclp_into_rtranclp [OF 1 rtranclp.rtrancl_into_rtrancl [OF 2(2) commit_path [OF 2(1)]]] out Inr
      show ?thesis by simp
    qed
  qed
qed

section \<open>The operations of the program are such steps\<close>

text \<open>
  From any tables that meet the schema, whatever was listed before and whatever transactions are in
  progress, \<open>w'\<close> can be reached from \<open>w\<close> by steps of the server that leave these
  transactions as they are.
\<close>

definition server_path ::
  "marshal \<Rightarrow> array_text \<Rightarrow> (string \<Rightarrow> string \<Rightarrow> bool) \<Rightarrow> drop_chunks \<Rightarrow> int option \<Rightarrow> int option \<Rightarrow> world \<Rightarrow> world \<Rightarrow> bool" where
  "server_path marshal arr coll chunks c rc w w' \<longleftrightarrow> (integrity (tables w) \<longrightarrow> integrity (tables w') \<and>
     (\<forall>L T. \<exists>L'. (server_step marshal arr coll chunks c rc)\<^sup>*\<^sup>* (w, L, T) (w', L', T)))"

lemma server_path_refl: "server_path marshal arr coll chunks c rc w w"
  by (auto simp: server_path_def)

lemma server_path_trans:
  assumes "server_path marshal arr coll chunks c rc w1 w2" and "server_path marshal arr coll chunks c rc w2 w3"
  shows "server_path marshal arr coll chunks c rc w1 w3"
  unfolding server_path_def
proof (intro impI conjI allI)
  assume i: "integrity (tables w1)"
  with assms(1) have i2: "integrity (tables w2)" by (simp add: server_path_def)
  with assms(2) show "integrity (tables w3)" by (simp add: server_path_def)
  fix L T
  from assms(1) i obtain L2 where 1: "(server_step marshal arr coll chunks c rc)\<^sup>*\<^sup>* (w1, L, T) (w2, L2, T)"
    unfolding server_path_def by blast
  from assms(2) i2 obtain L3 where "(server_step marshal arr coll chunks c rc)\<^sup>*\<^sup>* (w2, L2, T) (w3, L3, T)"
    unfolding server_path_def by blast
  with 1 have "(server_step marshal arr coll chunks c rc)\<^sup>*\<^sup>* (w1, L, T) (w3, L3, T)" by (rule rtranclp_trans)
  then show "\<exists>L'. (server_step marshal arr coll chunks c rc)\<^sup>*\<^sup>* (w1, L, T) (w3, L', T)" ..
qed

interpretation sp: state_frame "server_path marshal arr coll chunks c rc" for marshal arr coll chunks c rc
  by unfold_locales (fact server_path_refl, fact server_path_trans)

text \<open>A call of one step.\<close>

lemma keeps_path:
  assumes "\<And>w x w' L T. m w = (x, w') \<Longrightarrow> \<exists>L'. server_step marshal arr coll chunks c rc (w, L, T) (w', L', T)"
    and "keeps safe_step m"
  shows "keeps (server_path marshal arr coll chunks c rc) m"
  unfolding keeps_def server_path_def
proof (intro allI impI conjI)
  fix w :: world assume "integrity (tables w)"
  with assms(2) show "integrity (tables (snd (m w)))" by (simp add: keeps_def safe_step_def)
  fix L T
  from assms(1) [of w "fst (m w)" "snd (m w)" L T]
  show "\<exists>L'. (server_step marshal arr coll chunks c rc)\<^sup>*\<^sup>* (w, L, T) (snd (m w), L', T)" by auto
qed

lemma path_save:
  assumes "timed r"
  shows "server_path marshal arr coll chunks c rc w (snd (SavePollResult marshal r w))"
  unfolding server_path_def using save_path [OF assms] save_integrity [OF prod.collapse [symmetric]] by blast

lemma path_refresh: "keeps (server_path marshal arr coll chunks c rc) (RefreshGrafanaViews arr coll)"
  unfolding RefreshGrafanaViews_def
  by (intro sp.keeps_foreach sp.keeps_wrapE keeps_path) (blast intro: server_step.refreshing, rule keeps_exec, simp add: safe_stmt_def sql_refresh_def integrity_no_views)

lemma path_ping: "keeps (server_path marshal arr coll chunks c rc) Ping"
  by (rule keeps_path) (blast intro: server_step.pinging, simp add: Ping_def keeps_exec safe_stmt_def)

lemma path_list_peers: "keeps (server_path marshal arr coll chunks c rc) (ListPresentHostmapPeers coll)"
  unfolding ListPresentHostmapPeers_def
  by (intro sp.keeps_bindE sp.keeps_wrapE sp.keeps_ret keeps_path) (blast intro: server_step.querying, rule keeps_queries)

lemma path_delete_raw:
  assumes "not_after cutoff rc"
  shows "keeps (server_path marshal arr coll chunks c rc) (DeleteExpiredRawCommandPayloads cutoff n)"
  unfolding DeleteExpiredRawCommandPayloads_def
  by (intro sp.keeps_wrapE keeps_path) (blast intro: server_step.deleting_raw assms, rule keeps_queries)

lemma path_drop:
  assumes "drop_law chunks" and "not_after cutoff c \<or> t = RawPayloads \<and> not_after cutoff rc"
  shows "keeps (server_path marshal arr coll chunks c rc) (DropChunks chunks t cutoff)"
  by (rule keeps_path [OF _ keeps_drop_safe [OF assms(1)]]) (use server_step.dropping [OF _ assms(2)] in blast)

text \<open>A batch of the run delete is two steps: the listing and the deletion of what it listed.\<close>

lemma path_delete_runs:
  assumes b: "not_after cutoff c"
  shows "keeps (server_path marshal arr coll chunks c rc) (DeleteExpiredPollRuns cutoff n)"
  unfolding keeps_def server_path_def
proof (intro allI impI conjI)
  fix w :: world assume "integrity (tables w)"
  with keeps_delete_runs [of cutoff n] show "integrity (tables (snd (DeleteExpiredPollRuns cutoff n w)))"
    by (simp add: keeps_def safe_step_def)
  fix L T
  let ?step = "server_step marshal arr coll chunks c rc" and ?w' = "snd (DeleteExpiredPollRuns cutoff n w)"
  obtain r w1 where l: "ListExpiredPollRunIDs (timestamptz cutoff) n w = (r, w1)" by fastforce
  note list = server_step.listing [OF l b, of marshal arr coll chunks rc L T]
  show "\<exists>L'. ?step\<^sup>*\<^sup>* (w, L, T) (?w', L', T)"
  proof (cases r)
    case (Inl e)
    with l have "?w' = w1" by (simp add: DeleteExpiredPollRuns_def bindE_def wrapE_def)
    with list show ?thesis by (auto intro: r_into_rtranclp)
  next
    case (Inr ids)
    with list have 1: "?step (w, L, T) (w1, insert ids L, T)" by simp
    have w': "?w' = (if ids = [] then w1 else snd (DeletePollRuns ids w1))"
      using l Inr by (simp add: DeleteExpiredPollRuns_def bindE_def wrapE_def split: prod.split sum.split)
    have "?step (w1, insert ids L, T) (snd (DeletePollRuns ids w1), insert ids L, T)"
      by (rule server_step.deleting [OF prod.collapse [symmetric]]) simp
    with 1 have "?step\<^sup>*\<^sup>* (w, L, T) (snd (DeletePollRuns ids w1), insert ids L, T)" by (meson r_into_rtranclp rtranclp.rtrancl_into_rtrancl)
    with 1 w' show ?thesis by (auto intro: r_into_rtranclp)
  qed
qed

text \<open>The pruner, a round and a request.\<close>

definition bounds_cutoff :: "int option \<Rightarrow> gotime \<Rightarrow> i64 \<Rightarrow> bool" where
  "bounds_cutoff b now period \<longleftrightarrow>
     (case cutoff_of now period of None \<Rightarrow> True | Some x \<Rightarrow> (case b of None \<Rightarrow> False | Some y \<Rightarrow> x \<le> y))"

lemma bounds_cutoff_at: "bounds_cutoff b now period \<Longrightarrow> sint period > 0 \<Longrightarrow> not_after (cutoff_at now period) b"
  by (simp add: bounds_cutoff_def cutoff_of_at not_after_def)

lemma path_prune:
  assumes law: "drop_law chunks" and "bounds_cutoff c now (rt_period cfg)" and "bounds_cutoff rc now (rt_raw_period cfg)"
    and "Prune (db_store chunks) cfg timescale now ps = Some (res, ps')"
  shows "server_path marshal arr coll chunks c rc (ps_store ps) (ps_store ps')"
  by (rule sp.prune_keeps [OF _ _ _ _ assms(4)])
     (simp_all add: path_delete_raw path_drop [OF law] path_delete_runs bounds_cutoff_at [OF assms(2)] bounds_cutoff_at [OF assms(3)])

lemma path_serve:
  "server_path marshal arr coll chunks c rc w (snd (serve sd ls (db_http_store coll) promhttp ready req w))"
proof -
  let ?path = "server_path marshal arr coll chunks c rc w"
  note kept = path_ping [unfolded keeps_def, rule_format, of marshal arr coll chunks c rc w]
    path_list_peers [unfolded keeps_def, rule_format, of marshal arr coll chunks c rc w]
  have readyz: "?path (snd (readyz (db_http_store coll) ready w))"
    using kept(1) server_path_refl by (auto simp: readyz_def db_http_store_def split: prod.splits sum.splits)
  have sd: "?path (snd (prometheusSDHandler sd ls (op_ListPresentHostmapPeers (db_http_store coll)) meth w))" for meth
    using sd_handler_state [of sd ls "ListPresentHostmapPeers coll" meth w] kept(2) server_path_refl
    by (auto simp: db_http_store_def)
  show ?thesis
    unfolding serve_def split_beta using readyz sd server_path_refl by (simp only: if_split split: if_split) simp
qed

interpretation tracked: collector_parts "ssh_runtime lib" next_reading steady_clock
    "db_collector_store marshal arr coll" "server_path marshal arr coll chunks c rc w0" timed je
  for lib :: "('n, 'r, 'k, 's, 'd) ssh_lib" and marshal arr coll chunks c rc w0 je
proof unfold_locales
  fix s r
  assume s: "server_path marshal arr coll chunks c rc w0 s"
  show "server_path marshal arr coll chunks c rc w0 (snd (op_RefreshGrafanaViews (db_collector_store marshal arr coll) s))"
    using server_path_trans [OF s path_refresh [unfolded keeps_def, rule_format]] by simp
  assume "timed r"
  from server_path_trans [OF s path_save [OF this]]
  show "server_path marshal arr coll chunks c rc w0 (snd (op_SavePollResult (db_collector_store marshal arr coll) r s))"
    by simp
qed

lemma daemon_path:
  assumes law: "drop_law chunks" and start: "steady_clock (kl_env k0)"
    and run: "daemon_run lib je marshal arr coll chunks cfg k0 ts k"
    and b: "\<forall>now \<in> set ts. bounds_cutoff c now (rt_period (cli_retention (cfg_cli cfg))) \<and>
      bounds_cutoff rc now (rt_raw_period (cli_retention (cfg_cli cfg)))"
  shows "steady_clock (kl_env k) \<and> server_path marshal arr coll chunks c rc (kl_store k0) (kl_store k)"
  using run b
proof (induction rule: daemon_run.induct)
  case initial
  then show ?case using start server_path_refl by simp
next
  case (round ts k sched err k')
  then show ?case using tracked.runRound_keeps [OF _ _ round.hyps(2)] by blast
next
  case (pruning ts k now ctx res ps)
  have "server_path marshal arr coll chunks c rc (kl_store k) (ps_store ps)"
    using path_prune [OF law _ _ pruning.hyps(2)] pruning.prems by (simp add: pruner_of_def)
  with pruning.IH pruning.prems server_path_trans show ?case by (simp, blast)
next
  case (request ts k promhttp ready req reply w)
  have "w = snd (serve (cli_prometheus_sd (cfg_cli cfg)) (cfg_targets cfg) (db_http_store coll) promhttp ready req (kl_store k))"
    using request.hyps(2) by (simp add: Start_def)
  with request.IH request.prems server_path_trans [OF _ path_serve] show ?case by simp
qed

end
