(* ===== verification/Discovery.thy ===== *)
theory Discovery
  imports Present_Peers Http_Server
begin

text \<open>
  From the tables to the reply of \<open>/prometheus-sd\<close>: the query of \<open>Present_Peers\<close>, the
  conversion of its rows in the store and the target groups of \<open>Prometheus_SD\<close> composed, as a
  request to the server runs them.
\<close>

section \<open>The sightings that are listed\<close>

definition last_sighting :: "database \<Rightarrow> poll_run \<Rightarrow> HostmapParams \<Rightarrow> bool" where
  "last_sighting d p h \<longleftrightarrow> sighted d p h \<and>
     (\<forall>q k. sighted d q k \<and> peer_key k = peer_key h \<longrightarrow> ts_le (ho_observed_at k) (ho_observed_at h))"

lemma listed_last:
  assumes "collation coll" and "ids_ok d" and "sql_list_present_peers coll d = (Inr rows, d')" and "r \<in> set rows"
  obtains p h where "last_sighting d p h" and "r = to_peer_row (p, h)"
  using collation.listing_exact(3) [OF assms] unfolding last_sighting_def by blast

lemma sighted_listed:
  assumes "collation coll" and "ids_ok d" and "sql_list_present_peers coll d = (Inr rows, d')" and "sighted d p h"
  obtains q k where "last_sighting d q k" and "peer_key k = peer_key h" and "to_peer_row (q, k) \<in> set rows"
proof -
  from collation.listing_exact(2) [OF assms(1-3)] assms(4) have "peer_key h \<in> pe_peer_key ` set rows" by blast
  then obtain r where r: "r \<in> set rows" "pe_peer_key r = peer_key h" by auto
  from listed_last [OF assms(1-3) r(1)] obtain q k where k: "last_sighting d q k" "r = to_peer_row (q, k)" .
  moreover have "peer_key k = peer_key h" using r(2) k(2) by (simp add: to_peer_row_def)
  ultimately show thesis using that r(1) by blast
qed

section \<open>The reply\<close>

definition sighting_target :: "PrometheusSDConfig \<Rightarrow> HostmapParams \<Rightarrow> string" where
  "sighting_target sd h = JoinHostPort (textValue (ho_primary_vpn_addr h)) (Itoa (sd_port sd))"

definition served :: "target_group list \<Rightarrow> string set" where
  "served gs = (\<Union>g \<in> set gs. set (tg_targets g))"

lemma listed_peer [simp]:
  "pp_primary (to_present_peer (to_peer_row (p, h))) = textValue (ho_primary_vpn_addr h)"
  by (simp add: to_present_peer_def to_peer_row_def)

lemma sighted_address: "sighted d p h \<Longrightarrow> textValue (ho_primary_vpn_addr h) \<noteq> []"
  by (auto simp: sighted_def textValue_def split: option.splits)

lemma discovery_reply:
  assumes "faults w (calls w) = None" and "set ls \<subseteq> Collect splits"
    and "sql_list_present_peers coll (tables w) = (Inr rows, d')"
    and "srv_handler (Start cfg sd ls (db_http_store coll)) promhttp ready (''GET'', ''/prometheus-sd'') w = (reply, w')"
  obtains gs where "rs_status reply = 200" and "rs_body reply = Groups gs"
    and "prometheusTargetGroups sd ls (map to_present_peer rows) = Inr gs"
proof -
  have "\<not> isl (prometheusTargetGroups sd ls (map to_present_peer rows))"
    using target_groups_error [of sd ls "map to_present_peer rows"] assms(2)
    by (cases "prometheusTargetGroups sd ls (map to_present_peer rows)") auto
  then obtain gs where gs: "prometheusTargetGroups sd ls (map to_present_peer rows) = Inr gs"
    by (cases "prometheusTargetGroups sd ls (map to_present_peer rows)") auto
  have "fst (ListPresentHostmapPeers coll w) = Inr (map to_present_peer rows)"
    using assms(1,3) by (simp add: ListPresentHostmapPeers_def ListPresentPeers_def bindE_def wrapE_def ret_def exec_def)
  then obtain w2 where "ListPresentHostmapPeers coll w = (Inr (map to_present_peer rows), w2)"
    by (metis prod.collapse)
  with gs assms(4) have "rs_status reply = 200" "rs_body reply = Groups gs"
    by (auto simp: Start_def serve_def prometheusSDHandler_def db_http_store_def)
  with gs show thesis using that by blast
qed

text \<open>The targets served are those of last sightings and of lighthouses, with one for every key sighted.\<close>

lemma served_targets:
  assumes "prometheusTargetGroups sd ls (map to_present_peer rows) = Inr gs"
  shows "served gs =
    {JoinHostPort (pp_primary p) (Itoa (sd_port sd)) | p. p \<in> to_present_peer ` set rows \<and> pp_primary p \<noteq> []} \<union>
    lighthouse_target (Itoa (sd_port sd)) ` set ls"
proof -
  let ?port = "Itoa (sd_port sd)" and ?ps = "map to_present_peer rows"
  have "served gs =
      peer_target ?port ` set (chosen_peers ?port ?ps) \<union> lighthouse_target ?port ` set (chosen_lighthouses ?port ?ps ls)"
    using target_groups_Inr [OF assms] by (auto simp: served_def Let_def)
  also have "\<dots> = peer_target ?port ` {p \<in> set ?ps. pp_primary p \<noteq> []} \<union> lighthouse_target ?port ` set ls"
    by (rule chosen_targets)
  finally show ?thesis by (auto simp: peer_target_def)
qed

lemma discovery_targets:
  assumes "collation coll" and "ids_ok (tables w)" and "faults w (calls w) = None" and "set ls \<subseteq> Collect splits"
    and "srv_handler (Start cfg sd ls (db_http_store coll)) promhttp ready (''GET'', ''/prometheus-sd'') w = (reply, w')"
  obtains gs where "rs_status reply = 200" and "rs_body reply = Groups gs"
    and "\<And>t. t \<in> served gs \<Longrightarrow>
      t \<in> lighthouse_target (Itoa (sd_port sd)) ` set ls \<or> (\<exists>p h. last_sighting (tables w) p h \<and> t = sighting_target sd h)"
    and "\<And>p h. sighted (tables w) p h \<Longrightarrow> \<exists>q k. last_sighting (tables w) q k \<and> peer_key k = peer_key h \<and>
      sighting_target sd k \<in> served gs"
    and "lighthouse_target (Itoa (sd_port sd)) ` set ls \<subseteq> served gs"
proof -
  obtain rows d' where l: "sql_list_present_peers coll (tables w) = (Inr rows, d')"
    by (simp add: sql_list_present_peers_def)
  from discovery_reply [OF assms(3,4) l assms(5)] obtain gs where
    gs: "rs_status reply = 200" "rs_body reply = Groups gs" "prometheusTargetGroups sd ls (map to_present_peer rows) = Inr gs" .
  note targets = served_targets [OF gs(3)]
  show thesis
  proof (rule that [OF gs(1,2)])
    fix t assume "t \<in> served gs"
    then consider "t \<in> lighthouse_target (Itoa (sd_port sd)) ` set ls"
      | r where "r \<in> set rows" "t = JoinHostPort (pp_primary (to_present_peer r)) (Itoa (sd_port sd))"
      unfolding targets by blast
    then show "t \<in> lighthouse_target (Itoa (sd_port sd)) ` set ls \<or> (\<exists>p h. last_sighting (tables w) p h \<and> t = sighting_target sd h)"
    proof cases
      case 2
      from listed_last [OF assms(1,2) l 2(1)] obtain p h where "last_sighting (tables w) p h" "r = to_peer_row (p, h)" .
      with 2(2) show ?thesis by (auto simp: sighting_target_def)
    qed simp
  next
    fix p h assume "sighted (tables w) p h"
    from sighted_listed [OF assms(1,2) l this] obtain q k where
      k: "last_sighting (tables w) q k" "peer_key k = peer_key h" "to_peer_row (q, k) \<in> set rows" .
    then have "textValue (ho_primary_vpn_addr k) \<noteq> []" by (auto simp: last_sighting_def dest: sighted_address)
    with k(3) have "sighting_target sd k \<in> served gs"
      unfolding targets by (fastforce simp: sighting_target_def)
    with k show "\<exists>q k. last_sighting (tables w) q k \<and> peer_key k = peer_key h \<and>
        sighting_target sd k \<in> served gs" by blast
  next
    show "lighthouse_target (Itoa (sd_port sd)) ` set ls \<subseteq> served gs" unfolding targets by blast
  qed
qed

section \<open>A saved poll is served\<close>

lemma ts_before_not_le: "ts_before s t \<Longrightarrow> \<not> ts_le t s"
  by (auto simp: ts_before_def ts_le_def split: option.splits)

lemma saved_present:
  assumes "db_inv d" and "pr_success r"
    and "\<And>q. q \<in> set (t_runs d) \<Longrightarrow> ts_before (po_started_at q) (timestamptz (pr_started r))"
    and "e \<in> set (elems (pr_hostmap r))" "PrimaryVPNAddr e \<noteq> []"
  shows "\<exists>p h. sighted (saved_db marshal r d) p h \<and> peer_key h = entry_key e \<and> ho_observed_at h = timestamptz (pr_started r)"
proof (rule saved_sighted [OF _ assms(2) _ assms(4,5)])
  show "integrity d" using assms(1) by (simp add: db_inv_def)
  fix q assume "q \<in> set (t_runs d)"
  from assms(3) [OF this] show "ts_le (po_started_at q) (timestamptz (pr_started r))"
    by (auto simp: ts_before_def ts_le_def split: option.splits)
qed

text \<open>When the poll started after every stored one, the last sightings of its entries are its own.\<close>

lemma last_sighting_saved:
  assumes "db_inv d" and "pr_success r"
    and later: "\<And>q. q \<in> set (t_runs d) \<Longrightarrow> ts_before (po_started_at q) (timestamptz (pr_started r))"
    and e: "e \<in> set (elems (pr_hostmap r))" "PrimaryVPNAddr e \<noteq> []"
    and k: "last_sighting (saved_db marshal r d) q k" "peer_key k = entry_key e"
  obtains e' where "e' \<in> set (elems (pr_hostmap r))" and "entry_key e' = entry_key e" and "PrimaryVPNAddr e' \<noteq> []"
    and "textValue (ho_primary_vpn_addr k) = PrimaryVPNAddr e'"
proof -
  let ?d' = "saved_db marshal r d" and ?run = "t_seq d PollRuns" and ?T = "timestamptz (pr_started r)"
  have inv: "integrity d" "aligned d" "foreign_keys_ok d" "ids_ok d" using assms(1) by (simp_all add: db_inv_def integrity_def)
  from saved_present [OF assms(1,2) later e] obtain p h where
    h: "sighted ?d' p h" "peer_key h = entry_key e" "ho_observed_at h = ?T" by blast
  with k have "ts_le (ho_observed_at h) (ho_observed_at k)" unfolding last_sighting_def by metis
  with h(3) have le: "ts_le ?T (ho_observed_at k)" by simp
  have s: "sighted ?d' q k" using k(1) by (simp add: last_sighting_def)
  then have q: "q \<in> set (t_runs d) \<union> {run_row ?run r}" "ho_poll_run_id k = po_id q" "ho_source k = ''hostmap''"
    by (auto simp: sighted_def latest_success_def saved_db_sel)
  have "k \<notin> cols ` set (t_hostmap d)"
  proof
    assume old: "k \<in> cols ` set (t_hostmap d)"
    with inv(3) have "ho_poll_run_id k \<in> run_ids d" by (auto simp: foreign_keys_ok_def)
    with inv(4) q have "q \<in> set (t_runs d)" by (auto simp: ids_ok_def)
    with inv(2) old q(2) have "ho_observed_at k = po_started_at q" by (auto simp: aligned_def)
    with later [OF \<open>q \<in> set (t_runs d)\<close>] le ts_before_not_le show False by simp
  qed
  moreover have "k \<in> cols ` set (t_hostmap ?d')" using s by (simp add: sighted_def)
  ultimately have "k \<in> set (hostmap_rows marshal ?run r ''hostmap'' (pr_hostmap r))"
    using q(3) hostmap_rows_sel [of k marshal ?run r "''pending''" "pr_pending r"] by (auto simp: saved_db_sel)
  then obtain i e' raw where k': "(i, e') \<in> set (enumerate 0 (elems (pr_hostmap r)))"
    "k = hostmap_params ?run r ''hostmap'' i e' raw"
    by (auto simp: hostmap_rows_def)
  have "e' \<in> set (elems (pr_hostmap r))" by (rule in_set_zipE [OF k'(1) [unfolded enumerate_eq_zip]])
  moreover have t: "textValue (ho_primary_vpn_addr k) = PrimaryVPNAddr e'"
    unfolding k'(2) by (simp add: textValue_def nullableString_def)
  moreover have a: "PrimaryVPNAddr e' \<noteq> []" using sighted_address [OF s] t by simp
  moreover have "entry_key e' = entry_key e" using k(2) peer_key_params [OF a] unfolding k'(2) by metis
  ultimately show thesis using that by blast
qed

section \<open>Properties\<close>



end
