(* ===== verification/Mnemosina.thy ===== *)
theory Mnemosina
  imports Program Migrate Daemon
begin

text \<open>
  The program of \<open>Program\<close> with the modelled parts in it: telemetry, migrations, the SSH client,
  the collector on the database and the HTTP server. What stays outside is the log level parser,
  the connection of the pool, tern and the OpenTelemetry SDK. The pruner, which runs beside the
  collector, is only started here; \<open>Daemon\<close> has its interleavings.
\<close>

record ('n, 'm, 'x, 'r) process =
  pc_env :: "'n ssh_env"
  pc_store :: world
  pc_metrics :: metrics
  pc_otel :: "('x, 'r) otel_globals"
  pc_logger :: "log_options option"
  pc_signals :: "os_signal list"
  pc_schema :: 'm
  pc_pool_open :: bool
  pc_http :: "world http_server option"
  pc_ready :: bool
  pc_pruning :: bool

text \<open>A collector that panicked or is still selecting has not returned.\<close>

definition returned :: "('e, 's) collector_state collector_end option \<Rightarrow> (go_error option \<times> ('e, 's) collector_state) option" where
  "returned fin = (case fin of Some (Returned err k) \<Rightarrow> Some (err, k) | _ \<Rightarrow> None)"

definition start_collector :: "('s, 'd) ssh_client \<Rightarrow> ('n, 'm, 'x, 'r) process \<Rightarrow> ('n, 's, 'd) daemon" where
  "start_collector client s = \<lparr>kl_env = (client, pc_env s), kl_store = pc_store s, kl_metrics = pc_metrics s\<rparr>"

definition after_collector :: "('n, 'm, 'x, 'r) process \<Rightarrow> ('n, 's, 'd) daemon \<Rightarrow> ('n, 'm, 'x, 'r) process" where
  "after_collector s k = s\<lparr>pc_env := snd (kl_env k), pc_store := kl_store k, pc_metrics := kl_metrics k\<rparr>"

record ('m, 'c, 'f, 'g, 'x, 'r) outside =
  out_ParseLevel :: "string \<Rightarrow> int result"
  out_pool_New :: "string \<Rightarrow> unit result"
  out_tern :: "('m, 'c, 'f, 'g) tern"
  out_otel :: "('x, 'r) otel_sdk"

definition mnemosina ::
  "('m, 'c, 'f, 'g, 'x, 'r) outside \<Rightarrow> ('n, 'h, 'k, 's, 'd) ssh_lib \<Rightarrow> json_error \<Rightarrow> marshal \<Rightarrow> array_text \<Rightarrow>
   (string \<Rightarrow> string \<Rightarrow> bool) \<Rightarrow> schedule \<Rightarrow> round_wake list \<Rightarrow>
   (('n, 'm, 'x, 'r) process, ('x, 'r) shutdown, unit, ('s, 'd) ssh_client) program" where
  "mnemosina out lib je marshal arr coll sched wakes =
     \<lparr>pg_ParseLevel = out_ParseLevel out,
      pg_SetDefault = (\<lambda>opts s. s\<lparr>pc_logger := Some opts\<rparr>),
      pg_NotifyContext = (\<lambda>sigs s. s\<lparr>pc_signals := sigs\<rparr>),
      pg_stop = (\<lambda>s. s\<lparr>pc_signals := []\<rparr>),
      pg_telemetry_Init = (\<lambda>cfg s. case Init (out_otel out) cfg (pc_otel s) of (r, g) \<Rightarrow> (r, s\<lparr>pc_otel := g\<rparr>)),
      pg_telemetry_Shutdown = (\<lambda>_ s. s),
      pg_pool_New = (\<lambda>url s. case out_pool_New out url of
         Inl err \<Rightarrow> (Inl err, s) | Inr _ \<Rightarrow> (Inr (), s\<lparr>pc_pool_open := True\<rparr>)),
      pg_pool_Close = (\<lambda>_ s. s\<lparr>pc_pool_open := False\<rparr>),
      pg_go_http = (\<lambda>cfg _ s. s\<lparr>pc_http := Some (Start (cli_http (cfg_cli cfg)) (cli_prometheus_sd (cfg_cli cfg))
         (cfg_targets cfg) (db_http_store coll))\<rparr>),
      pg_migrate_Run = (\<lambda>_ timescale s. case Run_migrate (out_tern out) timescale (pc_schema s) of
         (r, m) \<Rightarrow> (r, s\<lparr>pc_schema := m\<rparr>)),
      pg_ready = (\<lambda>s. s\<lparr>pc_ready := True\<rparr>),
      pg_ssh_New = (\<lambda>cfg s. case New lib cfg (pc_env s) of (r, e) \<Rightarrow> (r, s\<lparr>pc_env := e\<rparr>)),
      pg_go_retention = (\<lambda>_ _ s. s\<lparr>pc_pruning := True\<rparr>),
      pg_collector_Run = (\<lambda>cfg client _ s. map_option (\<lambda>(err, k). (err, after_collector s k))
         (returned (Run_collector (ssh_runtime lib) je (db_collector_store marshal arr coll) cfg sched wakes
            (start_collector client s))))\<rparr>"

section \<open>Starting the client\<close>

lemma framed_ensure_file: "ensure_file path e = (r, e') \<Longrightarrow> framed e e'"
  by (auto simp: ensure_file_def intro: framed_trans dest!: framesD [OF frames_os(2)] framesD [OF frames_os(4)]
      split: prod.splits sum.splits if_splits)

lemma framed_acceptNew: "acceptNewHostKeyCallback lib path e = (r, e') \<Longrightarrow> framed e e'"
  by (auto simp: acceptNewHostKeyCallback_def intro: framed_trans
      dest!: framesD [OF frames_os(1)] framed_ensure_file framesD [OF frames_knownhosts_New]
      split: prod.splits sum.splits option.splits)

lemma framed_hostKeyCallback: "hostKeyCallback lib mode path e = (r, e') \<Longrightarrow> framed e e'"
  by (auto simp: hostKeyCallback_def dest: framed_acceptNew framesD [OF frames_knownhosts_New]
      split: prod.splits sum.splits if_splits)

lemma framed_loadSigner: "loadSigner lib cfg e = (r, e') \<Longrightarrow> framed e e'"
  by (auto simp: loadSigner_def key_material_def dest!: framesD [OF frames_os(3)]
      split: prod.splits sum.splits if_splits)

lemma framed_New: "New lib cfg e = (r, e') \<Longrightarrow> framed e e'"
  by (auto simp: New_def intro: framed_trans dest!: framed_loadSigner framed_hostKeyCallback
      split: prod.splits sum.splits)

lemma framed_steady: "framed e e' \<Longrightarrow> steady_clock (c, e) \<Longrightarrow> steady_clock (c', e')"
  by (simp add: framed_def steady_clock_def)

section \<open>One run of the process\<close>

text \<open>What the round of \<open>--once\<close> leaves in the tables.\<close>

definition polled ::
  "json_error \<Rightarrow> marshal \<Rightarrow> array_text \<Rightarrow> (string \<Rightarrow> string \<Rightarrow> bool) \<Rightarrow> Config \<Rightarrow> database \<Rightarrow> database \<Rightarrow> bool" where
  "polled je marshal arr coll cfg d d' \<longleftrightarrow> (\<exists>rs.
     mset (map pr_lighthouse rs) \<subseteq># mset (cfg_targets cfg) \<and>
     (sint (cli_poll_jitter (cfg_cli cfg)) \<le> 0 \<longrightarrow> mset (map pr_lighthouse rs) = mset (cfg_targets cfg)) \<and>
     (\<forall>r \<in> set rs. summarised je r) \<and>
     d' = (if rs \<noteq> [] \<and> cli_refresh_views (cfg_cli cfg) then with_views arr coll else id)
       (fold (saved_db marshal) rs d))"

lemma collector_once:
  assumes "cli_once (cfg_cli cfg)"
    and "pg_collector_Run (mnemosina out lib je marshal arr coll sched wakes) cfg client pool s = Some (err, s')"
    and "steady_clock (client, pc_env s)" and "calm_store (pc_store s)"
  shows "err = None \<and> polled je marshal arr coll cfg (tables (pc_store s)) (tables (pc_store s'))"
proof -
  let ?k = "start_collector client s"
  from assms(1,2) obtain k where
    r: "runRound (ssh_runtime lib) je (db_collector_store marshal arr coll) cfg sched ?k = Some (err, k)"
    and s': "s' = after_collector s k"
    by (auto simp: mnemosina_def returned_def Run_collector_def split: option.splits)
  have k: "steady_clock (kl_env ?k)" "calm_store (kl_store ?k)" using assms(3,4) by (simp_all add: start_collector_def)
  from calm_round [OF k r] show ?thesis
    by (auto simp: polled_def s' after_collector_def start_collector_def)
qed

text \<open>
  The two ways a run with \<open>--once\<close> ends: in the start phase \<open>what\<close>, with the store as it
  was, or after the round, with success.
\<close>

definition once_outcome ::
  "string set \<Rightarrow> (database \<Rightarrow> database \<Rightarrow> bool) \<Rightarrow> world \<Rightarrow> go_error option \<Rightarrow> world \<Rightarrow> bool" where
  "once_outcome phases done w err w' \<longleftrightarrow>
     (\<exists>what \<in> phases. \<exists>e. err = Some (Wrap what e) \<and> w' = w) \<or> (err = None \<and> done (tables w) (tables w'))"

lemma once_outcome_fail: "what \<in> phases \<Longrightarrow> once_outcome phases done w (Some (Wrap what e)) w"
  by (auto simp: once_outcome_def)

lemma once_outcome_mono: "once_outcome phases done w err w' \<Longrightarrow> once_outcome (insert what phases) done w err w'"
  by (auto simp: once_outcome_def)

definition ready_to_poll :: "('n, 'm, 'x, 'r) process \<Rightarrow> bool" where
  "ready_to_poll s \<longleftrightarrow> steady_clock ((), pc_env s) \<and> calm_store (pc_store s)"

lemma ready_to_poll_sel [simp]:
  "ready_to_poll (s\<lparr>pc_pool_open := b\<rparr>) = ready_to_poll s" "ready_to_poll (s\<lparr>pc_http := h\<rparr>) = ready_to_poll s"
  "ready_to_poll (s\<lparr>pc_otel := g\<rparr>) = ready_to_poll s" "ready_to_poll (s\<lparr>pc_logger := lo\<rparr>) = ready_to_poll s"
  "ready_to_poll (s\<lparr>pc_signals := sg\<rparr>) = ready_to_poll s"
  "ready_to_poll (s\<lparr>pc_ready := b\<rparr>) = ready_to_poll s" "ready_to_poll (s\<lparr>pc_schema := m\<rparr>) = ready_to_poll s"
  by (simp_all add: ready_to_poll_def)

lemma service_once:
  assumes "cli_once (cfg_cli cfg)" and "ready_to_poll s"
    and r: "run_service (mnemosina out lib je marshal arr coll sched wakes) cfg pool s = Some (err, s')"
  shows "once_outcome {''initialize ssh client''} (polled je marshal arr coll cfg) (pc_store s) err (pc_store s')"
proof -
  let ?pg = "mnemosina out lib je marshal arr coll sched wakes"
  obtain res e where n: "New lib (cli_ssh (cfg_cli cfg)) (pc_env s) = (res, e)" by fastforce
  then have new: "pg_ssh_New ?pg (cli_ssh (cfg_cli cfg)) s = (res, s\<lparr>pc_env := e\<rparr>)" by (simp add: mnemosina_def)
  show ?thesis
  proof (cases res)
    case (Inl x)
    with r new show ?thesis by (auto simp: run_service_def once_outcome_def)
  next
    case (Inr client)
    with r new assms(1) obtain err1 where
      c: "pg_collector_Run ?pg cfg client pool (s\<lparr>pc_env := e\<rparr>) = Some (err1, s')"
      and err: "err = (case err1 of None \<Rightarrow> None | Some x \<Rightarrow> if errors_is x Canceled then None else Some x)"
      by (auto simp: run_service_def split: option.splits)
    have "steady_clock (client, e)" "calm_store (pc_store s)"
      using framed_steady [OF framed_New [OF n]] assms(2) by (auto simp: ready_to_poll_def)
    with collector_once [OF assms(1) c] err show ?thesis by (simp add: once_outcome_def)
  qed
qed

lemma with_pool_once:
  assumes "cli_once (cfg_cli cfg)" and "ready_to_poll s"
    and r: "run_with_pool (mnemosina out lib je marshal arr coll sched wakes) cfg () s = Some (err, s')"
  shows "once_outcome {''run migrations'', ''initialize ssh client''} (polled je marshal arr coll cfg) (pc_store s) err (pc_store s')"
proof -
  let ?pg = "mnemosina out lib je marshal arr coll sched wakes" and ?cli = "cfg_cli cfg"
  let ?s1 = "if http_enabled (cli_http ?cli) then pg_go_http ?pg cfg () s else s"
  have s1: "ready_to_poll ?s1" "pc_store ?s1 = pc_store s" using assms(2) by (simp_all add: mnemosina_def)
  obtain res s2 where m: "(if cli_migrate ?cli then pg_migrate_Run ?pg () (cli_enable_timescale ?cli) ?s1 else (Inr (), ?s1)) = (res, s2)"
    by (metis surj_pair)
  then have s2: "pc_store s2 = pc_store s" "ready_to_poll s2"
    using s1 by (auto simp: mnemosina_def split: if_splits prod.splits)
  note r' = r [unfolded run_with_pool_def Let_def m, simplified]
  show ?thesis
  proof (cases res)
    case (Inl x)
    with r' s2(1) show ?thesis by (auto simp: once_outcome_def)
  next
    case (Inr u)
    with r' have v: "run_service ?pg cfg () (pg_ready ?pg s2) = Some (err, s')" by simp
    have "ready_to_poll (pg_ready ?pg s2)" "pc_store (pg_ready ?pg s2) = pc_store s"
      using s2 by (simp_all add: mnemosina_def)
    with service_once [OF assms(1) _ v] show ?thesis by (simp add: once_outcome_mono)
  qed
qed

lemma with_telemetry_once:
  assumes "cli_once (cfg_cli cfg)" and "ready_to_poll s"
    and r: "run_with_telemetry (mnemosina out lib je marshal arr coll sched wakes) cfg s = Some (err, s')"
  shows "once_outcome {''connect database'', ''run migrations'', ''initialize ssh client''}
    (polled je marshal arr coll cfg) (pc_store s) err (pc_store s')"
proof (cases "out_pool_New out (cli_database_url (cfg_cli cfg))")
  case (Inl x)
  with r show ?thesis by (auto simp: run_with_telemetry_def mnemosina_def once_outcome_def)
next
  case (Inr u)
  let ?pg = "mnemosina out lib je marshal arr coll sched wakes" and ?s = "s\<lparr>pc_pool_open := True\<rparr>"
  have "pg_pool_New ?pg (cli_database_url (cfg_cli cfg)) s = (Inr (), ?s)" using Inr by (simp add: mnemosina_def)
  with r obtain s2 where p: "run_with_pool ?pg cfg () ?s = Some (err, s2)" and s': "s' = pg_pool_Close ?pg () s2"
    by (auto simp: run_with_telemetry_def)
  have "pc_store s' = pc_store s2" using s' by (simp add: mnemosina_def)
  with with_pool_once [OF assms(1) _ p] assms(2) show ?thesis by (simp add: once_outcome_mono)
qed

lemma run_once:
  assumes "cli_once (cfg_cli cfg)" and "ready_to_poll s"
    and r: "run (mnemosina out lib je marshal arr coll sched wakes) (Inr cfg) s = Some (err, s')"
  shows "once_outcome {''parse log level'', ''initialize telemetry'', ''connect database'', ''run migrations'',
    ''initialize ssh client''} (polled je marshal arr coll cfg) (pc_store s) err (pc_store s')"
proof (cases "out_ParseLevel out (cli_log_level (cfg_cli cfg))")
  case (Inl e)
  with r show ?thesis by (auto simp: run_def mnemosina_def intro: once_outcome_fail)
next
  case (Inr level)
  let ?pg = "mnemosina out lib je marshal arr coll sched wakes"
  let ?s0 = "pg_NotifyContext ?pg [SIGINT, SIGTERM] (pg_SetDefault ?pg (logger_options level) s)"
  have s0: "ready_to_poll ?s0" "pc_store ?s0 = pc_store s" using assms(2) by (simp_all add: mnemosina_def)
  obtain res s1 where i: "pg_telemetry_Init ?pg (cli_otel (cfg_cli cfg)) ?s0 = (res, s1)" by fastforce
  then have s1: "ready_to_poll s1" "pc_store s1 = pc_store s" using s0 by (auto simp: mnemosina_def split: prod.splits)
  have level: "pg_ParseLevel ?pg (cli_log_level (cfg_cli cfg)) = Inr level" using Inr by (simp add: mnemosina_def)
  note r' = r [unfolded run_def sum.case level run_with_logger_def i, simplified]
  have stop: "pc_store (pg_stop ?pg x) = pc_store x" for x by (simp add: mnemosina_def)
  show ?thesis
  proof (cases res)
    case (Inl e)
    with r' s1(2) stop show ?thesis by (auto intro: once_outcome_fail)
  next
    case (Inr tel)
    with r' obtain s2 where t: "run_with_telemetry ?pg cfg s1 = Some (err, s2)"
      and s': "s' = pg_stop ?pg (pg_telemetry_Shutdown ?pg tel s2)" by auto
    have "pc_store s' = pc_store s2" using s' stop by (simp add: mnemosina_def)
    with with_telemetry_once [OF assms(1) s1(1) t] s1(2) show ?thesis by (simp add: once_outcome_mono)
  qed
qed

section \<open>A sample process\<close>

definition sample_tern :: "(nat, unit, unit, unit) tern" where
  "sample_tern = \<lparr>mg_Acquire = (\<lambda>m. (Inr (), m)), mg_Release = (\<lambda>_ m. m), mg_Sub = (\<lambda>_ m. (Inr (), m)),
     mg_NewMigrator = (\<lambda>_ _ m. (Inr (), m)), mg_LoadMigrations = (\<lambda>_ _ m. (Inr (), m)),
     mg_Migrate = (\<lambda>_ m. (Inr (), Suc m))\<rparr>"

definition sample_outside :: "(nat, unit, unit, unit, unit, unit) outside" where
  "sample_outside = \<lparr>out_ParseLevel = (\<lambda>_. Inr 0), out_pool_New = (\<lambda>_. Inr ()), out_tern = sample_tern,
     out_otel = \<lparr>sdk_exporter = (\<lambda>_. Inr ()), sdk_resource = (\<lambda>_. Inr ())\<rparr>\<rparr>"

definition sample_once :: Config where
  "sample_once = \<lparr>cfg_cli = sample_cli\<lparr>cli_once := True,
     cli_ssh := (cli_ssh sample_cli)\<lparr>ssh_private_key := ''key'', ssh_known_hosts_path := ''/hosts''\<rparr>\<rparr>,
     cfg_targets = sample_targets\<rparr>"

definition sample_process :: "(nat, nat, unit, unit) process" where
  "sample_process = \<lparr>pc_env = sample_env, pc_store = sample_world, pc_metrics = no_metrics,
     pc_otel = \<lparr>og_provider = Nothing_to_shut_down, og_trace_context = False\<rparr>, pc_logger = None, pc_signals = [], pc_schema = 0,
     pc_pool_open = False, pc_http = None, pc_ready = False, pc_pruning = False\<rparr>"

abbreviation "sample_program sched \<equiv>
  mnemosina sample_outside sample_lib plain_json_error no_marshal concat (\<le>) sched []"

lemma sample_New:
  "\<exists>client e. New sample_lib (cli_ssh (cfg_cli sample_once)) sample_env = (Inr client, e)"
  by (simp add: New_def loadSigner_def key_material_def parse_signer_def sample_once_def sample_cli_def
      hostKeyCallback_def acceptNewHostKeyCallback_def ensure_file_def os_MkdirAll_def os_Stat_def os_ReadFile_def
      knownhosts_New_def file_call_def existing_def sample_env_def sample_lib_def tick_io_def)

lemma sample_migrated: "\<exists>m. Run_migrate sample_tern timescale n = (Inr (), m)"
  by (simp add: Run_migrate_def run_sets_def runSet_def sample_tern_def bindE_def wrapE_def)

lemma sample_ready: "ready_to_poll sample_process"
  using sample_facts(6,7) by (simp add: ready_to_poll_def sample_process_def calm_store_def steady_clock_def sample_env_def)

lemma sample_once_run: "\<exists>sched s'. run (sample_program sched) (Inr sample_once) sample_process = Some (None, s')"
proof -
  obtain client e where n: "New sample_lib (cli_ssh (cfg_cli sample_once)) sample_env = (Inr client, e)"
    using sample_New by blast
  let ?k = "\<lparr>kl_env = (client, e), kl_store = sample_world, kl_metrics = no_metrics\<rparr>"
  obtain sched err k where r: "runRound (ssh_runtime sample_lib) plain_json_error
      (db_collector_store no_marshal concat (\<le>)) sample_once sched ?k = Some (err, k)"
    using some_schedule by blast
  have "steady_clock (client, e)" "calm_store sample_world"
    using framed_steady [OF framed_New [OF n]] sample_ready by (auto simp: ready_to_poll_def sample_process_def)
  with calm_round [OF _ _ r] have err: "err = None" by auto
  obtain m where m: "Run_migrate sample_tern True 0 = (Inr (), m)" using sample_migrated by blast
  have cfg: "cli_once (cfg_cli sample_once)" "http_enabled (cli_http (cfg_cli sample_once))"
    "cli_migrate (cfg_cli sample_once)" "cli_enable_timescale (cfg_cli sample_once)"
    "\<not> otel_enabled (cli_otel (cfg_cli sample_once))"
    by (simp_all add: sample_once_def sample_cli_def)
  have "\<exists>s'. run (sample_program sched) (Inr sample_once) sample_process = Some (None, s')"
    by (simp add: run_def run_with_logger_def run_with_telemetry_def run_with_pool_def run_service_def mnemosina_def sample_outside_def
        Init_def cfg m n sample_process_def Let_def Run_collector_def start_collector_def returned_def r err)
  then show ?thesis by blast
qed

end
