(* ===== verification/Spec2Isabelle.thy ===== *)
theory Spec2Isabelle
  imports Prometheus_SD Present_Peers Retention_Laws Views Nebula_Parser Collector_Laws Ssh_Laws Http_Server
    Migrate Telemetry Program Daemon Interleaving Server_Path Discovery Mnemosina
begin

text \<open>
  Verification library of nebula-mnemosina, a daemon in Go that polls Nebula lighthouses over
  their SSH debug console, stores what they report in PostgreSQL, refreshes the materialized
  views behind its Grafana dashboards, prunes old rows, and serves metrics, probes and a
  Prometheus service discovery endpoint.

  Parts and theories (source files under \<open>src/internal\<close> unless said otherwise). Every part
  has a theory with its state and operations under the names of the code, and most have a second
  one with their laws.

  \<open>Prelude\<close>: Go's integers (words), slices with nil (options of lists), errors and
  \<open>errors.Is\<close>, instants and durations, actions \<open>'s \<Rightarrow> (error + 'a) \<times> 's\<close> with their
  sequencing, and the list functions behind SQL's ORDER BY, LIMIT and row_number. The locales
  \<open>state_frame\<close> (a reflexive and transitive relation every action of a program keeps),
  \<open>exit_frame\<close> (one relation for each exit) and \<open>row_order\<close> (a total preorder to
  sort rows by) carry their laws. \<open>Go_Strings\<close>: the functions of strings, strconv and net
  that the code calls.

  \<open>Data_Model\<close> (\<open>model/model.go\<close>) and \<open>Config\<close> (\<open>config/config.go\<close>): the
  structs; \<open>Parse\<close> with the reading of the lighthouse targets and its checks. The option
  parser kong is a parameter: what it returns is an argument of \<open>Parse\<close>.

  \<open>Json\<close>, \<open>Json_Decode\<close>, \<open>Nebula_Parser\<close> (\<open>nebula/parser.go\<close>):
  encoding/json as the grammar with the text of every array element and the decoding into the
  structs of the model; the five parsers of command output. Lemmas: a parser takes a prefix and
  does not look past it, so the stored document of an entry decodes to the entry.

  \<open>Ssh_Client\<close>, \<open>Ssh_Laws\<close> (\<open>sshclient/client.go\<close>): construction of the
  client, the three host key callbacks with the known_hosts file, one command run with its
  deferred closes. golang.org/x/crypto and the network are the record \<open>ssh_lib\<close>; what is
  assumed of knownhosts is \<open>known_hosts_law\<close> (a line appended after a newline adds exactly
  this key for this host), which an executable file format is shown to satisfy.

  \<open>Collector\<close>, \<open>Collector_Laws\<close> (\<open>collector/collector.go\<close>): a poll of six
  commands, the goroutines of a round as the step relation \<open>round_step\<close> with schedules as
  lists of turns, the saving of the results, the ticker loop. The interfaces of the package are
  locales: \<open>poll_clock\<close> (the runner and the clock), \<open>result_store\<close> and
  \<open>reliable_store\<close> (the store on any outcome, and without faults), \<open>collector_parts\<close>.

  \<open>Database\<close>, \<open>Integrity\<close> (\<open>db/*.go\<close>, the schema under
  \<open>src/db/migrations/core\<close>): the tables and every SQL statement as a function on them with
  its constraints; a call to the server meets the fault its script prescribes, is refused or
  loses its reply; the interface \<open>Querier\<close>, whose contract is the locale
  \<open>framed_querier\<close>. \<open>Transactions\<close> (\<open>db.go\<close>): queries bound to a transaction,
  which see the committed tables with the transaction's own rows.

  \<open>Storage\<close>, \<open>Storage_Laws\<close> (\<open>storage/storage.go\<close>): SavePollResult as one
  transaction, the deletes, DropChunks, Ping. \<open>Present_Peers\<close>: what the query of service
  discovery returns, for any collation. \<open>Views\<close> (\<open>storage.go\<close> and
  \<open>src/db/migrations/views\<close>): the five materialized views and their refresh.

  \<open>Retention\<close>, \<open>Retention_Laws\<close> (\<open>retention/retention.go\<close>): the pruner, its
  batches as a \<open>partial_function\<close> shown to return, its ticker loop; the locale
  \<open>batch_delete\<close> is interpreted on both deletes of the store.

  \<open>Metrics\<close> (\<open>metrics/metrics.go\<close>), \<open>Prometheus_SD\<close> and \<open>Http_Server\<close>
  (\<open>httpserver/*.go\<close>): counters, target groups, the handlers of all routes.
  \<open>Discovery\<close>: the query for present peers, its conversion and the target groups as one
  reply to Prometheus.
  \<open>Migrate\<close>, \<open>Telemetry\<close>, \<open>Program\<close> (\<open>migrate/migrate.go\<close>,
  \<open>telemetry/telemetry.go\<close>, \<open>src/cmd/nebula-mnemosina/main.go\<close>): the migration sets,
  the exporter and what is registered with OpenTelemetry, the logger and the signals, the order in
  which the process starts and releases its parts.

  \<open>Daemon\<close> puts the parts together: the collector's locales are interpreted on the SSH
  client and on the database, and \<open>daemon_run\<close> is the inductive relation of poll rounds,
  prunings and requests over one store. \<open>Interleaving\<close> is the database under concurrent use:
  each call is a step, of the transaction of a save or on its own, and the calls of any number of
  daemons follow each other in any order; \<open>Server_Path\<close> shows that the operations of
  \<open>Daemon\<close> are sequences of these steps. \<open>Mnemosina\<close> is the program of
  \<open>Program\<close> with the modelled parts put in its fields. The properties below are about
  these.

  Shape of the main results. Safety holds under every fault script and every schedule: a save is
  all or nothing, the invariant \<open>db_inv\<close> is kept by every operation, pruning and the whole
  daemon, and any interleaving of calls at the database, lose only what the retention periods
  expire, a learned host key is the only one accepted afterwards, no command runs before the host
  key is accepted. Progress is proved as such: a
  round never blocks and ends within eight steps per goroutine (start, six commands, send),
  pruning returns whatever the store does, and without faults saves, refreshes, rounds and
  prunings succeed. \<open>pollLighthouse\<close>, a save, the target groups, the peer listing and the
  views equal declarative readings of their inputs.

  Bounds. JSON values nest to 10000 levels as in encoding/json, and the scanner's recursion ends
  on the length of the text. Only \<open>batch_loop\<close> could run forever; it returns because a batch
  that is not the last removes 1000 of finitely many rows. The ticker loops run over the list of
  what their \<open>select\<close> receives. Counters and identifiers of the program are words of their
  Go width; database identifiers, counts and the percentile are unbounded numbers.

  Not modelled, and why. The libraries: kong, pgx and the SQL planner, TimescaleDB's choice of
  chunks (a parameter under \<open>drop_law\<close>), tern, the OpenTelemetry SDK, promhttp, the SSH
  protocol and cryptography. The order of rows that tie in a query without a tie breaker is the
  order of insertion. PostgreSQL stores microseconds, the model keeps Go's nanoseconds, and text
  that PostgreSQL refuses (a NUL byte, a document jsonb cannot hold) is a refusal of the fault
  script. Messages of JSON errors are a parameter. The percentile is exact where PostgreSQL
  rounds to a double. A field repeated in one JSON object decodes into what the first occurrence
  left, without the hidden capacity of Go's slices. Logs, spans and histograms' buckets have no
  effect on the rest, and signals appear as contexts that are done. Directories are not part of
  the file model. In \<open>Daemon\<close> a round, a pruning and a request are each one step;
  \<open>Interleaving\<close> has their calls as the steps, with PostgreSQL's read committed isolation:
  a statement is one step on the committed tables, or on these and the rows of its own
  transaction, whose inserts it allows in any order. What these finer runs keep are the
  invariant and the rows that are not expired; what a caller is answered in them is not followed.
\<close>

section \<open>A sample daemon\<close>

definition sample_daemon :: "database \<Rightarrow> (nat, unit, string) daemon" where
  "sample_daemon d =
     \<lparr>kl_env = (\<lparr>cl_signer = (), cl_callback = AcceptNew ''/hosts'' [], cl_timeout = 1\<rparr>, sample_env),
      kl_store = sample_world\<lparr>tables := d\<rparr>, kl_metrics = no_metrics\<rparr>"

lemma sample_daemon_sel [simp]:
  "steady_clock (kl_env (sample_daemon d))" "kl_store (sample_daemon d) = sample_world\<lparr>tables := d\<rparr>"
  by (simp_all add: sample_daemon_def steady_clock_def sample_env_def)

lemma sample_db_runs: "map po_started_at (t_runs sample_db) = [Some 5]"
  by (simp add: sample_db_def saved_db_sel(1) empty_db_def sample_result_def zero_defs timestamptz_def
      time_is_zero_def)

definition early :: gotime where
  "early = \<lparr>wall = 7, mono = None\<rparr>"

lemma sample_unexpired: "unexpired (cli_retention sample_cli) [early] (set (t_runs sample_db)) = set (t_runs sample_db)"
proof -
  have "cutoff_of early (rt_period (cli_retention sample_cli)) = Some (7 - 2592000000000000)"
    by (simp add: cutoff_of_def early_def sample_cli_def)
  moreover have "po_started_at p = Some 5" if "p \<in> set (t_runs sample_db)" for p
    using that arg_cong [OF sample_db_runs, of set] by auto
  ultimately show ?thesis by (auto simp: unexpired_def ts_before_def)
qed

text \<open>A round and then a pruning of the sample database.\<close>

lemma sample_daemon_run:
  "\<exists>k. daemon_run sample_lib je no_marshal arr coll day_chunks sample_config (sample_daemon sample_db) [early] k"
proof -
  let ?run = "daemon_run sample_lib je no_marshal arr coll day_chunks sample_config (sample_daemon sample_db)"
  obtain sched err k1 where r: "runRound (ssh_runtime sample_lib) je (db_collector_store no_marshal arr coll) sample_config
      sched (sample_daemon sample_db) = Some (err, k1)"
    using some_schedule by blast
  have k1: "?run [] k1" by (rule daemon_run.round [OF daemon_run.initial r])
  have "holds_runs {} (kl_store (sample_daemon sample_db))" using sample_db_inv by (simp add: holds_runs_def)
  from daemon_keeps [OF drop_law_day_chunks _ this k1] have "integrity (tables (kl_store k1))"
    by (simp add: holds_runs_def db_inv_def)
  then obtain res ps where p: "Prune (db_store day_chunks) (cli_retention (cfg_cli sample_config))
      (cli_enable_timescale (cfg_cli sample_config)) early (pruner_of k1 (\<lambda>_. None)) = Some (res, ps)"
    using prune_returns [OF drop_law_day_chunks, of "pruner_of k1 (\<lambda>_. None)" "cli_retention (cfg_cli sample_config)"
        "cli_enable_timescale (cfg_cli sample_config)" early]
    by (auto simp: pruner_of_def)
  from daemon_run.pruning [OF k1 p] show ?thesis by auto
qed

section \<open>Properties of the system\<close>











end
